(* ===== verification/Prelude.thy ===== *)
theory Prelude
  imports "HOL-Library.Word"
begin

text \<open>
  What every component shares: the outcome of running a piece of the C++ program, the loops, the
  byte buffers the encoders write into, and generic lemmas on lists and words.

  An \<open>outcome\<close> is how a call ends.  \<open>Ret\<close> is a normal return and \<open>Throw\<close> a C++ exception.
  \<open>Abort\<close> is a failed \<^verbatim>\<open>xju::assert_...\<close> (\<^verbatim>\<open>src/xju/assert.hh\<close>: the process is aborted, no
  handler runs), \<open>Undef\<close> is behaviour the C++ standard leaves undefined (writing outside a vector,
  moving an iterator in front of its first element), and \<open>Diverge\<close> is a loop that never ends.
\<close>

unbundle bit_operations_syntax

type_synonym byte = "8 word"
type_synonym bytes = "8 word list"
type_synonym u32 = "32 word"
type_synonym u64 = "64 word"

named_theorems outcome_simps "equations of the outcome combinators"
named_theorems ber_simps "what an encoder writes, as a list of bytes"
named_theorems decode_intros "round trips of the decoders"

section \<open>Outcomes\<close>

datatype ('e, 'a) outcome = Ret 'a | Throw 'e | Abort | Undef | Diverge

fun obind :: "('e, 'a) outcome \<Rightarrow> ('a \<Rightarrow> ('e, 'b) outcome) \<Rightarrow> ('e, 'b) outcome" where
  "obind (Ret x) f = f x"
| "obind (Throw e) f = Throw e"
| "obind Abort f = Abort"
| "obind Undef f = Undef"
| "obind Diverge f = Diverge"

text \<open>An assertion of \<^verbatim>\<open>src/xju/assert.hh\<close>: \<^verbatim>\<open>assert_equal\<close>, \<^verbatim>\<open>assert_less_equal\<close> and the rest
  differ only in the condition.\<close>

definition oassert :: "bool \<Rightarrow> ('e, unit) outcome" where
  "oassert b = (if b then Ret () else Abort)"

primrec omap :: "('a \<Rightarrow> ('e, 'b) outcome) \<Rightarrow> 'a list \<Rightarrow> ('e, 'b list) outcome" where
  "omap f [] = Ret []"
| "omap f (x # xs) = obind (f x) (\<lambda>y. obind (omap f xs) (\<lambda>ys. Ret (y # ys)))"

definition is_Ret :: "('e, 'a) outcome \<Rightarrow> bool" where
  "is_Ret m \<longleftrightarrow> (\<exists>x. m = Ret x)"

text \<open>The two ways a call may end in code that is well behaved.\<close>

definition well_behaved :: "('e, 'a) outcome \<Rightarrow> bool" where
  "well_behaved m \<longleftrightarrow> m \<noteq> Abort \<and> m \<noteq> Undef \<and> m \<noteq> Diverge"

text \<open>An exception that reaches a function declared \<^verbatim>\<open>throw()\<close> terminates the process.\<close>

fun nothrow :: "('e, 'a) outcome \<Rightarrow> ('e, 'a) outcome" where
  "nothrow (Throw e) = Abort"
| "nothrow m = m"

lemma nothrow_eq_Ret [simp]: "nothrow m = Ret x \<longleftrightarrow> m = Ret x"
  by (cases m) simp_all

lemma nothrow_not_Throw [simp]: "nothrow m \<noteq> Throw e"
  by (cases m) simp_all

lemma obind_assoc: "obind (obind m f) g = obind m (\<lambda>x. obind (f x) g)"
  by (cases m) simp_all

lemma obind_Ret_right [simp]: "obind m Ret = m"
  by (cases m) simp_all

lemma obind_unit: "(\<And>x. m = Ret x \<Longrightarrow> f x = Ret x) \<Longrightarrow> obind m f = m"
  by (cases m) simp_all

lemma obind_eq_Ret [simp]: "obind m f = Ret y \<longleftrightarrow> (\<exists>x. m = Ret x \<and> f x = Ret y)"
  by (cases m) simp_all

lemma obind_eq_Diverge: "obind m f = Diverge \<longleftrightarrow> m = Diverge \<or> (\<exists>x. m = Ret x \<and> f x = Diverge)"
  by (cases m) simp_all

lemma obind_eq_Abort: "obind m f = Abort \<longleftrightarrow> m = Abort \<or> (\<exists>x. m = Ret x \<and> f x = Abort)"
  by (cases m) simp_all

lemma obind_eq_Undef: "obind m f = Undef \<longleftrightarrow> m = Undef \<or> (\<exists>x. m = Ret x \<and> f x = Undef)"
  by (cases m) simp_all

lemma obind_cong [fundef_cong]:
  "m = m' \<Longrightarrow> (\<And>x. m' = Ret x \<Longrightarrow> f x = g x) \<Longrightarrow> obind m f = obind m' g"
  by (cases m') simp_all

lemma oassert_simps [simp]:
  "oassert True = Ret ()" "oassert False = Abort"
  "oassert b = Ret u \<longleftrightarrow> b" "oassert b = Abort \<longleftrightarrow> \<not> b"
  "oassert b \<noteq> Throw e" "oassert b \<noteq> Undef" "oassert b \<noteq> Diverge"
  by (simp_all add: oassert_def)

lemma well_behaved_simps [simp]:
  "well_behaved (Ret x)" "well_behaved (Throw e)" "\<not> well_behaved Abort" "\<not> well_behaved Undef"
  "\<not> well_behaved Diverge"
  by (simp_all add: well_behaved_def)

lemma well_behaved_obind:
  "well_behaved m \<Longrightarrow> (\<And>x. m = Ret x \<Longrightarrow> well_behaved (f x)) \<Longrightarrow> well_behaved (obind m f)"
  by (cases m) simp_all

lemma obind_if [outcome_simps]:
  "obind (if b then m else n) f = (if b then obind m f else obind n f)"
  by simp

lemma obind_assert [outcome_simps]: "obind (oassert b) f = (if b then f () else Abort)"
  by (simp add: oassert_def)

lemma omap_Ret: "(\<And>x. x \<in> set xs \<Longrightarrow> f x = Ret (g x)) \<Longrightarrow> omap f xs = Ret (map g xs)"
  by (induction xs) simp_all

lemma omap_eq_Ret_iff:
  "omap f xs = Ret ys \<longleftrightarrow> list_all2 (\<lambda>x y. f x = Ret y) xs ys"
proof (induction xs arbitrary: ys)
  case Nil
  then show ?case by auto
next
  case (Cons x xs)
  then show ?case by (cases ys) auto
qed

lemma omap_not_Throw: "(\<And>x e. x \<in> set xs \<Longrightarrow> f x \<noteq> Throw e) \<Longrightarrow> omap f xs \<noteq> Throw e"
proof (induction xs)
  case (Cons x xs)
  from Cons.prems have "f x \<noteq> Throw e" by simp
  then show ?case using Cons by (cases "f x"; cases "omap f xs") auto
qed simp

section \<open>Loops\<close>

text \<open>
  \<^verbatim>\<open>while (c) b;\<close> over the variables \<open>s\<close> the loop changes.  Both the condition and the body may
  throw.  \<open>while_opt\<close> is the least solution of the loop's equation, \<open>None\<close> when the loop does not
  end; \<open>owhile\<close> reports that as \<open>Diverge\<close>.
\<close>

partial_function (option) while_opt ::
    "('s \<Rightarrow> ('e, bool) outcome) \<Rightarrow> ('s \<Rightarrow> ('e, 's) outcome) \<Rightarrow> 's \<Rightarrow> ('e, 's) outcome option" where
  "while_opt c b s =
     (case c s of
        Ret t \<Rightarrow>
          (if t then
             (case b s of
                Ret s' \<Rightarrow> while_opt c b s'
              | Throw e \<Rightarrow> Some (Throw e)
              | Abort \<Rightarrow> Some Abort
              | Undef \<Rightarrow> Some Undef
              | Diverge \<Rightarrow> Some Diverge)
           else Some (Ret s))
      | Throw e \<Rightarrow> Some (Throw e)
      | Abort \<Rightarrow> Some Abort
      | Undef \<Rightarrow> Some Undef
      | Diverge \<Rightarrow> Some Diverge)"

declare while_opt.simps [code]

definition owhile ::
    "('s \<Rightarrow> ('e, bool) outcome) \<Rightarrow> ('s \<Rightarrow> ('e, 's) outcome) \<Rightarrow> 's \<Rightarrow> ('e, 's) outcome" where
  "owhile c b s = (case while_opt c b s of None \<Rightarrow> Diverge | Some r \<Rightarrow> r)"

text \<open>The loop's equation.  The recursive occurrence is not applied, so the equation can be used
  as a rewrite rule: it unfolds once per iteration that is known to run.\<close>

lemma owhile_unfold:
  "owhile c b s = obind (c s) (\<lambda>t. if t then obind (b s) (owhile c b) else Ret s)"
  unfolding owhile_def
  by (subst while_opt.simps) (auto split: outcome.splits simp: owhile_def)

text \<open>Induction over the iterations of a loop that ends.\<close>

lemma while_opt_induct [consumes 1, case_names iterate stop]:
  assumes "while_opt c b s = Some r"
    and iterate: "\<And>s s' r. c s = Ret True \<Longrightarrow> b s = Ret s' \<Longrightarrow> P s' r \<Longrightarrow> P s r"
    and stop: "\<And>s r. obind (c s) (\<lambda>t. if t then obind (b s) Ret else Ret s) = r \<Longrightarrow>
      (c s = Ret True \<Longrightarrow> \<not> is_Ret (b s)) \<Longrightarrow> P s r"
  shows "P s r"
proof -
  have "c = c \<longrightarrow> b = b \<longrightarrow> P s r"
  proof (rule while_opt.raw_induct [OF _ assms(1), where P = "\<lambda>c' b' s r. c' = c \<longrightarrow> b' = b \<longrightarrow> P s r"])
    fix loop c' b' s r
    assume IH: "\<And>c' b' s r. loop c' b' s = Some r \<Longrightarrow> c' = c \<longrightarrow> b' = b \<longrightarrow> P s r"
      and eq: "(case c' s of Ret t \<Rightarrow>
          (if t then (case b' s of Ret s' \<Rightarrow> loop c' b' s' | Throw e \<Rightarrow> Some (Throw e)
              | Abort \<Rightarrow> Some Abort | Undef \<Rightarrow> Some Undef | Diverge \<Rightarrow> Some Diverge)
           else Some (Ret s)) | Throw e \<Rightarrow> Some (Throw e) | Abort \<Rightarrow> Some Abort
          | Undef \<Rightarrow> Some Undef | Diverge \<Rightarrow> Some Diverge) = Some r"
    show "c' = c \<longrightarrow> b' = b \<longrightarrow> P s r"
    proof (intro impI)
      assume c: "c' = c" and b: "b' = b"
      show "P s r"
      proof (cases "\<exists>s'. c s = Ret True \<and> b s = Ret s'")
        case True
        then obtain s' where s': "c s = Ret True" "b s = Ret s'" by blast
        with eq c b have "loop c b s' = Some r" by simp
        with IH have "P s' r" by blast
        with s' show ?thesis by (rule iterate)
      next
        case False
        with eq c b show ?thesis
          by (intro stop) (auto simp: is_Ret_def split: outcome.splits if_splits)
      qed
    qed
  qed
  then show ?thesis by simp
qed

text \<open>Partial correctness: an invariant of the body holds where the loop returns.\<close>

lemma while_opt_invariant:
  assumes "while_opt c b s = Some r" and "J s" and "r = Ret t"
    and "\<And>s s'. J s \<Longrightarrow> c s = Ret True \<Longrightarrow> b s = Ret s' \<Longrightarrow> J s'"
  shows "J t \<and> c t = Ret False"
  using assms
proof (induction rule: while_opt_induct)
  case (iterate s s' r)
  then show ?case by blast
next
  case (stop s r)
  then show ?case by (auto simp: is_Ret_def split: if_splits)
qed

lemma owhile_invariant:
  assumes "owhile c b s = Ret t" and "J s"
    and "\<And>s s'. J s \<Longrightarrow> c s = Ret True \<Longrightarrow> b s = Ret s' \<Longrightarrow> J s'"
  shows "J t \<and> c t = Ret False"
proof -
  from assms(1) have "while_opt c b s = Some (Ret t)"
    by (auto simp: owhile_def split: option.splits)
  from while_opt_invariant [where J = J, OF this assms(2) refl assms(3)] show ?thesis .
qed

text \<open>Termination: a measure that every iteration decreases.\<close>

lemma owhile_terminates:
  assumes "J s"
    and "\<And>s. J s \<Longrightarrow> c s \<noteq> Diverge"
    and "\<And>s. J s \<Longrightarrow> c s = Ret True \<Longrightarrow> b s \<noteq> Diverge"
    and "\<And>s s'. J s \<Longrightarrow> c s = Ret True \<Longrightarrow> b s = Ret s' \<Longrightarrow> J s' \<and> (f s' :: nat) < f s"
  shows "owhile c b s \<noteq> Diverge"
  using assms(1)
proof (induction "f s" arbitrary: s rule: less_induct)
  case less
  show ?case
    by (subst owhile_unfold) (use less assms(2-4) in \<open>auto simp: obind_eq_Diverge\<close>)
qed

text \<open>Total correctness with an outcome other than a return excluded step by step.\<close>

lemma owhile_well_behaved:
  assumes "J s"
    and "\<And>s. J s \<Longrightarrow> well_behaved (c s)"
    and "\<And>s. J s \<Longrightarrow> c s = Ret True \<Longrightarrow> well_behaved (b s)"
    and "\<And>s s'. J s \<Longrightarrow> c s = Ret True \<Longrightarrow> b s = Ret s' \<Longrightarrow> J s' \<and> (f s' :: nat) < f s"
  shows "well_behaved (owhile c b s)"
  using assms(1)
proof (induction "f s" arbitrary: s rule: less_induct)
  case less
  show ?case
    by (subst owhile_unfold)
      (use less assms(2-4) in \<open>auto simp: well_behaved_def obind_eq_Diverge obind_eq_Abort obind_eq_Undef\<close>)
qed

text \<open>Divergence: a set of states that the loop never leaves.\<close>

lemma while_opt_diverges:
  assumes "while_opt c b s = Some r" and "J s"
    and trap: "\<And>s. J s \<Longrightarrow> c s = Ret True \<and> (\<exists>s'. b s = Ret s' \<and> J s')"
  shows False
  using assms(1,2)
proof (induction rule: while_opt_induct)
  case (iterate s s' r)
  from trap [OF \<open>J s\<close>] iterate show ?case by auto
next
  case (stop s r)
  from trap [OF \<open>J s\<close>] stop show ?case by (auto simp: is_Ret_def)
qed

lemma owhile_diverges:
  assumes "J s"
    and "\<And>s. J s \<Longrightarrow> c s = Ret True \<and> (\<exists>s'. b s = Ret s' \<and> J s')"
  shows "owhile c b s = Diverge"
  using assms while_opt_diverges [of c b s]
  by (auto simp: owhile_def split: option.split)

section \<open>Words\<close>

lemma ucast_u32_u64 [simp]: "ucast (ucast (c :: u32) :: u64) = c"
  by (rule bit_word_eqI) (auto simp: bit_simps dest: bit_imp_le_length)

lemma ucast_byte_u64 [simp]: "ucast (ucast (b :: byte) :: u64) = b"
  by (rule bit_word_eqI) (auto simp: bit_simps dest: bit_imp_le_length)

lemma unat_of_nat_u32: "n < 2 ^ 32 \<Longrightarrow> unat (of_nat n :: u32) = n"
  by (simp add: unsigned_of_nat take_bit_nat_eq_self_iff)

lemma unat_of_nat_u64: "n < 2 ^ 64 \<Longrightarrow> unat (of_nat n :: u64) = n"
  by (simp add: unsigned_of_nat take_bit_nat_eq_self_iff)

lemma unat_of_nat_byte: "n < 2 ^ 8 \<Longrightarrow> unat (of_nat n :: byte) = n"
  by (simp add: unsigned_of_nat take_bit_nat_eq_self_iff)

lemma and_mask_byte: "(b :: byte) AND 0x7f = take_bit 7 b" "b AND NOT 0x80 = take_bit 7 b"
proof -
  show *: "b AND 0x7f = take_bit 7 b"
    by (simp add: take_bit_eq_mask mask_eq_decr_exp)
  have "NOT 0x80 = (0x7f :: byte)" by simp
  then have "b AND NOT 0x80 = b AND 0x7f" by (rule arg_cong)
  with * show "b AND NOT 0x80 = take_bit 7 b" by (simp only:)
qed

lemma unat_take_7: "unat (take_bit 7 (b :: byte)) = unat b mod 128"
  unfolding unsigned_take_bit_eq by (simp add: take_bit_eq_mod)

lemma unat_byte_less: "unat (b :: byte) < 256"
proof -
  have "unat b < 2 ^ LENGTH(8)" by (rule unsigned_less)
  then show ?thesis by simp
qed

lemma unat_ucast_byte: "unat v < 256 \<Longrightarrow> unat (ucast (v :: u64) :: byte) = unat v"
  by (simp add: unsigned_ucast_eq take_bit_nat_eq_self_iff)

lemma unat_ucast_u64: "unat (ucast (w :: byte) :: u64) = unat w"
proof -
  have "unat w < 2 ^ 64" using unat_byte_less [of w] by simp
  then show ?thesis by (simp add: unsigned_ucast_eq take_bit_nat_eq_self_iff)
qed

lemma ucast_ucast_byte: "unat v < 256 \<Longrightarrow> ucast (ucast (v :: u64) :: byte) = v"
  by (simp only: word_unat_eq_iff unat_ucast_u64 unat_ucast_byte)

lemma unat_ucast_up: "unat (ucast (c :: u32) :: u64) = unat c"
proof -
  have "unat c < 2 ^ LENGTH(32)" by (rule unsigned_less)
  then have "unat c < 2 ^ 64" by simp
  then show ?thesis by (simp add: unsigned_ucast_eq take_bit_nat_eq_self_iff)
qed

lemma sign_test: "(b :: byte) AND 0x80 \<noteq> 0 \<longleftrightarrow> bit b 7"
proof -
  have *: "(0x80 :: byte) = 2 ^ 7" by simp
  show ?thesis by (subst *, subst and_exp_eq_0_iff_not_bit, rule not_not)
qed

end
