(* ===== verification/Buffer.thy ===== *)
theory Buffer
  imports Prelude
begin

text \<open>
  The buffers the encoders write into.  A \<^verbatim>\<open>std::vector<uint8_t>::iterator\<close> into the vector being
  filled is the vector's contents and an offset; every write through it is \<open>put\<close>, which is
  undefined behaviour outside the vector.  An encoder takes the buffer and the offset to write at
  and returns the buffer and the offset just after what it wrote.

  \<open>writes f xs\<close> says that the encoder \<open>f\<close>, given room, writes exactly the bytes \<open>xs\<close> at its offset,
  leaves the rest of the buffer alone and returns the offset after them.
\<close>

type_synonym 'e encoder = "bytes \<Rightarrow> nat \<Rightarrow> ('e, bytes \<times> nat) outcome"

definition put :: "bytes \<Rightarrow> nat \<Rightarrow> byte \<Rightarrow> ('e, bytes) outcome" where
  "put buf i b = (if i < length buf then Ret (buf[i := b]) else Undef)"

text \<open>\<^verbatim>\<open>*at++=b\<close>\<close>

definition put_next :: "byte \<Rightarrow> 'e encoder" where
  "put_next b buf i = obind (put buf i b) (\<lambda>buf. Ret (buf, i + 1))"

text \<open>\<^verbatim>\<open>std::copy(xs.begin(),xs.end(),at)\<close>\<close>

primrec copy_to :: "bytes \<Rightarrow> 'e encoder" where
  "copy_to [] buf i = Ret (buf, i)"
| "copy_to (x # xs) buf i = obind (put buf i x) (\<lambda>buf. copy_to xs buf (i + 1))"

text \<open>One encoder after another, the second at the offset the first returned.\<close>

definition then_encode :: "'e encoder \<Rightarrow> 'e encoder \<Rightarrow> 'e encoder" where
  "then_encode f g buf i = obind (f buf i) (\<lambda>(buf, i). g buf i)"

primrec encode_each :: "('a \<Rightarrow> 'e encoder) \<Rightarrow> 'a list \<Rightarrow> 'e encoder" where
  "encode_each f [] buf i = Ret (buf, i)"
| "encode_each f (x # xs) buf i = obind (f x buf i) (\<lambda>(buf, i). encode_each f xs buf i)"

definition overwrite :: "bytes \<Rightarrow> nat \<Rightarrow> bytes \<Rightarrow> bytes" where
  "overwrite buf i xs = take i buf @ xs @ drop (i + length xs) buf"

definition writes :: "'e encoder \<Rightarrow> bytes \<Rightarrow> bool" where
  "writes f xs \<longleftrightarrow>
     (\<forall>buf i. i + length xs \<le> length buf \<longrightarrow> f buf i = Ret (overwrite buf i xs, i + length xs))"

lemma length_overwrite [simp]: "i + length xs \<le> length buf \<Longrightarrow> length (overwrite buf i xs) = length buf"
  by (simp add: overwrite_def)

lemma overwrite_Nil [simp]: "overwrite buf i [] = buf"
  by (simp add: overwrite_def)

lemma overwrite_append:
  assumes "i + length xs + length ys \<le> length buf"
  shows "overwrite (overwrite buf i xs) (i + length xs) ys = overwrite buf i (xs @ ys)"
  using assms by (simp add: overwrite_def ac_simps)

lemma overwrite_singleton: "i < length buf \<Longrightarrow> overwrite buf i [b] = buf[i := b]"
  by (simp add: overwrite_def upd_conv_take_nth_drop)

lemma overwrite_update:
  "Suc (i + length xs) \<le> length buf \<Longrightarrow> overwrite (buf[i := x]) (Suc i) xs = overwrite buf i (x # xs)"
  using overwrite_append [of i "[x]" xs buf] by (simp add: overwrite_singleton)

text \<open>Writing backwards, through a \<^verbatim>\<open>reverse_iterator\<close>.\<close>

lemma overwrite_before:
  assumes "Suc (i + length xs) \<le> length buf"
  shows "overwrite (overwrite buf (Suc i) xs) i [b] = overwrite buf i (b # xs)"
  using assms by (simp add: overwrite_def min_def)

lemma overwrite_last:
  assumes "i + length xs < length buf"
  shows "overwrite (buf[i + length xs := b]) i xs = overwrite buf i (xs @ [b])"
proof -
  have "drop (i + length xs) (buf[i + length xs := b]) = b # drop (Suc (i + length xs)) buf"
    using assms by (subst upd_conv_take_nth_drop) simp_all
  then show ?thesis by (simp add: overwrite_def)
qed

lemma overwrite_all: "length xs = length buf \<Longrightarrow> overwrite buf 0 xs = xs"
  by (simp add: overwrite_def)

lemma writesI:
  "(\<And>buf i. i + length xs \<le> length buf \<Longrightarrow> f buf i = Ret (overwrite buf i xs, i + length xs)) \<Longrightarrow>
    writes f xs"
  by (simp add: writes_def)

lemma writesD:
  "writes f xs \<Longrightarrow> i + length xs \<le> length buf \<Longrightarrow>
    f buf i = Ret (overwrite buf i xs, i + length xs)"
  by (simp add: writes_def)

named_theorems writes_intros "what the encoders write"

lemma writes_put_next [writes_intros]: "writes (put_next b) [b]"
  by (rule writesI) (simp add: put_next_def put_def overwrite_singleton)

lemma writes_copy_to [writes_intros]: "writes (copy_to xs) xs"
proof (induction xs)
  case Nil
  show ?case by (rule writesI) simp
next
  case (Cons x xs)
  show ?case
    by (rule writesI) (simp add: put_def writesD [OF Cons.IH] overwrite_update)
qed

lemma writes_then [writes_intros]:
  assumes "writes f xs" and "writes g ys"
  shows "writes (then_encode f g) (xs @ ys)"
proof (rule writesI)
  fix buf :: bytes and i
  assume fits: "i + length (xs @ ys) \<le> length buf"
  then have "f buf i = Ret (overwrite buf i xs, i + length xs)"
    by (intro writesD [OF assms(1)]) simp
  moreover from fits have "g (overwrite buf i xs) (i + length xs)
      = Ret (overwrite (overwrite buf i xs) (i + length xs) ys, i + length xs + length ys)"
    by (intro writesD [OF assms(2)]) simp
  ultimately show "then_encode f g buf i = Ret (overwrite buf i (xs @ ys), i + length (xs @ ys))"
    using fits by (simp add: then_encode_def overwrite_append)
qed

lemma writes_each:
  assumes "\<And>x. x \<in> set xs \<Longrightarrow> writes (f x) (g x)"
  shows "writes (encode_each f xs) (concat (map g xs))"
  using assms
proof (induction xs)
  case Nil
  show ?case by (rule writesI) simp
next
  case (Cons x xs)
  have "writes (then_encode (f x) (encode_each f xs)) (g x @ concat (map g xs))"
    using Cons by (intro writes_then) simp_all
  moreover have "then_encode (f x) (encode_each f xs) = encode_each f (x # xs)"
    by (intro ext) (simp add: then_encode_def)
  ultimately show ?case by (simp del: encode_each.simps)
qed

section \<open>Encoding into a new vector\<close>

text \<open>
  What every \<^verbatim>\<open>encode\<close> function of the library ends with:
  \<^verbatim>\<open>std::vector<uint8_t> result(s.encodedLength());
  xju::assert_equal(s.encodeTo(result.begin()),result.end());
  return result;\<close>
\<close>

definition to_vector :: "('e, nat) outcome \<Rightarrow> 'e encoder \<Rightarrow> ('e, bytes) outcome" where
  "to_vector len f =
     obind len (\<lambda>n.
     obind (f (replicate n 0) 0) (\<lambda>(result, end).
     obind (oassert (end = length result)) (\<lambda>_.
     Ret result)))"

text \<open>The sum of the lengths of some items, as the constructors of the sequences compute it.\<close>

primrec sum_lengths :: "('a \<Rightarrow> ('e, nat) outcome) \<Rightarrow> 'a list \<Rightarrow> ('e, nat) outcome" where
  "sum_lengths f [] = Ret 0"
| "sum_lengths f (x # xs) = obind (f x) (\<lambda>n. obind (sum_lengths f xs) (\<lambda>m. Ret (n + m)))"

lemma sum_lengths_cong [fundef_cong]:
  "xs = ys \<Longrightarrow> (\<And>x. x \<in> set ys \<Longrightarrow> f x = g x) \<Longrightarrow> sum_lengths f xs = sum_lengths g ys"
  by (induction ys arbitrary: xs) auto

lemma encode_each_cong [fundef_cong]:
  "xs = ys \<Longrightarrow> (\<And>x. x \<in> set ys \<Longrightarrow> f x = g x) \<Longrightarrow> encode_each f xs = encode_each g ys"
  by (induction ys arbitrary: xs) (auto intro!: ext)

lemma sum_lengths_eq:
  "(\<And>x. x \<in> set xs \<Longrightarrow> f x = (if P x then Ret (length (g x)) else Abort)) \<Longrightarrow>
    sum_lengths f xs = (if list_all P xs then Ret (length (concat (map g xs))) else Abort)"
  by (induction xs) auto

text \<open>
  The contract of \<^verbatim>\<open>src/xju/snmp/Value.hh\<close>: \<^verbatim>\<open>encodedLength() // ie return encodeTo(x)-x\<close>.
  A provider encodes its well-formed values as \<open>repr\<close> says and announces their length; it aborts on
  the others.  Then encoding into a new vector of the announced length returns exactly those bytes:
  no write leaves the vector and the assertion holds.
\<close>

locale encodable =
  fixes encodeTo :: "'v \<Rightarrow> 'e encoder"
    and encodedLength :: "'v \<Rightarrow> ('e, nat) outcome"
    and repr :: "'v \<Rightarrow> bytes"
    and well_formed :: "'v \<Rightarrow> bool"
  assumes encodeTo_writes: "well_formed v \<Longrightarrow> writes (encodeTo v) (repr v)"
    and encodedLength_repr: "encodedLength v = (if well_formed v then Ret (length (repr v)) else Abort)"
begin

lemma to_vector_encodes:
  "to_vector (encodedLength v) (encodeTo v) = (if well_formed v then Ret (repr v) else Abort)"
proof (cases "well_formed v")
  case True
  then have "encodeTo v (replicate (length (repr v)) 0) 0 = Ret (repr v, length (repr v))"
    using writesD [OF encodeTo_writes [OF True], of 0 "replicate (length (repr v)) 0"]
    by (simp add: overwrite_all)
  with True show ?thesis
    by (simp add: to_vector_def encodedLength_repr)
qed (simp add: to_vector_def encodedLength_repr)

lemma encode_each_writes:
  "list_all well_formed vs \<Longrightarrow> writes (encode_each encodeTo vs) (concat (map repr vs))"
  by (intro writes_each encodeTo_writes) (simp add: list_all_iff)

end

end
