(* ===== verification/CountBits.thy ===== *)
theory CountBits
  imports Prelude
begin

text \<open>
  \<^verbatim>\<open>src/xju/countSignificantBits.cc\<close>: the number of bits needed for an unsigned 64-bit value, by
  bisection over the masks, and the lengths computed from it.
\<close>

definition bit_mask :: "nat \<Rightarrow> u64" where
  "bit_mask bits = push_bit bits 1 - 1"

text \<open>The loop variables \<^verbatim>\<open>h\<close> and \<^verbatim>\<open>l\<close>; \<^verbatim>\<open>g\<close> is \<^verbatim>\<open>(h+l)/2\<close> whenever the condition is tested (at the
  start it is 32).\<close>

function bisect_bits :: "u64 \<Rightarrow> nat \<Rightarrow> nat \<Rightarrow> nat \<times> nat" where
  "bisect_bits x h l =
     (if h - l > 1 then
        (let g = (h + l) div 2 in
         if bit_mask g AND x = x then bisect_bits x g l else bisect_bits x h g)
      else (h, l))"
  by pat_completeness auto
termination
  by (relation "measure (\<lambda>(x, h, l). h - l)") auto

declare bisect_bits.simps [simp del]

definition countSignificantBits :: "u64 \<Rightarrow> nat" where
  "countSignificantBits x =
     (if x = 0 then 0
      else let (h, l) = bisect_bits x 64 0 in
        if bit_mask l AND x = x then l else h)"

lemma bit_mask_and_eq_iff: "g < 64 \<Longrightarrow> bit_mask g AND x = x \<longleftrightarrow> unat x < 2 ^ g"
proof -
  assume g: "g < 64"
  have "bit_mask g = mask g"
    by (simp add: bit_mask_def mask_eq_decr_exp)
  then have "bit_mask g AND x = take_bit g x"
    by (simp add: take_bit_eq_mask and.commute)
  moreover have "take_bit g x = x \<longleftrightarrow> unat (take_bit g x) = unat x"
    by (simp add: word_unat_eq_iff)
  moreover have "unat (take_bit g x) = take_bit g (unat x)"
    by (simp add: unsigned_take_bit_eq)
  ultimately show ?thesis
    by (simp add: take_bit_nat_eq_self_iff)
qed

lemma bisect_bits_spec:
  assumes "unat x < 2 ^ h" and "2 ^ l \<le> unat x \<or> l = 0" and "l < h" and "h \<le> 64"
  shows "\<exists>l'. bisect_bits x h l = (Suc l', l') \<and> l' < 64 \<and> unat x < 2 ^ Suc l' \<and>
    (2 ^ l' \<le> unat x \<or> l' = 0)"
  using assms
proof (induction x h l rule: bisect_bits.induct)
  case (1 x h l)
  show ?case
  proof (cases "h - l > 1")
    case True
    define g where "g = (h + l) div 2"
    from True 1(6) have g: "l < g" "g < h" "g < 64" by (auto simp: g_def)
    show ?thesis
    proof (cases "unat x < 2 ^ g")
      case less: True
      with g have "bit_mask g AND x = x" by (simp add: bit_mask_and_eq_iff)
      with True 1(1) [OF True g_def] 1(4) less g show ?thesis
        by (subst bisect_bits.simps) (simp add: g_def [symmetric])
    next
      case False
      with g have "bit_mask g AND x \<noteq> x" by (simp add: bit_mask_and_eq_iff)
      with True 1(2) [OF True g_def] 1(3,6) False g show ?thesis
        by (subst bisect_bits.simps) (simp add: g_def [symmetric])
    qed
  next
    case False
    with 1(5) have "h = Suc l" by simp
    with 1 show ?thesis by (subst bisect_bits.simps) simp
  qed
qed

lemma countSignificantBits_bounds:
  shows countSignificantBits_upper: "unat x < 2 ^ countSignificantBits x"
    and countSignificantBits_lower: "x \<noteq> 0 \<Longrightarrow> 2 ^ (countSignificantBits x - 1) \<le> unat x"
    and countSignificantBits_pos: "x \<noteq> 0 \<Longrightarrow> 0 < countSignificantBits x"
    and countSignificantBits_le: "countSignificantBits x \<le> 64"
proof -
  have x64: "unat x < 2 ^ 64" using unsigned_less [of x] by simp
  obtain l where l: "bisect_bits x 64 0 = (Suc l, l)" "l < 64" "unat x < 2 ^ Suc l"
    "2 ^ l \<le> unat x \<or> l = 0"
    using bisect_bits_spec [of x 64 0] x64 by auto
  have *: "countSignificantBits x = (if x = 0 then 0 else Suc l)"
  proof -
    have "bit_mask l AND x \<noteq> x" if "x \<noteq> 0"
    proof -
      from that have "0 < unat x" by (simp add: unat_gt_0)
      with l show ?thesis by (auto simp: bit_mask_and_eq_iff)
    qed
    then show ?thesis by (simp add: countSignificantBits_def l)
  qed
  show "unat x < 2 ^ countSignificantBits x" using l * by auto
  show "x \<noteq> 0 \<Longrightarrow> 0 < countSignificantBits x" using * by simp
  show "countSignificantBits x \<le> 64" using l * by auto
  show "x \<noteq> 0 \<Longrightarrow> 2 ^ (countSignificantBits x - 1) \<le> unat x"
  proof -
    assume "x \<noteq> 0"
    then have "0 < unat x" by (simp add: unat_gt_0)
    with * l(4) show ?thesis by auto
  qed
qed

text \<open>The function is the reference definition: the least \<open>k\<close> with \<open>x < 2 ^ k\<close>.\<close>

lemma countSignificantBits_Least: "countSignificantBits x = (LEAST k. unat x < 2 ^ k)"
proof (rule Least_equality [symmetric])
  show "unat x < 2 ^ countSignificantBits x" by (rule countSignificantBits_upper)
  fix k
  assume k: "unat x < 2 ^ k"
  show "countSignificantBits x \<le> k"
  proof (rule ccontr)
    assume "\<not> countSignificantBits x \<le> k"
    then have less: "k < countSignificantBits x" by simp
    then have "x \<noteq> 0" by (auto simp: countSignificantBits_def)
    moreover from less have "(2::nat) ^ k \<le> 2 ^ (countSignificantBits x - 1)"
      by (intro power_increasing) auto
    ultimately show False using k countSignificantBits_lower [of x] by linarith
  qed
qed

lemma countSignificantBits_le_iff: "countSignificantBits x \<le> k \<longleftrightarrow> unat x < 2 ^ k"
proof
  assume "countSignificantBits x \<le> k"
  then have "(2::nat) ^ countSignificantBits x \<le> 2 ^ k" by (intro power_increasing) auto
  with countSignificantBits_upper [of x] show "unat x < 2 ^ k" by (rule order_less_le_trans)
next
  assume "unat x < 2 ^ k"
  then show "countSignificantBits x \<le> k"
    by (simp add: countSignificantBits_Least Least_le)
qed

end
