(* ===== verification/DecodeIterator.thy ===== *)
theory DecodeIterator
  imports Prelude
begin

text \<open>
  \<^verbatim>\<open>src/xju/snmp/DecodeIterator.hh\<close>: the checked iterator the decoders read through, and the loop
  over the bytes up to an iterator that five of the decoders contain.

  \<open>snmp_error\<close> has one constructor for each \<^verbatim>\<open>throw\<close> of the decoders, with the data the exception
  reports.  The context that the enclosing \<^verbatim>\<open>catch\<close> clauses add to an exception on its way out is
  text for people and is not modelled.

  \<open>wire_format\<close> is the contract between a decoder and the bytes it reads: whatever surrounds the
  encoding of a value, the decoder returns that value and stands just after it.
\<close>

section \<open>Exceptions of the decoders\<close>

datatype snmp_error =
    EndOfData nat                  \<comment> \<open>\<^verbatim>\<open>DecodeIterator.hh\<close>: read or step at the end of the data\<close>
  | LengthBytes nat                \<comment> \<open>\<^verbatim>\<open>decodeLength.cc\<close>: more than 8 length bytes\<close>
  | WrongTag byte byte             \<comment> \<open>a value's type is not the expected one\<close>
  | IndefiniteInt                  \<comment> \<open>\<^verbatim>\<open>decodeIntValue.cc\<close>, \<^verbatim>\<open>decodeTimeTicksValue.cc\<close>\<close>
  | IntBytes u32                   \<comment> \<open>more than 8 bytes of integer\<close>
  | IndefiniteString               \<comment> \<open>\<^verbatim>\<open>decodeStringValue.cc\<close>\<close>
  | IndefiniteIPv4Address          \<comment> \<open>\<^verbatim>\<open>decodeIPv4AddressValue.cc\<close>\<close>
  | IPv4AddressLength u64
  | OidStart byte                  \<comment> \<open>\<^verbatim>\<open>decodeOidValue.cc\<close>: does not start with 1.3\<close>
  | Counter32TooBig u64            \<comment> \<open>\<^verbatim>\<open>decodeValue.cc\<close>\<close>
  | Gauge32TooBig u64
  | TypeNotImplemented byte
  | NotSequence byte               \<comment> \<open>the message decoders: the outer type is not 0x30\<close>
  | SnmpVersionMismatch u64 u64    \<comment> \<open>got, expected\<close>
  | RequestTypeMismatch byte byte  \<comment> \<open>got, expected\<close>
  | UnsupportedVersion u64         \<comment> \<open>the response decoders\<close>
  | ErrorStatusTooBig u64
  | TrapVars nat                   \<comment> \<open>\<^verbatim>\<open>decodeSnmpV2cTrap.cc\<close>: fewer than two variables\<close>
  | TrapVarOid nat
  | IndefiniteException            \<comment> \<open>\<^verbatim>\<open>decodeSnmpV2cResponse.cc\<close>, \<^verbatim>\<open>decodePDU.hcp\<close>\<close>
  | NotTimeTicks
  | NotOid
  | MessageIdTooBig u64            \<comment> \<open>\<^verbatim>\<open>decodeSnmpV3Message.cc\<close>\<close>
  | MaxSizeTooSmall u64
  | MaxSizeTooBig u64
  | FlagsLength nat
  | SecurityModelTooBig u64
  | ScopedPduType byte byte        \<comment> \<open>got, expected\<close>
  | DataLength u64 nat             \<comment> \<open>SNMPv3: announced and remaining bytes differ\<close>
  | EngineBootsTooBig u64          \<comment> \<open>\<^verbatim>\<open>decodeSnmpV3UsmSecurityParameters.hcp\<close>\<close>
  | EngineTimeTooBig u64
  | UserNameTooLong nat
  | ExtraData bytes
  | MacLength nat nat              \<comment> \<open>\<^verbatim>\<open>decodeSnmpV3UsmMessage.hcp\<close>: expected, got\<close>
  | WrongMac bytes bytes           \<comment> \<open>calculated, received\<close>
  | PrivDataLength nat             \<comment> \<open>the decrypters: not 8 bytes\<close>

section \<open>The iterator\<close>

record DecodeIterator =
  it_data :: bytes
  it_at :: nat

abbreviation It :: "bytes \<Rightarrow> nat \<Rightarrow> DecodeIterator" where
  "It d k \<equiv> \<lparr>it_data = d, it_at = k\<rparr>"

type_synonym 'a decoded = "(snmp_error, 'a \<times> DecodeIterator) outcome"

text \<open>Every iterator of the program satisfies this.\<close>

definition in_range :: "DecodeIterator \<Rightarrow> bool" where
  "in_range i \<longleftrightarrow> it_at i \<le> length (it_data i)"

definition start_of :: "bytes \<Rightarrow> DecodeIterator" where
  "start_of d = It d 0"

definition remaining :: "DecodeIterator \<Rightarrow> nat" where
  "remaining i = length (it_data i) - it_at i"

definition atEnd :: "DecodeIterator \<Rightarrow> bool" where
  "atEnd i = (it_at i = length (it_data i))"

text \<open>\<^verbatim>\<open>operator*\<close>\<close>

definition deref :: "DecodeIterator \<Rightarrow> (snmp_error, byte) outcome" where
  "deref i = (if atEnd i then Throw (EndOfData (length (it_data i))) else Ret (it_data i ! it_at i))"

text \<open>\<^verbatim>\<open>operator++\<close>\<close>

definition incr :: "DecodeIterator \<Rightarrow> (snmp_error, DecodeIterator) outcome" where
  "incr i = (if atEnd i then Throw (EndOfData (length (it_data i))) else Ret (i\<lparr>it_at := it_at i + 1\<rparr>))"

text \<open>\<^verbatim>\<open>operator+(DecodeIterator const&,int)\<close>: too far aborts the process.  A negative offset is not
  checked: in front of the first byte the iterator is undefined.\<close>

definition plus_int :: "DecodeIterator \<Rightarrow> int \<Rightarrow> (snmp_error, DecodeIterator) outcome" where
  "plus_int i n =
     obind (oassert (n \<le> int (length (it_data i)) - int (it_at i))) (\<lambda>_.
       if int (it_at i) + n < 0 then Undef else Ret (i\<lparr>it_at := nat (int (it_at i) + n)\<rparr>))"

text \<open>The conversion of a \<^verbatim>\<open>size_t\<close> argument to the parameter type \<^verbatim>\<open>int\<close> of \<^verbatim>\<open>operator+\<close>.\<close>

definition int_of_size :: "u64 \<Rightarrow> int" where
  "int_of_size n = sint (ucast n :: 32 word)"

text \<open>
  \<^verbatim>\<open>for (i=start; i!=finish; ++i) { step(s,*i); }\<close>, with the expression \<^verbatim>\<open>finish\<close> evaluated before each
  iteration.
\<close>

definition for_bytes ::
    "DecodeIterator \<Rightarrow> (snmp_error, DecodeIterator) outcome \<Rightarrow> ('s \<Rightarrow> byte \<Rightarrow> 's) \<Rightarrow> 's \<Rightarrow>
      (snmp_error, DecodeIterator \<times> 's) outcome" where
  "for_bytes start finish step s0 =
     owhile
       (\<lambda>(i, s). obind finish (\<lambda>e. Ret (it_at i \<noteq> it_at e)))
       (\<lambda>(i, s). obind (deref i) (\<lambda>b. obind (incr i) (\<lambda>i'. Ret (i', step s b))))
       (start, s0)"

section \<open>Reading\<close>

lemma deref_eq [simp]:
  "k < length d \<Longrightarrow> deref (It d k) = Ret (d ! k)"
  "deref (It d (length d)) = Throw (EndOfData (length d))"
  by (simp_all add: deref_def atEnd_def)

lemma incr_eq [simp]:
  "k < length d \<Longrightarrow> incr (It d k) = Ret (It d (Suc k))"
  "incr (It d (length d)) = Throw (EndOfData (length d))"
  by (simp_all add: incr_def atEnd_def)

lemma plus_int_eq [simp]:
  "k + n \<le> length d \<Longrightarrow> plus_int (It d k) (int n) = Ret (It d (k + n))"
  by (simp add: plus_int_def nat_add_distrib)

lemma plus_int_1 [simp]:
  "k < length d \<Longrightarrow> plus_int (It d k) 1 = Ret (It d (Suc k))"
  using plus_int_eq [of k 1 d] by simp

lemma plus_int_2 [simp]:
  "Suc k < length d \<Longrightarrow> plus_int (It d k) 2 = Ret (It d (Suc (Suc k)))"
  using plus_int_eq [of k 2 d] by simp

lemma plus_int_far: "int (length d) < int k + n \<Longrightarrow> plus_int (It d k) n = Abort"
  by (simp add: plus_int_def)

lemma plus_int_nonneg:
  "0 \<le> n \<Longrightarrow> int k + n \<le> int (length d) \<Longrightarrow> plus_int (It d k) n = Ret (It d (k + nat n))"
  using plus_int_eq [of k "nat n" d] by simp

lemma plus_int_Ret:
  "plus_int i n = Ret j \<longleftrightarrow>
    0 \<le> int (it_at i) + n \<and> int (it_at i) + n \<le> int (length (it_data i)) \<and>
    j = i\<lparr>it_at := nat (int (it_at i) + n)\<rparr>"
  by (auto simp: plus_int_def oassert_def)

lemma signed_take_bit_small: "int m < 2 ^ n \<Longrightarrow> signed_take_bit n (int m) = int m"
  by (rule signed_take_bit_int_eq_self) (use zero_le_power [of "2::int" n] in linarith)+

lemma int_of_size_small: "unat n < 2 ^ 31 \<Longrightarrow> int_of_size n = int (unat n)"
proof -
  assume n: "unat n < 2 ^ 31"
  have "unat (ucast n :: 32 word) = take_bit 32 (unat n)"
    by (simp add: unsigned_ucast_eq)
  moreover from n have "take_bit 32 (unat n) = unat n"
    by (simp add: take_bit_nat_eq_self_iff)
  ultimately have "int (unat (ucast n :: 32 word)) = int (unat n)"
    by (rule arg_cong [OF trans])
  then have *: "uint (ucast n :: 32 word) = int (unat n)"
    by (simp only: uint_nat)
  from n have "int (unat n) < int (2 ^ 31)"
    by (simp only: of_nat_less_iff)
  then have "signed_take_bit 31 (int (unat n)) = int (unat n)"
    by (intro signed_take_bit_small) simp
  with * show ?thesis
    unfolding int_of_size_def sint_uint by simp
qed

section \<open>The bytes at an offset\<close>

primrec bytes_at :: "bytes \<Rightarrow> nat \<Rightarrow> bytes \<Rightarrow> bool" where
  "bytes_at d k [] \<longleftrightarrow> k \<le> length d"
| "bytes_at d k (x # xs) \<longleftrightarrow> k < length d \<and> d ! k = x \<and> bytes_at d (Suc k) xs"

lemma bytes_at_length: "bytes_at d k xs \<Longrightarrow> k + length xs \<le> length d"
  by (induction xs arbitrary: k) fastforce+

lemma bytes_at_less: "bytes_at d k xs \<Longrightarrow> xs \<noteq> [] \<Longrightarrow> k < length d"
  by (cases xs) simp_all

lemma deref_at: "bytes_at d k xs \<Longrightarrow> xs \<noteq> [] \<Longrightarrow> deref (It d k) = Ret (hd xs)"
  by (cases xs) simp_all

lemma bytes_at_append [simp]:
  "bytes_at d k (xs @ ys) \<longleftrightarrow> bytes_at d k xs \<and> bytes_at d (k + length xs) ys"
proof (induction xs arbitrary: k)
  case Nil
  show ?case using bytes_at_length [of d k ys] by auto
qed auto

lemma bytes_at_drop: "bytes_at d k xs \<longleftrightarrow> k \<le> length d \<and> take (length xs) (drop k d) = xs"
proof (induction xs arbitrary: k)
  case (Cons x xs)
  show ?case
  proof (cases "k < length d")
    case True
    then have "drop k d = d ! k # drop (Suc k) d" by (simp add: Cons_nth_drop_Suc)
    with Cons True show ?thesis by auto
  qed auto
qed simp

lemma bytes_at_self: "bytes_at (pre @ xs @ post) (length pre) xs"
  by (simp add: bytes_at_drop)

lemma bytes_at_whole: "bytes_at xs 0 xs"
  by (simp add: bytes_at_drop)

section \<open>Loops over bytes\<close>

lemma for_bytes_eq:
  "k + n \<le> length d \<Longrightarrow>
    for_bytes (It d k) (Ret (It d (k + n))) f s = Ret (It d (k + n), foldl f s (take n (drop k d)))"
proof (induction n arbitrary: k s)
  case 0
  show ?case
    unfolding for_bytes_def by (subst owhile_unfold) simp
next
  case (Suc n)
  then have k: "k < length d" by simp
  then have "take (Suc n) (drop k d) = d ! k # take n (drop (Suc k) d)"
    by (simp add: Cons_nth_drop_Suc [symmetric])
  with Suc.IH [of "Suc k" "f s (d ! k)"] Suc.prems k show ?case
    unfolding for_bytes_def by (subst owhile_unfold) simp
qed

lemma for_bytes_at:
  "bytes_at d k xs \<Longrightarrow> n = length xs \<Longrightarrow>
    for_bytes (It d k) (Ret (It d (k + n))) f s = Ret (It d (k + n), foldl f s xs)"
  using for_bytes_eq [of k "length xs" d f s] bytes_at_length [of d k xs] by (simp add: bytes_at_drop)

text \<open>An end in front of the start: the loop runs into the end of the data.\<close>

lemma for_bytes_before:
  assumes "e < k" and "k \<le> length d"
  shows "for_bytes (It d k) (Ret (It d e)) f s = Throw (EndOfData (length d))"
  using assms
proof (induction "length d - k" arbitrary: k s)
  case 0
  then have "k = length d" by simp
  with 0(2) show ?case
    unfolding for_bytes_def by (subst owhile_unfold) simp
next
  case (Suc n)
  then have k: "k < length d" by simp
  with Suc.hyps(1) [of "Suc k" "f s (d ! k)"] Suc show ?case
    unfolding for_bytes_def by (subst owhile_unfold) simp
qed

lemma for_bytes_fails: "\<not> is_Ret finish \<Longrightarrow>
    for_bytes i finish f s = obind finish (\<lambda>_. Undef)"
  unfolding for_bytes_def by (subst owhile_unfold) (cases finish; simp add: is_Ret_def)

section \<open>Progress\<close>

text \<open>A read that ends, and that stands further on in the same data when it returns.\<close>

definition reads :: "DecodeIterator \<Rightarrow> 'a decoded \<Rightarrow> bool" where
  "reads i m \<longleftrightarrow> m \<noteq> Diverge \<and>
     (\<forall>x j. m = Ret (x, j) \<longrightarrow> it_data j = it_data i \<and> in_range j \<and> it_at i < it_at j)"

lemma reads_Ret [simp]:
  "reads i (Ret (x, j)) \<longleftrightarrow> it_data j = it_data i \<and> in_range j \<and> it_at i < it_at j"
  by (auto simp: reads_def)

lemma reads_not_Ret [simp]: "reads i (Throw e)" "reads i Abort" "reads i Undef" "\<not> reads i Diverge"
  by (simp_all add: reads_def)

lemma readsD:
  "reads i m \<Longrightarrow> m = Ret (x, j) \<Longrightarrow> it_data j = it_data i \<and> in_range j \<and> it_at i < it_at j"
  by (simp add: reads_def)

lemma reads_It [simp]: "in_range (It d k) \<longleftrightarrow> k \<le> length d"
  by (simp add: in_range_def)

lemma reads_later:
  "reads j m \<Longrightarrow> it_data j = it_data i \<Longrightarrow> it_at i < it_at j \<Longrightarrow> reads i m"
  unfolding reads_def by (metis less_trans)

lemma reads_obind:
  assumes m: "reads i m"
    and f: "\<And>x j. m = Ret (x, j) \<Longrightarrow> in_range j \<Longrightarrow> reads j (f (x, j)) \<or> (\<exists>y. f (x, j) = Ret (y, j))"
  shows "reads i (obind m f)"
proof (cases m)
  case (Ret p)
  obtain x j where p: "p = (x, j)" by (cases p)
  have j: "it_data j = it_data i" "in_range j" "it_at i < it_at j"
    using readsD [OF m] Ret p by simp_all
  from f [OF Ret [unfolded p] j(2)] have "reads i (f (x, j))"
    using reads_later [OF _ j(1,3)] j by auto
  then show ?thesis by (simp add: Ret p)
qed (use m in simp_all)

section \<open>The contract of a decoder\<close>

text \<open>
  Encodings of \<open>2 ^ 31\<close> bytes or more are outside the contract: \<^verbatim>\<open>operator+\<close> takes its offset as an
  \<^verbatim>\<open>int\<close>.  (A UDP datagram, which is what the library decodes, is shorter than \<open>2 ^ 16\<close> bytes.)
\<close>

locale wire_format =
  fixes decode :: "DecodeIterator \<Rightarrow> 'v decoded"
    and repr :: "'v \<Rightarrow> bytes"
    and ok :: "'v \<Rightarrow> bool"
  assumes decodes: "ok v \<Longrightarrow> bytes_at d k (repr v) \<Longrightarrow> length d < 2 ^ 31 \<Longrightarrow>
    decode (It d k) = Ret (v, It d (k + length (repr v)))"
begin

lemma decodes_whole:
  "ok v \<Longrightarrow> length (repr v) < 2 ^ 31 \<Longrightarrow>
    decode (start_of (repr v)) = Ret (v, It (repr v) (length (repr v)))"
  using decodes [OF _ bytes_at_whole] by (simp add: start_of_def)

text \<open>No encoding is a proper prefix of another, so a concatenation has one reading only.\<close>

lemma prefix_free:
  assumes "ok v" and "ok w" and eq: "repr v @ xs = repr w @ ys" and "length (repr v @ xs) < 2 ^ 31"
  shows "v = w \<and> xs = ys"
proof -
  have "bytes_at (repr v @ xs) 0 (repr v)" "bytes_at (repr v @ xs) 0 (repr w)"
    using bytes_at_self [of "[]" "repr v" xs] bytes_at_self [of "[]" "repr w" ys] by (simp_all add: eq)
  with assms have "v = w"
    using decodes [of v "repr v @ xs" 0] decodes [of w "repr v @ xs" 0] by simp
  with eq show ?thesis by simp
qed

lemma repr_inj:
  "ok v \<Longrightarrow> ok w \<Longrightarrow> repr v = repr w \<Longrightarrow> length (repr v) < 2 ^ 31 \<Longrightarrow> v = w"
  using prefix_free [of v w "[]" "[]"] by simp

lemma concat_inj:
  assumes "\<forall>v\<in>set vs. ok v" and "\<forall>v\<in>set ws. ok v" and "length vs = length ws"
    and "concat (map repr vs) = concat (map repr ws)"
    and "length (concat (map repr vs)) < 2 ^ 31"
  shows "vs = ws"
  using assms(3,1,2,4,5)
proof (induction vs ws rule: list_induct2)
  case (Cons v vs w ws)
  then have "v = w \<and> concat (map repr vs) = concat (map repr ws)"
    by (intro prefix_free) simp_all
  with Cons show ?case by simp
qed simp

end

end
