(* ===== verification/BerLength.thy ===== *)
theory BerLength
  imports Buffer CountBits DecodeIterator
begin

text \<open>
  X.690 lengths: \<^verbatim>\<open>src/xju/snmp/encodedLengthOfLength.cc\<close>, \<^verbatim>\<open>encodeLength.cc\<close>, \<^verbatim>\<open>decodeLength.cc\<close> and
  \<^verbatim>\<open>decodeSequenceTypeAndLength.cc\<close>.  \<open>ber_length\<close> is the encoding as the standard describes it;
  the encoder writes it and the decoder reads it back, and also reads the indefinite form (no length)
  and long forms with leading zero bytes, which the encoder never writes.
\<close>

section \<open>Big-endian bytes\<close>

text \<open>The \<open>n\<close> low bytes of a word, most significant first, and the word that some bytes denote.\<close>

primrec be_bytes :: "nat \<Rightarrow> u64 \<Rightarrow> bytes" where
  "be_bytes 0 v = []"
| "be_bytes (Suc n) v = ucast (drop_bit (8 * n) v) # be_bytes n v"

primrec be_word :: "bytes \<Rightarrow> u64" where
  "be_word [] = 0"
| "be_word (b # bs) = push_bit (8 * length bs) (ucast b) OR be_word bs"

definition octets :: "u64 \<Rightarrow> nat" where
  "octets v = (countSignificantBits v + 7) div 8"

lemma length_be_bytes [simp]: "length (be_bytes n v) = n"
  by (induction n) simp_all

lemma be_bytes_snoc: "be_bytes (Suc n) v = be_bytes n (drop_bit 8 v) @ [ucast v]"
proof (induction n)
  case (Suc n)
  have "be_bytes (Suc (Suc n)) v = ucast (drop_bit (8 * Suc n) v) # be_bytes (Suc n) v"
    by simp
  also have "\<dots> = be_bytes (Suc n) (drop_bit 8 v) @ [ucast v]"
    by (simp only: Suc) (simp add: drop_bit_drop_bit add.commute)
  finally show ?case .
qed simp

lemma be_word_be_bytes: "be_word (be_bytes n v) = take_bit (8 * n) v"
proof (induction n)
  case (Suc n)
  have "be_word (be_bytes (Suc n) v) =
      push_bit (8 * n) (ucast (ucast (drop_bit (8 * n) v) :: byte)) OR take_bit (8 * n) v"
    using Suc by simp
  also have "\<dots> = take_bit (8 * Suc n) v"
    by (rule bit_word_eqI) (auto simp: bit_simps not_less)
  finally show ?case .
qed simp

lemma octets_le_iff: "octets v \<le> n \<longleftrightarrow> unat v < 256 ^ n"
proof -
  have "octets v \<le> n \<longleftrightarrow> countSignificantBits v \<le> 8 * n"
    unfolding octets_def by linarith
  also have "\<dots> \<longleftrightarrow> unat v < 2 ^ (8 * n)"
    by (rule countSignificantBits_le_iff)
  finally show ?thesis by (simp add: power_mult)
qed

lemma octets_Least: "octets v = (LEAST n. unat v < 256 ^ n)"
  by (rule Least_equality [symmetric]) (simp_all add: octets_le_iff [symmetric])

lemma octets_le_8: "octets v \<le> 8"
  using countSignificantBits_le [of v] by (simp add: octets_def)

lemma octets_pos: "v \<noteq> 0 \<Longrightarrow> 0 < octets v"
  using countSignificantBits_pos [of v] by (simp add: octets_def)

lemma be_word_octets: "octets v \<le> n \<Longrightarrow> be_word (be_bytes n v) = v"
proof -
  assume "octets v \<le> n"
  then have "unat v < 2 ^ (8 * n)" by (simp add: octets_le_iff power_mult)
  then have "unat (take_bit (8 * n) v) = unat v"
    by (simp add: unsigned_take_bit_eq take_bit_nat_eq_self_iff)
  then show ?thesis by (simp add: be_word_be_bytes word_unat_eq_iff)
qed

section \<open>Encoding\<close>

definition encodedLengthOfLength :: "u64 \<Rightarrow> nat" where
  "encodedLengthOfLength len =
     (if len < 128 then 1 else 1 + (countSignificantBits len + 7) div 8)"

text \<open>The loop that writes the bytes of the length through the reverse iterator \<open>r\<close>, the least
  significant first; \<open>n\<close> iterations are left.\<close>

primrec encodeLength_loop :: "nat \<Rightarrow> u64 \<Rightarrow> bytes \<Rightarrow> nat \<Rightarrow> ('e, bytes) outcome" where
  "encodeLength_loop 0 len buf r = Ret buf"
| "encodeLength_loop (Suc n) len buf r =
     (if r = 0 then Undef
      else obind (put buf (r - 1) (ucast (len AND 0xff))) (\<lambda>buf.
           encodeLength_loop n (drop_bit 8 len) buf (r - 1)))"

definition encodeLength :: "u64 \<Rightarrow> 'e encoder" where
  "encodeLength len buf begin =
     (if len < 128 then put_next (ucast len) buf begin
      else
        let lengthBytes = (countSignificantBits len + 7) div 8
        in obind (put_next (0x80 OR of_nat lengthBytes) buf begin) (\<lambda>(buf, at).
           obind (encodeLength_loop lengthBytes len buf (at + lengthBytes)) (\<lambda>buf.
           Ret (buf, at + lengthBytes))))"

definition ber_length :: "u64 \<Rightarrow> bytes" where
  "ber_length v = (if v < 128 then [ucast v] else (0x80 OR of_nat (octets v)) # be_bytes (octets v) v)"

lemma encodeLength_loop_eq:
  "r = i + n \<Longrightarrow> r \<le> length buf \<Longrightarrow>
    encodeLength_loop n v buf r = Ret (overwrite buf i (be_bytes n v))"
proof (induction n arbitrary: v buf r)
  case (Suc n)
  have low: "ucast (v AND 0xff) = (ucast v :: byte)"
    by (rule bit_word_eqI) (auto simp: bit_simps mask_eq_decr_exp [where n = 8, simplified, symmetric])
  have "overwrite (buf[i + n := ucast v]) i (be_bytes n (drop_bit 8 v))
      = overwrite buf i (be_bytes (Suc n) v)"
    using overwrite_last [of i "be_bytes n (drop_bit 8 v)" buf "ucast v"] Suc.prems
    by (simp add: be_bytes_snoc del: be_bytes.simps)
  with Suc show ?case by (simp add: put_def low del: be_bytes.simps)
qed simp

lemma length_ber_length: "length (ber_length v) = encodedLengthOfLength v"
  by (simp add: ber_length_def encodedLengthOfLength_def octets_def)

lemma encodeLength_long:
  "\<not> len < 128 \<Longrightarrow> encodeLength len buf i =
     obind (put_next (0x80 OR of_nat (octets len)) buf i) (\<lambda>(buf, at).
     obind (encodeLength_loop (octets len) len buf (at + octets len)) (\<lambda>buf.
     Ret (buf, at + octets len)))"
  by (simp add: encodeLength_def octets_def Let_def)

lemma ber_length_not_Nil [simp]: "ber_length v \<noteq> []"
  by (simp add: ber_length_def)

lemma writes_encodeLength [writes_intros]: "writes (encodeLength v) (ber_length v)"
proof (rule writesI, goal_cases)
  case (1 buf i)
  show ?case
  proof (cases "v < 128")
    case True
    with 1 show ?thesis
      by (simp add: encodeLength_def ber_length_def put_next_def put_def overwrite_singleton)
  next
    case False
    with 1 have "i + 1 + octets v \<le> length buf" by (simp add: ber_length_def)
    with False show ?thesis
      by (simp add: encodeLength_long put_next_def put_def ber_length_def overwrite_update
          encodeLength_loop_eq [where i = "Suc i"])
  qed
qed

section \<open>Decoding\<close>

text \<open>One iteration of the loop of \<^verbatim>\<open>decodeLength\<close>: \<^verbatim>\<open>length|=((uint64_t)*i)<<shift; shift-=8\<close>.\<close>

fun length_step :: "u64 \<times> u32 \<Rightarrow> byte \<Rightarrow> u64 \<times> u32" where
  "length_step (len, shift) b = (len OR push_bit (unat shift) (ucast b), shift - 8)"

definition decodeLength :: "DecodeIterator \<Rightarrow> u64 option decoded" where
  "decodeLength at =
     obind (deref at) (\<lambda>b.
       if b < 0x80 then obind (plus_int at 1) (\<lambda>i. Ret (Some (ucast b), i))
       else if b = 0x80 then obind (plus_int at 1) (\<lambda>i. Ret (None, i))
       else
         let byteCount = unat (b AND NOT 0x80)
         in if byteCount > 8 then Throw (LengthBytes byteCount)
         else
           obind (plus_int at 1) (\<lambda>i.
           obind (for_bytes i (obind (plus_int at 1) (\<lambda>j. plus_int j (int byteCount)))
             length_step (0, 8 * (of_nat byteCount - 1))) (\<lambda>(i, len, _).
           Ret (Some len, i))))"

definition decodeSequenceTypeAndLength :: "DecodeIterator \<Rightarrow> (byte \<times> u64 option) decoded" where
  "decodeSequenceTypeAndLength at =
     obind (deref at) (\<lambda>sequenceType.
     obind (plus_int at 1) (\<lambda>i.
     obind (decodeLength i) (\<lambda>(len, i).
     Ret ((sequenceType, len), i))))"

lemma shift_minus_8: "of_nat (8 * Suc n) - 8 = (of_nat (8 * n) :: u32)"
  by simp

lemma foldl_length_step:
  "length bs \<le> 8 \<Longrightarrow>
    \<exists>shift. foldl length_step (len, of_nat (8 * (length bs - 1))) bs = (len OR be_word bs, shift)"
proof (induction bs arbitrary: len)
  case (Cons b bs)
  have shift: "unat (of_nat (8 * length bs) :: u32) = 8 * length bs"
    using Cons.prems by (intro unat_of_nat_u32) simp
  show ?case
  proof (cases bs)
    case Nil
    then show ?thesis by simp
  next
    case (Cons c cs)
    then have "of_nat (8 * length bs) - 8 = (of_nat (8 * (length bs - 1)) :: u32)"
      by simp
    with Cons.IH [of "len OR push_bit (8 * length bs) (ucast b)"] Cons.prems shift
    show ?thesis by (simp add: or.assoc)
  qed
qed simp

lemma byteCount_long:
  assumes "\<not> b < 0x80" and "b \<noteq> (0x80 :: byte)"
  shows "0 < unat (b AND 0x7f)"
proof -
  have "128 < unat b"
    using assms by (simp add: word_less_nat_alt word_unat_eq_iff)
  then have "0 < unat b mod 128"
    using unat_byte_less [of b] by (simp add: le_mod_geq)
  then show ?thesis by (simp only: and_mask_byte unat_take_7)
qed

lemma decodeLength_long:
  assumes k: "k < length d" and b: "\<not> d ! k < 0x80" "d ! k \<noteq> 0x80"
    and n: "n = unat (d ! k AND 0x7f)" "n \<le> 8"
  shows "decodeLength (It d k) =
    (if length d < k + 1 + n then Abort
     else Ret (Some (be_word (take n (drop (k + 1) d))), It d (k + 1 + n)))"
proof -
  let ?bs = "take n (drop (k + 1) d)"
  have n': "unat (d ! k AND NOT 0x80) = n"
    using n by (simp only: and_mask_byte)
  have *: "decodeLength (It d k) =
      obind (for_bytes (It d (Suc k)) (plus_int (It d (Suc k)) (int n))
        length_step (0, 8 * (of_nat n - 1))) (\<lambda>(i, len, _). Ret (Some len, i))"
    using k b n(2) unfolding decodeLength_def Let_def deref_eq(1) [OF k] obind.simps n' by simp
  show ?thesis
  proof (cases "length d < k + 1 + n")
    case True
    then show ?thesis using * by (simp add: plus_int_far for_bytes_fails is_Ret_def)
  next
    case False
    have "0 < n" using n byteCount_long [OF b] by simp
    then have shift: "8 * (of_nat n - 1) = (of_nat (8 * (n - 1)) :: u32)"
      by (simp add: of_nat_diff right_diff_distrib')
    from False have "length ?bs = n" by simp
    then obtain s where "foldl length_step (0, of_nat (8 * (n - 1))) ?bs = (be_word ?bs, s)"
      using foldl_length_step [of ?bs 0] n by auto
    with False show ?thesis
      unfolding * shift using for_bytes_eq [of "Suc k" n d length_step] by simp
  qed
qed

text \<open>What \<^verbatim>\<open>decodeLength\<close> does at every offset of every input.\<close>

lemma decodeLength_spec:
  assumes "k < length d"
  shows "decodeLength (It d k) =
    (let b = d ! k; n = unat (b AND 0x7f)
     in if b < 0x80 then Ret (Some (ucast b), It d (k + 1))
        else if b = 0x80 then Ret (None, It d (k + 1))
        else if n > 8 then Throw (LengthBytes n)
        else if length d < k + 1 + n then Abort
        else Ret (Some (be_word (take n (drop (k + 1) d))), It d (k + 1 + n)))"
proof (cases "\<not> d ! k < 0x80 \<and> d ! k \<noteq> 0x80")
  case False
  then show ?thesis using assms by (auto simp: decodeLength_def)
next
  case True
  have n: "unat (d ! k AND NOT 0x80) = unat (d ! k AND 0x7f)"
    by (simp only: and_mask_byte)
  show ?thesis
  proof (cases "unat (d ! k AND 0x7f) \<le> 8")
    case False
    with True assms show ?thesis
      unfolding decodeLength_def Let_def deref_eq(1) [OF assms] obind.simps n by simp
  next
    case le8: True
    with True show ?thesis
      using decodeLength_long [OF assms _ _ refl le8] by (simp add: Let_def)
  qed
qed

lemma decodeLength_atEnd: "decodeLength (It d (length d)) = Throw (EndOfData (length d))"
  by (simp add: decodeLength_def)

lemma decodeLength_reads: "in_range i \<Longrightarrow> reads i (decodeLength i)"
proof (cases i)
  case (fields d k)
  assume "in_range i"
  with fields consider "k = length d" | "k < length d" by (auto simp: in_range_def le_less)
  then show ?thesis
    by cases (simp_all add: fields decodeLength_atEnd decodeLength_spec Let_def)
qed

text \<open>What every value decoder begins with: its type, then a length.\<close>

lemma reads_tagged:
  assumes i: "in_range i"
    and g: "\<And>l j. in_range j \<Longrightarrow> it_data j = it_data i \<Longrightarrow>
      reads j (g (l, j)) \<or> (\<exists>y. g (l, j) = Ret (y, j))"
  shows "reads i (obind (deref i) (\<lambda>t. if P t then Throw (e t)
    else obind (plus_int i 1) (\<lambda>i'. obind (decodeLength i') g)))"
proof -
  obtain d k where dk: "i = It d k" by (cases i)
  from i dk consider "k = length d" | "k < length d" by (auto simp: in_range_def le_less)
  then show ?thesis
  proof cases
    case 2
    have "reads (It d (Suc k)) (obind (decodeLength (It d (Suc k))) g)"
    proof (rule reads_obind)
      show r: "reads (It d (Suc k)) (decodeLength (It d (Suc k)))"
        using 2 by (intro decodeLength_reads) simp
      fix l j
      assume "decodeLength (It d (Suc k)) = Ret (l, j)" "in_range j"
      then show "reads j (g (l, j)) \<or> (\<exists>y. g (l, j) = Ret (y, j))"
        using readsD [OF r] by (intro g) (simp_all add: dk)
    qed
    then have "reads i (obind (decodeLength (It d (Suc k))) g)"
      by (rule reads_later) (simp_all add: dk)
    with 2 show ?thesis by (simp add: dk)
  qed (simp add: dk)
qed

lemma decodeSequenceTypeAndLength_reads:
  "in_range i \<Longrightarrow> reads i (decodeSequenceTypeAndLength i)"
proof (cases i)
  case (fields d k)
  assume "in_range i"
  with fields consider "k = length d" | "k < length d" by (auto simp: in_range_def le_less)
  then show ?thesis
  proof cases
    case 2
    then have "reads (It d (Suc k)) (obind (decodeLength (It d (Suc k))) (\<lambda>(len, i). Ret ((d ! k, len), i)))"
      by (intro reads_obind decodeLength_reads) auto
    with 2 show ?thesis
      by (auto simp: fields decodeSequenceTypeAndLength_def reads_def)
  qed (simp add: fields decodeSequenceTypeAndLength_def)
qed

text \<open>Every length the encoder writes is read back; so is the indefinite form.\<close>

definition ber_optional_length :: "u64 option \<Rightarrow> bytes" where
  "ber_optional_length l = (case l of None \<Rightarrow> [0x80] | Some v \<Rightarrow> ber_length v)"

lemma decodeLength_ber_length [decode_intros]:
  assumes "bytes_at d k (ber_length v)"
  shows "decodeLength (It d k) = Ret (Some v, It d (k + length (ber_length v)))"
proof (cases "v < 128")
  case True
  then have "unat v < 128" by (simp add: word_less_nat_alt)
  then have b: "ucast v < (0x80 :: byte)" "ucast (ucast v :: byte) = v"
    by (simp_all add: ucast_ucast_byte word_less_nat_alt unat_ucast_byte)
  with True assms show ?thesis
    by (simp add: ber_length_def decodeLength_spec Let_def)
next
  case False
  let ?n = "octets v" and ?b = "0x80 OR of_nat (octets v) :: byte"
  have v0: "v \<noteq> 0" using False by auto
  have "?n \<in> {1, 2, 3, 4, 5, 6, 7, 8}"
    using octets_pos [OF v0] octets_le_8 [of v] by auto
  then have b: "\<not> ?b < 0x80 \<and> ?b \<noteq> 0x80 \<and> unat (?b AND 0x7f) = ?n"
    by auto
  from False assms have at: "k < length d" "d ! k = ?b" "bytes_at d (Suc k) (be_bytes ?n v)"
    by (simp_all add: ber_length_def)
  from at(3) have "Suc k + ?n \<le> length d" "take ?n (drop (Suc k) d) = be_bytes ?n v"
    using bytes_at_length [OF at(3)] by (simp_all add: bytes_at_drop)
  with at b show ?thesis
    using octets_le_8 [of v]
    by (subst decodeLength_long [of k d ?n]) (simp_all add: be_word_octets ber_length_def False)
qed

interpretation length_format: wire_format decodeLength ber_optional_length "\<lambda>_. True"
proof
  fix l :: "u64 option" and d k
  assume "bytes_at d k (ber_optional_length l)"
  then show "decodeLength (It d k) = Ret (l, It d (k + length (ber_optional_length l)))"
    by (cases l) (simp_all add: ber_optional_length_def decodeLength_ber_length decodeLength_spec)
qed

definition ber_header :: "byte \<times> u64 option \<Rightarrow> bytes" where
  "ber_header h = fst h # ber_optional_length (snd h)"

interpretation header_format: wire_format decodeSequenceTypeAndLength ber_header "\<lambda>_. True"
proof
  fix h :: "byte \<times> u64 option" and d k
  assume at: "bytes_at d k (ber_header h)" and d: "length d < 2 ^ 31"
  then have "decodeLength (It d (Suc k)) =
      Ret (snd h, It d (Suc k + length (ber_optional_length (snd h))))"
    by (intro length_format.decodes) (simp_all add: ber_header_def)
  with at show "decodeSequenceTypeAndLength (It d k) = Ret (h, It d (k + length (ber_header h)))"
    by (simp add: ber_header_def decodeSequenceTypeAndLength_def)
qed

end
