(* ===== verification/BerInt.thy ===== *)
theory BerInt
  imports BerLength "HOL-Library.Signed_Division"
begin

text \<open>
  X.690 integers: \<^verbatim>\<open>src/xju/snmp/intDataLength.cc\<close>, \<^verbatim>\<open>encodeInt.cc\<close>, \<^verbatim>\<open>decodeIntValue.cc\<close>,
  \<^verbatim>\<open>decodeTimeTicksValue.cc\<close> and \<^verbatim>\<open>encodedLengthOfValue(int64_t)\<close>.  An \<^verbatim>\<open>int64_t\<close> is a \<open>u64\<close> read with
  \<open>sint\<close>.  The encoding is the shortest two's complement representation.
\<close>

section \<open>Encoding\<close>

definition int_mask :: u64 where
  "int_mask = 0xff80000000000000"

text \<open>The two loops of \<^verbatim>\<open>intDataLength\<close>; \<^verbatim>\<open>>>\<close> is the arithmetic shift.\<close>

fun positive_length :: "u64 \<Rightarrow> nat \<Rightarrow> u64 \<Rightarrow> nat" where
  "positive_length val dataLength m =
     (if 1 < dataLength \<and> (val AND NOT m) = val
      then positive_length val (dataLength - 1) (signed_drop_bit 8 m OR 0xff00000000000000)
      else dataLength)"

fun negative_length :: "u64 \<Rightarrow> nat \<Rightarrow> u64 \<Rightarrow> nat" where
  "negative_length val dataLength m =
     (if 1 < dataLength \<and> (val AND m) = m
      then negative_length val (dataLength - 1) (signed_drop_bit 8 m OR 0xff00000000000000)
      else dataLength)"

declare positive_length.simps [simp del] negative_length.simps [simp del]

definition intDataLength :: "u64 \<Rightarrow> nat" where
  "intDataLength val =
     (if 0 < sint val then positive_length val 8 int_mask
      else if sint val < 0 then negative_length val 8 int_mask
      else 1)"

text \<open>\<^verbatim>\<open>encodedLengthOfValue(int64_t)\<close>\<close>

definition encodedLengthOfInt :: "u64 \<Rightarrow> nat" where
  "encodedLengthOfInt val =
     (let dataLength = intDataLength val
      in 1 + encodedLengthOfLength (of_nat dataLength) + dataLength)"

text \<open>The loop of \<^verbatim>\<open>encodeInt\<close>, with \<open>i\<close> bytes to go.\<close>

primrec encodeInt_loop :: "nat \<Rightarrow> u64 \<Rightarrow> 'e encoder" where
  "encodeInt_loop 0 val buf at = Ret (buf, at)"
| "encodeInt_loop (Suc i) val buf at =
     obind (put_next (ucast (signed_drop_bit (i * 8) val AND 0xff)) buf at) (\<lambda>(buf, at).
     encodeInt_loop i val buf at)"

definition encodeInt :: "byte \<Rightarrow> u64 \<Rightarrow> 'e encoder" where
  "encodeInt asn1Type val buf to =
     obind (put_next asn1Type buf to) (\<lambda>(buf, at).
       let dataLength = intDataLength val
       in obind (encodeLength (of_nat dataLength) buf at) (\<lambda>(buf, at).
          encodeInt_loop dataLength val buf at))"

section \<open>The shortest two's complement representation\<close>

text \<open>\<open>n\<close> bytes are enough for \<open>v\<close>: \<open>v\<close> lies between \<open>- 2 ^ (8 * n - 1)\<close> and \<open>2 ^ (8 * n - 1)\<close>.\<close>

definition int_fits :: "nat \<Rightarrow> u64 \<Rightarrow> bool" where
  "int_fits n v \<longleftrightarrow> - (2 ^ (8 * n - 1)) \<le> sint v \<and> sint v < 2 ^ (8 * n - 1)"

text \<open>In bits: everything from the sign bit of the \<open>n\<close> bytes up is the same.\<close>

lemma sint_take: "sint (v :: u64) = signed_take_bit 63 (uint v)"
  by (simp add: sint_uint)

lemma bit_sint: "bit (sint (v :: u64)) m \<longleftrightarrow> bit v (min m 63)"
  by (simp add: bit_simps sint_take min_def) 

lemma int_fits_bits:
  assumes "0 < n" and "n \<le> 8"
  shows "int_fits n v \<longleftrightarrow> (\<forall>m. 8 * n - 1 \<le> m \<and> m < 64 \<longrightarrow> bit v m = bit v 63)"
proof -
  have "int_fits n v \<longleftrightarrow> signed_take_bit (8 * n - 1) (sint v) = sint v"
    unfolding int_fits_def signed_take_bit_int_eq_self_iff ..
  also have "\<dots> \<longleftrightarrow> (\<forall>m. bit (sint v) (min m (8 * n - 1)) = bit (sint v) m)"
    by (simp add: bit_eq_iff bit_simps min.commute)
  also have "\<dots> \<longleftrightarrow> (\<forall>m. 8 * n - 1 \<le> m \<and> m < 64 \<longrightarrow> bit v m = bit v 63)"
    (is "(\<forall>m. ?L m) \<longleftrightarrow> (\<forall>m. ?R m)")
  proof
    assume L: "\<forall>m. ?L m"
    have "bit v (8 * n - 1) = bit v (min m 63)" if "8 * n - 1 \<le> m" for m
      using L [rule_format, of m] that assms by (simp add: bit_sint min_def split: if_splits)
    note eq = this
    show "\<forall>m. ?R m"
    proof (intro allI impI)
      fix m
      assume m: "8 * n - 1 \<le> m \<and> m < 64"
      then have "min m 63 = m" by simp
      with m eq [of m] eq [of 63] assms show "bit v m = bit v 63" by simp
    qed
  next
    assume R: "\<forall>m. ?R m"
    show "\<forall>m. ?L m"
    proof
      fix m
      show "?L m"
        using R [rule_format, of "8 * n - 1"] R [rule_format, of "min m 63"] assms
        by (cases "m \<le> 8 * n - 1") (auto simp: bit_sint min_def split: if_splits)
    qed
  qed
  finally show ?thesis .
qed

lemma int_fits_mono: "int_fits k v \<Longrightarrow> k \<le> j \<Longrightarrow> int_fits j v"
proof -
  assume "int_fits k v" and "k \<le> j"
  moreover from \<open>k \<le> j\<close> have "(2::int) ^ (8 * k - 1) \<le> 2 ^ (8 * j - 1)"
    by (intro power_increasing) auto
  ultimately show ?thesis unfolding int_fits_def by linarith
qed

lemma int_fits_8: "int_fits 8 v"
  using sint_greater_eq [of v] sint_less [of v] by (simp add: int_fits_def)

text \<open>The mask with which the loops test whether \<open>n - 1\<close> bytes are enough.\<close>

definition high_mask :: "nat \<Rightarrow> u64" where
  "high_mask n = NOT (mask (8 * n - 9))"

lemma bit_high_mask: "bit (high_mask n) m \<longleftrightarrow> m < 64 \<and> 8 * n - 9 \<le> m"
  by (auto simp: high_mask_def bit_simps not_less)

lemma int_mask_eq: "int_mask = high_mask 8"
  by (simp add: int_mask_def high_mask_def mask_eq_decr_exp)

lemma high_mask_step:
  assumes "2 \<le> n" and "n \<le> 8"
  shows "signed_drop_bit 8 (high_mask n) OR 0xff00000000000000 = high_mask (n - 1)"
proof -
  have "(0xff00000000000000 :: u64) = NOT (mask 56)"
    by (simp add: mask_eq_decr_exp)
  moreover have "signed_drop_bit 8 (high_mask n) OR NOT (mask 56) = high_mask (n - 1)"
    using assms by (intro bit_word_eqI) (auto simp: bit_simps bit_high_mask min_def)
  ultimately show ?thesis by (simp only:)
qed

lemma sign_bit: "bit (v :: u64) 63 \<longleftrightarrow> sint v < 0"
  using bit_last_iff [of v] by simp

lemma positive_length_fits:
  assumes "\<not> bit v 63" and "2 \<le> n" and "n \<le> 8"
  shows "v AND NOT (high_mask n) = v \<longleftrightarrow> int_fits (n - 1) v"
proof -
  have "v AND NOT (high_mask n) = v \<longleftrightarrow> (\<forall>m<64. bit v m \<longrightarrow> m < 8 * n - 9)"
    by (auto simp: bit_eq_iff bit_simps bit_high_mask not_le dest: bit_imp_le_length)
  also have "\<dots> \<longleftrightarrow> int_fits (n - 1) v"
    using assms by (subst int_fits_bits) (auto simp: not_less algebra_simps diff_mult_distrib2)
  finally show ?thesis .
qed

lemma negative_length_fits:
  assumes "bit v 63" and "2 \<le> n" and "n \<le> 8"
  shows "v AND high_mask n = high_mask n \<longleftrightarrow> int_fits (n - 1) v"
proof -
  have "v AND high_mask n = high_mask n \<longleftrightarrow> (\<forall>m<64. 8 * n - 9 \<le> m \<longrightarrow> bit v m)"
    by (auto simp: bit_eq_iff bit_simps bit_high_mask)
  also have "\<dots> \<longleftrightarrow> int_fits (n - 1) v"
    using assms by (subst int_fits_bits) (auto simp: not_less algebra_simps diff_mult_distrib2)
  finally show ?thesis .
qed

lemma least_step:
  assumes "int_fits n v" and "1 \<le> n" and "n = 1 \<or> \<not> int_fits (n - 1) v"
  shows "(LEAST k. 0 < k \<and> int_fits k v) = n"
proof (rule Least_equality)
  fix k
  assume k: "0 < k \<and> int_fits k v"
  show "n \<le> k"
  proof (rule ccontr)
    assume "\<not> n \<le> k"
    then have "k \<le> n - 1" by simp
    with k have "int_fits (n - 1) v" by (blast intro: int_fits_mono)
    with assms(3) k \<open>\<not> n \<le> k\<close> show False by auto
  qed
qed (use assms in simp)

lemma positive_length_eq:
  "\<not> bit v 63 \<Longrightarrow> int_fits n v \<Longrightarrow> 1 \<le> n \<Longrightarrow> n \<le> 8 \<Longrightarrow>
    positive_length v n (high_mask n) = (LEAST k. 0 < k \<and> int_fits k v)"
proof (induction n)
  case (Suc n)
  show ?case
  proof (cases "1 \<le> n \<and> int_fits n v")
    case True
    with Suc show ?thesis
      using positive_length_fits [of v "Suc n"] high_mask_step [of "Suc n"]
      by (subst positive_length.simps) simp
  next
    case False
    with Suc show ?thesis
      using positive_length_fits [of v "Suc n"] least_step [of "Suc n" v]
      by (subst positive_length.simps) auto
  qed
qed simp

lemma negative_length_eq:
  "bit v 63 \<Longrightarrow> int_fits n v \<Longrightarrow> 1 \<le> n \<Longrightarrow> n \<le> 8 \<Longrightarrow>
    negative_length v n (high_mask n) = (LEAST k. 0 < k \<and> int_fits k v)"
proof (induction n)
  case (Suc n)
  show ?case
  proof (cases "1 \<le> n \<and> int_fits n v")
    case True
    with Suc show ?thesis
      using negative_length_fits [of v "Suc n"] high_mask_step [of "Suc n"]
      by (subst negative_length.simps) simp
  next
    case False
    with Suc show ?thesis
      using negative_length_fits [of v "Suc n"] least_step [of "Suc n" v]
      by (subst negative_length.simps) auto
  qed
qed simp

lemma intDataLength_eq: "intDataLength v = (LEAST k. 0 < k \<and> int_fits k v)"
proof (cases "v = 0")
  case True
  have "(LEAST k. 0 < k \<and> int_fits k 0) = 1"
    by (intro least_step) (simp_all add: int_fits_def)
  with True show ?thesis by (simp add: intDataLength_def)
next
  case False
  then have "sint v \<noteq> 0" by (simp add: signed_eq_0_iff)
  then consider "0 < sint v" "\<not> bit v 63" | "sint v < 0" "bit v 63"
    using sign_bit [of v] by linarith
  then show ?thesis
    by cases (simp_all add: intDataLength_def int_mask_eq positive_length_eq negative_length_eq
        int_fits_8)
qed

lemma intDataLength_fits: "int_fits (intDataLength v) v \<and> 0 < intDataLength v"
  unfolding intDataLength_eq using LeastI [of "\<lambda>k. 0 < k \<and> int_fits k v" 8] int_fits_8 by simp

lemma intDataLength_le: "0 < k \<Longrightarrow> int_fits k v \<Longrightarrow> intDataLength v \<le> k"
  unfolding intDataLength_eq by (rule Least_le) simp

lemma intDataLength_8: "intDataLength v \<le> 8"
  by (rule intDataLength_le) (simp_all add: int_fits_8)

section \<open>What the encoder writes\<close>

definition ber_int :: "byte \<Rightarrow> u64 \<Rightarrow> bytes" where
  "ber_int t v = t # ber_length (of_nat (intDataLength v)) @ be_bytes (intDataLength v) v"

lemma encodeInt_byte:
  assumes "i < 8"
  shows "ucast (signed_drop_bit (i * 8) (v :: u64) AND 0xff) = (ucast (drop_bit (8 * i) v) :: byte)"
proof -
  have "(0xff :: u64) = mask 8" by (simp add: mask_eq_decr_exp)
  moreover have "ucast (signed_drop_bit (i * 8) v AND mask 8) = (ucast (drop_bit (8 * i) v) :: byte)"
    using assms by (intro bit_word_eqI) (auto simp: bit_simps min_def ac_simps)
  ultimately show ?thesis by (simp only:)
qed

lemma encodeInt_loop_Suc:
  "n < 8 \<Longrightarrow> encodeInt_loop (Suc n) v =
    then_encode (put_next (ucast (drop_bit (8 * n) v))) (encodeInt_loop n v)"
  by (intro ext) (simp add: then_encode_def encodeInt_byte)

lemma encodeInt_then:
  "encodeInt t v = then_encode (put_next t)
    (then_encode (encodeLength (of_nat (intDataLength v))) (encodeInt_loop (intDataLength v) v))"
  by (intro ext) (simp add: then_encode_def encodeInt_def Let_def)

lemma writes_encodeInt_loop: "n \<le> 8 \<Longrightarrow> writes (encodeInt_loop n v) (be_bytes n v)"
proof (induction n)
  case 0
  show ?case by (rule writesI) simp
next
  case (Suc n)
  then show ?case
    using writes_then [OF writes_put_next Suc.IH, of "ucast (drop_bit (8 * n) v)"]
    by (simp add: encodeInt_loop_Suc del: encodeInt_loop.simps)
qed

lemma writes_encodeInt [writes_intros]: "writes (encodeInt t v) (ber_int t v)"
  using writes_then [OF writes_put_next writes_then
      [OF writes_encodeLength writes_encodeInt_loop [OF intDataLength_8]]]
  by (simp add: encodeInt_then ber_int_def)

lemma length_ber_int: "length (ber_int t v) = encodedLengthOfInt v"
  by (simp add: ber_int_def encodedLengthOfInt_def length_ber_length Let_def)

section \<open>Decoding\<close>

text \<open>One iteration: \<^verbatim>\<open>result&=~(((uint64_t)0xff)<<shift); result|=((uint64_t)*i)<<shift; shift-=8\<close>.\<close>

fun int_step :: "u64 \<times> u32 \<Rightarrow> byte \<Rightarrow> u64 \<times> u32" where
  "int_step (result, shift) b =
     ((result AND NOT (push_bit (unat shift) 0xff)) OR push_bit (unat shift) (ucast b), shift - 8)"

definition decodeIntValue :: "DecodeIterator \<Rightarrow> byte \<Rightarrow> u64 decoded" where
  "decodeIntValue at type =
     obind (deref at) (\<lambda>t.
       if t \<noteq> type then Throw (WrongTag t type)
       else
         obind (plus_int at 1) (\<lambda>i.
         obind (decodeLength i) (\<lambda>(len, second).
           case len of
             None \<Rightarrow> Throw IndefiniteInt
           | Some l \<Rightarrow>
               let byteCount = ucast l :: u32
               in if byteCount > 8 then Throw (IntBytes byteCount)
               else
                 obind (deref second) (\<lambda>b.
                   let result = (if b AND 0x80 \<noteq> 0 then NOT 0 else 0)
                   in obind (for_bytes second (plus_int second (int (unat byteCount))) int_step
                               (result, 8 * (byteCount - 1))) (\<lambda>(i, result, _).
                      Ret (result, i))))))"

text \<open>\<^verbatim>\<open>decodeTimeTicksValue\<close>: the same with type 0x43, and hundredths of a second become
  milliseconds (a signed 64-bit count; the multiplication is unsigned and wraps).\<close>

definition decodeTimeTicksValue :: "DecodeIterator \<Rightarrow> u64 decoded" where
  "decodeTimeTicksValue at =
     obind (deref at) (\<lambda>t.
       if t \<noteq> 0x43 then Throw (WrongTag t 0x43)
       else
         obind (plus_int at 1) (\<lambda>i.
         obind (decodeLength i) (\<lambda>(len, second).
           case len of
             None \<Rightarrow> Throw IndefiniteInt
           | Some l \<Rightarrow>
               let byteCount = ucast l :: u32
               in if byteCount > 8 then Throw (IntBytes byteCount)
               else
                 obind (deref second) (\<lambda>b.
                   let result = (if b AND 0x80 \<noteq> 0 then NOT 0 else 0)
                   in obind (for_bytes second (plus_int second (int (unat byteCount))) int_step
                               (result, 8 * (byteCount - 1))) (\<lambda>(i, result, _).
                      Ret (result * 10, i))))))"

lemma foldl_int_step:
  "length bs \<le> 8 \<Longrightarrow>
    \<exists>shift. foldl int_step (r, of_nat (8 * (length bs - 1))) bs =
      ((r AND NOT (mask (8 * length bs))) OR be_word bs, shift)"
proof (induction bs arbitrary: r)
  case (Cons b bs)
  have shift: "unat (of_nat (8 * length bs) :: u32) = 8 * length bs"
    using Cons.prems by (intro unat_of_nat_u32) simp
  let ?r = "(r AND NOT (push_bit (8 * length bs) 0xff)) OR push_bit (8 * length bs) (ucast b)"
  have "(0xff :: u64) = mask 8" by (simp add: mask_eq_decr_exp)
  moreover have "((r AND NOT (push_bit (8 * length bs) (mask 8))) OR push_bit (8 * length bs) (ucast b))
       AND NOT (mask (8 * length bs)) OR be_word bs =
      (r AND NOT (mask (8 * length (b # bs)))) OR be_word (b # bs)"
    by (rule bit_word_eqI) (auto simp: bit_simps)
  ultimately have r: "(?r AND NOT (mask (8 * length bs))) OR be_word bs =
      (r AND NOT (mask (8 * length (b # bs)))) OR be_word (b # bs)"
    by (simp only:)
  show ?case
  proof (cases bs)
    case Nil
    with r show ?thesis by simp
  next
    case (Cons c cs)
    then have "of_nat (8 * length bs) - 8 = (of_nat (8 * (length bs - 1)) :: u32)"
      by simp
    with Cons.IH [of ?r] Cons.prems shift r show ?thesis by simp
  qed
qed simp

text \<open>The integer that some bytes denote in two's complement.\<close>

definition sign_fill :: "byte \<Rightarrow> u64" where
  "sign_fill b = (if bit b 7 then NOT 0 else 0)"

definition be_signed :: "bytes \<Rightarrow> u64" where
  "be_signed bs = (sign_fill (hd bs) AND NOT (mask (8 * length bs))) OR be_word bs"

lemma be_signed_be_bytes:
  assumes "int_fits n v" and "0 < n" and "n \<le> 8"
  shows "be_signed (be_bytes n v) = v"
proof -
  from assms(2) obtain m where n: "n = Suc m" by (cases n) auto
  have top: "bit (hd (be_bytes n v)) 7 = bit v (8 * m + 7)"
    unfolding n be_bytes.simps list.sel
    by (simp only: bit_unsigned_iff bit_drop_bit_eq comp_apply possible_bit_word) simp
  have high: "8 * n - 1 \<le> i \<Longrightarrow> i < 64 \<Longrightarrow> bit v i = bit v 63" for i
    using assms(1) int_fits_bits [OF assms(2,3), of v] by blast
  then have "bit v (8 * m + 7) = bit v 63"
    using assms(3) by (intro high) (simp_all add: n)
  with top have fill: "sign_fill (hd (be_bytes n v)) = (if bit v 63 then NOT 0 else 0)"
    by (simp add: sign_fill_def)
  have "(if bit v 63 then NOT 0 else 0) AND NOT (mask (8 * n)) OR take_bit (8 * n) v = v"
  proof (rule bit_word_eqI)
    fix m
    assume m: "m < LENGTH(64)"
    then have "8 * n \<le> m \<Longrightarrow> bit v m = bit v 63"
      by (intro high) simp_all
    with m show "bit ((if bit v 63 then NOT 0 else 0) AND NOT (mask (8 * n)) OR take_bit (8 * n) v) m
        = bit v m"
      by (cases "m < 8 * n") (simp_all add: bit_simps)
  qed
  then show ?thesis
    by (simp add: be_signed_def be_word_be_bytes fill)
qed

text \<open>What \<^verbatim>\<open>decodeIntValue\<close> does after the length, \<open>n\<close> bytes at offset \<open>j\<close>.\<close>

lemma decodeIntValue_spec:
  assumes k: "Suc k < length d" and len: "decodeLength (It d (Suc k)) = Ret (Some l, It d j)"
    and j: "j \<le> length d" and n: "n = unat (ucast l :: u32)"
  shows "decodeIntValue (It d k) t =
    (if d ! k \<noteq> t then Throw (WrongTag (d ! k) t)
     else if 8 < n then Throw (IntBytes (ucast l))
     else if j = length d then Throw (EndOfData (length d))
     else if length d < j + n then Abort
     else if n = 0 then Ret (sign_fill (d ! j), It d j)
     else Ret (be_signed (take n (drop j d)), It d (j + n)))"
proof (cases "d ! k = t \<and> n \<le> 8 \<and> j < length d")
  case False
  with assms show ?thesis
    by (auto simp: decodeIntValue_def Let_def word_less_nat_alt)
next
  case True
  let ?bs = "take n (drop j d)"
  have w: "(ucast l :: u32) = of_nat n" using n by simp
  have w': "uint (of_nat n :: u32) = int n" using n by simp
  have le8: "\<not> 8 < (of_nat n :: u32)"
    using True n by (simp add: word_less_nat_alt)
  have *: "decodeIntValue (It d k) t =
      obind (for_bytes (It d j) (plus_int (It d j) (int n)) int_step
        (sign_fill (d ! j), 8 * (of_nat n - 1))) (\<lambda>(i, r, _). Ret (r, i))"
    using True k len le8 unfolding decodeIntValue_def Let_def sign_test sign_fill_def
    by (simp add: w w')
  show ?thesis
  proof (cases "j + n \<le> length d")
    case False
    with True show ?thesis
      unfolding * by (simp add: plus_int_far for_bytes_fails is_Ret_def)
  next
    case fits: True
    show ?thesis
    proof (cases "n = 0")
      case True
      with fits \<open>d ! k = t \<and> n \<le> 8 \<and> j < length d\<close> show ?thesis
        unfolding * using for_bytes_eq [of j 0 d int_step] plus_int_eq [of j 0 d] by simp
    next
      case False
      then have shift: "8 * (of_nat n - 1) = (of_nat (8 * (n - 1)) :: u32)"
        by (simp add: of_nat_diff right_diff_distrib')
      have len: "length ?bs = n" using fits by simp
      have hd: "hd ?bs = d ! j" using False True by (simp add: hd_drop_conv_nth)
      from len obtain s where "foldl int_step (sign_fill (d ! j), of_nat (8 * (n - 1))) ?bs
          = (be_signed ?bs, s)"
        using foldl_int_step [of ?bs "sign_fill (d ! j)"] True by (auto simp: be_signed_def hd)
      with fits True False show ?thesis
        unfolding * shift using for_bytes_eq [of j n d int_step] by simp
    qed
  qed
qed

lemma decodeIntValue_ber_int [decode_intros]:
  assumes "bytes_at d k (ber_int t v)"
  shows "decodeIntValue (It d k) t = Ret (v, It d (k + length (ber_int t v)))"
proof -
  let ?n = "intDataLength v"
  let ?l = "ber_length (of_nat ?n)"
  let ?j = "Suc k + length ?l"
  have n: "0 < ?n" "?n \<le> 8" "int_fits ?n v"
    using intDataLength_fits [of v] intDataLength_8 [of v] by simp_all
  from assms have at: "d ! k = t" "bytes_at d (Suc k) ?l" "bytes_at d ?j (be_bytes ?n v)"
    by (simp_all add: ber_int_def)
  have bs: "take ?n (drop ?j d) = be_bytes ?n v" "?j + ?n \<le> length d"
    using at(3) bytes_at_length [OF at(3)] by (simp_all add: bytes_at_drop)
  have len: "decodeLength (It d (Suc k)) = Ret (Some (of_nat ?n), It d ?j)"
    by (rule decodeLength_ber_length [OF at(2)])
  have w: "?n = unat (ucast (of_nat ?n :: u64) :: u32)"
    using n by (simp add: unsigned_ucast_eq unsigned_of_nat take_bit_nat_eq_self)
  show ?thesis
    using bs n at(1) by (subst decodeIntValue_spec [OF _ len _ w])
      (simp_all add: be_signed_be_bytes ber_int_def)
qed

interpretation int_format: wire_format "\<lambda>i. decodeIntValue i t" "ber_int t" "\<lambda>_. True" for t
  by standard (rule decodeIntValue_ber_int)

lemma decodeTimeTicksValue_int:
  "decodeTimeTicksValue at = obind (decodeIntValue at 0x43) (\<lambda>(v, i). Ret (v * 10, i))"
proof -
  have case_obind: "obind (case l of None \<Rightarrow> Throw e | Some x \<Rightarrow> f x) g =
      (case l of None \<Rightarrow> Throw e | Some x \<Rightarrow> obind (f x) g)"
    for l and e :: snmp_error and f :: "u64 \<Rightarrow> (snmp_error, u64 \<times> DecodeIterator) outcome"
      and g :: "u64 \<times> DecodeIterator \<Rightarrow> u64 decoded"
    by (cases l) simp_all
  show ?thesis
    unfolding decodeTimeTicksValue_def decodeIntValue_def Let_def
    by (simp add: obind_assoc obind_if case_obind case_prod_unfold cong del: option.case_cong_weak if_weak_cong)
qed

text \<open>\<^verbatim>\<open>val.count()/10\<close> of a signed 64-bit count, which rounds towards zero.\<close>

definition ticks :: "u64 \<Rightarrow> u64" where
  "ticks ms = word_of_int (sint ms sdiv 10)"

lemma ticks_times_10:
  assumes "10 dvd sint ms"
  shows "ticks ms * 10 = ms"
proof -
  obtain q where q: "sint ms = 10 * q" using assms by (auto simp: dvd_def)
  have "ticks ms = word_of_int q"
    by (simp add: ticks_def q signed_divide_int_def abs_mult sgn_mult sgn_if)
  then have "ticks ms * 10 = word_of_int (q * 10)"
    by simp
  also have "\<dots> = word_of_int (sint ms)" by (simp only: q mult.commute)
  finally show ?thesis by simp
qed

section \<open>Every input\<close>

lemma for_bytes_reads:
  assumes "in_range j"
  shows "for_bytes j (plus_int j (int n)) f s = Abort \<or>
    (\<exists>s' e. for_bytes j (plus_int j (int n)) f s = Ret (e, s') \<and>
      it_data e = it_data j \<and> in_range e \<and> (e = j \<or> it_at j < it_at e))"
proof -
  obtain d k where j: "j = It d k" by (cases j)
  show ?thesis
  proof (cases "k + n \<le> length d")
    case True
    then have *: "for_bytes j (plus_int j (int n)) f s = Ret (It d (k + n), foldl f s (take n (drop k d)))"
      by (simp add: j for_bytes_eq)
    from True show ?thesis unfolding * by (auto simp: j)
  next
    case False
    then show ?thesis by (simp add: j plus_int_far for_bytes_fails is_Ret_def)
  qed
qed

lemma decodeIntValue_reads: "in_range i \<Longrightarrow> reads i (decodeIntValue i t)"
  unfolding decodeIntValue_def
proof (rule reads_tagged, assumption, goal_cases)
  case (1 l j)
  show ?case
  proof (cases l)
    case (Some n)
    let ?f = "\<lambda>r. for_bytes j (plus_int j (int (unat (ucast n :: u32)))) int_step (r, 8 * (ucast n - 1))"
    have "reads j (obind (?f r) (\<lambda>(i, result, _). Ret (result, i))) \<or>
        (\<exists>y. obind (?f r) (\<lambda>(i, result, _). Ret (result, i)) = Ret (y, j))" for r
      using for_bytes_reads [OF 1(2), of "unat (ucast n :: u32)" int_step "(r, 8 * (ucast n - 1))"] 1(2)
      by auto
    with Some show ?thesis
      by (auto simp: Let_def deref_def)
  qed simp
qed

end
