(* ===== verification/BerOctets.thy ===== *)
theory BerOctets
  imports BerLength
begin

text \<open>
  Octet strings: \<^verbatim>\<open>src/xju/snmp/encodeOctetString.cc\<close>, \<^verbatim>\<open>decodeStringValue.cc\<close> and
  \<^verbatim>\<open>decodeIPv4AddressValue.cc\<close>, and \<^verbatim>\<open>encodedLengthOfValue(std::vector<uint8_t>)\<close>.
\<close>

section \<open>Encoding\<close>

definition encodedLengthOfOctets :: "bytes \<Rightarrow> nat" where
  "encodedLengthOfOctets val =
     1 + encodedLengthOfLength (of_nat (length val)) + length val"

definition encodeOctetString :: "byte \<Rightarrow> bytes \<Rightarrow> 'e encoder" where
  "encodeOctetString asn1Type val buf to =
     obind (put_next asn1Type buf to) (\<lambda>(buf, at).
     obind (encodeLength (of_nat (length val)) buf at) (\<lambda>(buf, at).
     obind (copy_to val buf at) (\<lambda>(buf, _).
     Ret (buf, at + length val))))"

definition ber_octets :: "byte \<Rightarrow> bytes \<Rightarrow> bytes" where
  "ber_octets t val = t # ber_length (of_nat (length val)) @ val"

lemma copy_to_offset: "copy_to xs buf i = Ret (buf', j) \<Longrightarrow> j = i + length xs"
  by (induction xs arbitrary: buf i) (fastforce split: if_splits simp: put_def)+

lemma copy_to_returns:
  "obind (copy_to xs buf i) (\<lambda>(buf, _). Ret (buf, i + length xs)) = copy_to xs buf i"
  by (rule obind_unit) (auto dest: copy_to_offset)

lemma encodeOctetString_then:
  "encodeOctetString t val =
    then_encode (put_next t) (then_encode (encodeLength (of_nat (length val))) (copy_to val))"
  by (intro ext) (simp add: encodeOctetString_def then_encode_def copy_to_returns)

lemma writes_encodeOctetString [writes_intros]: "writes (encodeOctetString t val) (ber_octets t val)"
  using writes_then [OF writes_put_next writes_then [OF writes_encodeLength writes_copy_to]]
  by (simp add: encodeOctetString_then ber_octets_def)

lemma length_ber_octets: "length (ber_octets t val) = encodedLengthOfOctets val"
  by (simp add: ber_octets_def encodedLengthOfOctets_def length_ber_length)

section \<open>Decoding\<close>

definition decodeStringValue :: "DecodeIterator \<Rightarrow> byte \<Rightarrow> bytes decoded" where
  "decodeStringValue at type =
     obind (deref at) (\<lambda>t.
       if t \<noteq> type then Throw (WrongTag t type)
       else
         obind (plus_int at 1) (\<lambda>i.
         obind (decodeLength i) (\<lambda>(len, second).
           case len of
             None \<Rightarrow> Throw IndefiniteString
           | Some l \<Rightarrow>
               obind (for_bytes second (plus_int second (int_of_size l)) (\<lambda>s b. s @ [b]) [])
                 (\<lambda>(_, s).
               obind (plus_int second (int_of_size l)) (\<lambda>e.
               Ret (s, e))))))"

definition decodeIPv4AddressValue :: "DecodeIterator \<Rightarrow> u32 decoded" where
  "decodeIPv4AddressValue at =
     obind (deref at) (\<lambda>t.
       if t \<noteq> 0x40 then Throw (WrongTag t 0x40)
       else
         obind (plus_int at 1) (\<lambda>i.
         obind (decodeLength i) (\<lambda>(len, second).
           case len of
             None \<Rightarrow> Throw IndefiniteIPv4Address
           | Some l \<Rightarrow>
               if l \<noteq> 4 then Throw (IPv4AddressLength l)
               else
                 obind (for_bytes second (plus_int second (int_of_size l)) (\<lambda>s b. s @ [b]) [])
                   (\<lambda>(_, s).
                 obind (plus_int second (int_of_size l)) (\<lambda>e.
                   case s of
                     [s0, s1, s2, s3] \<Rightarrow>
                       Ret (push_bit 24 (ucast s0) + push_bit 16 (ucast s1) +
                            push_bit 8 (ucast s2) + push_bit 0 (ucast s3), e)
                   | _ \<Rightarrow> Undef)))))"

text \<open>What a string decoder does after the length, at offset \<open>j\<close>, for every length \<open>n\<close> after its
  narrowing to \<^verbatim>\<open>int\<close>.\<close>

lemma foldl_snoc: "foldl (\<lambda>s b. s @ [b]) s xs = s @ xs"
  by (induction xs arbitrary: s) simp_all

lemma string_loop:
  assumes "j \<le> length d"
  shows "for_bytes (It d j) (plus_int (It d j) n) (\<lambda>s b. s @ [b]) [] =
    (if int (length d) < int j + n then Abort
     else if int j + n < 0 then Undef
     else if n < 0 then Throw (EndOfData (length d))
     else Ret (It d (j + nat n), take (nat n) (drop j d)))"
proof -
  consider "int (length d) < int j + n" | "int j + n < 0" | "n < 0" "0 \<le> int j + n"
    | "0 \<le> n" "int j + n \<le> int (length d)"
    by linarith
  then show ?thesis
  proof cases
    case 1
    then show ?thesis by (simp add: plus_int_far for_bytes_fails is_Ret_def)
  next
    case 2
    then have "plus_int (It d j) n = Undef" using assms by (simp add: plus_int_def)
    with 2 assms show ?thesis by (simp add: for_bytes_fails is_Ret_def)
  next
    case 3
    then have "plus_int (It d j) n = Ret (It d (nat (int j + n)))"
      using assms by (simp add: plus_int_Ret)
    with 3 assms show ?thesis by (simp add: for_bytes_before)
  next
    case 4
    then have "plus_int (It d j) n = Ret (It d (j + nat n))"
      by (simp add: plus_int_Ret nat_add_distrib)
    with 4 show ?thesis by (simp add: for_bytes_eq foldl_snoc)
  qed
qed

lemma decodeStringValue_spec:
  assumes k: "Suc k < length d" and len: "decodeLength (It d (Suc k)) = Ret (Some l, It d j)"
    and j: "j \<le> length d" and n: "n = int_of_size l"
  shows "decodeStringValue (It d k) t =
    (if d ! k \<noteq> t then Throw (WrongTag (d ! k) t)
     else if int (length d) < int j + n then Abort
     else if int j + n < 0 then Undef
     else if n < 0 then Throw (EndOfData (length d))
     else Ret (take (nat n) (drop j d), It d (j + nat n)))"
  using k len j
  by (simp add: decodeStringValue_def string_loop n [symmetric] plus_int_Ret nat_add_distrib)

lemma decodeStringValue_ber_octets [decode_intros]:
  assumes "bytes_at d k (ber_octets t val)" and "length d < 2 ^ 31"
  shows "decodeStringValue (It d k) t = Ret (val, It d (k + length (ber_octets t val)))"
proof -
  let ?l = "ber_length (of_nat (length val))"
  let ?j = "Suc k + length ?l"
  from assms have at: "d ! k = t" "bytes_at d (Suc k) ?l" "bytes_at d ?j val"
    by (simp_all add: ber_octets_def)
  have val: "take (length val) (drop ?j d) = val" "?j + length val \<le> length d"
    using at(3) bytes_at_length [OF at(3)] by (simp_all add: bytes_at_drop)
  have len: "decodeLength (It d (Suc k)) = Ret (Some (of_nat (length val)), It d ?j)"
    by (rule decodeLength_ber_length [OF at(2)])
  have "unat (of_nat (length val) :: u64) = length val"
    using val assms(2) by (intro unat_of_nat_u64) simp
  then have "int_of_size (of_nat (length val)) = int (length val)"
    using val assms(2) int_of_size_small [of "of_nat (length val)"] by simp
  then show ?thesis
    using val at(1) bytes_at_less [OF at(2)] by (subst decodeStringValue_spec [OF _ len _ refl]) (simp_all add: ber_octets_def)
qed

interpretation string_format: wire_format "\<lambda>i. decodeStringValue i t" "ber_octets t" "\<lambda>_. True" for t
  by standard (rule decodeStringValue_ber_octets)

section \<open>IPv4 addresses\<close>

definition ipv4_bytes :: "u32 \<Rightarrow> bytes" where
  "ipv4_bytes v =
     [ucast (drop_bit 24 v AND 0xff), ucast (drop_bit 16 v AND 0xff),
      ucast (drop_bit 8 v AND 0xff), ucast (drop_bit 0 v AND 0xff)]"

lemma disjoint_plus: "(\<And>n. n < 32 \<Longrightarrow> \<not> bit a n \<or> \<not> bit b n) \<Longrightarrow> (a :: u32) + b = a OR b"
  by (rule disjunctive_add) (use bit_imp_le_length in fastforce)

lemma ipv4_bytes_sum:
  "push_bit 24 (ucast (ucast (drop_bit 24 v AND 0xff) :: byte)) +
   push_bit 16 (ucast (ucast (drop_bit 16 v AND 0xff) :: byte)) +
   push_bit 8 (ucast (ucast (drop_bit 8 v AND 0xff) :: byte)) +
   push_bit 0 (ucast (ucast (drop_bit 0 v AND 0xff) :: byte)) = (v :: u32)"
proof -
  have ff: "(0xff :: u32) = mask 8" by (simp add: mask_eq_decr_exp)
  show ?thesis
    unfolding ff
  proof (subst disjoint_plus, force simp: bit_simps, subst disjoint_plus, force simp: bit_simps,
      subst disjoint_plus, force simp: bit_simps, rule bit_word_eqI, goal_cases)
    case (1 n)
    then consider "n < 8" | "8 \<le> n" "n < 16" | "16 \<le> n" "n < 24" | "24 \<le> n" "n < 32"
      by fastforce
    then show ?case by cases (auto simp: bit_simps)
  qed
qed

lemma length_ipv4_bytes [simp]: "length (ipv4_bytes v) = 4"
  by (simp add: ipv4_bytes_def)

definition ber_ipv4 :: "u32 \<Rightarrow> bytes" where
  "ber_ipv4 v = ber_octets 0x40 (ipv4_bytes v)"

lemma decodeIPv4AddressValue_ber [decode_intros]:
  assumes "bytes_at d k (ber_ipv4 v)"
  shows "decodeIPv4AddressValue (It d k) = Ret (v, It d (k + length (ber_ipv4 v)))"
proof -
  let ?l = "ber_length 4"
  let ?j = "Suc k + length ?l"
  from assms have at: "d ! k = 0x40" "bytes_at d (Suc k) ?l" "bytes_at d ?j (ipv4_bytes v)"
    by (simp_all add: ber_ipv4_def ber_octets_def)
  have val: "take 4 (drop ?j d) = ipv4_bytes v" "?j + 4 \<le> length d"
    using at(3) bytes_at_length [OF at(3)] by (simp_all add: bytes_at_drop)
  have len: "decodeLength (It d (Suc k)) = Ret (Some 4, It d ?j)"
    by (rule decodeLength_ber_length [OF at(2)])
  have four: "int_of_size 4 = 4"
    using int_of_size_small [of 4] by simp
  show ?thesis
    using val at(1) bytes_at_less [OF at(2)] len ipv4_bytes_sum [of v]
    by (simp add: decodeIPv4AddressValue_def string_loop four plus_int_Ret ipv4_bytes_def
        ber_ipv4_def ber_octets_def nat_add_distrib)
qed

interpretation ipv4_format: wire_format decodeIPv4AddressValue ber_ipv4 "\<lambda>_. True"
  by standard (rule decodeIPv4AddressValue_ber)

section \<open>Every input\<close>

lemma decodeStringValue_reads: "in_range i \<Longrightarrow> reads i (decodeStringValue i t)"
  unfolding decodeStringValue_def
proof (rule reads_tagged, assumption, goal_cases)
  case (1 l j)
  obtain d k where j: "j = It d k" by (cases j)
  from 1 have "k \<le> length d" by (simp add: j)
  then show ?case
    by (cases l) (simp_all add: j string_loop plus_int_nonneg, linarith)
qed

lemma decodeIPv4AddressValue_reads: "in_range i \<Longrightarrow> reads i (decodeIPv4AddressValue i)"
  unfolding decodeIPv4AddressValue_def
proof (rule reads_tagged, assumption, goal_cases)
  case (1 l j)
  obtain d k where j: "j = It d k" by (cases j)
  from 1 have "k \<le> length d" by (simp add: j)
  moreover have "int_of_size 4 = 4"
    using int_of_size_small [of 4] by simp
  ultimately show ?case
    by (cases l) (simp_all add: j string_loop plus_int_nonneg split: list.split)
qed

end
