(* ===== verification/Oid.thy ===== *)
theory Oid
  imports Prelude "HOL-Library.Sublist" "HOL-Library.List_Lexorder"
begin

text \<open>
  \<^verbatim>\<open>src/xju/snmp/Oid.cc\<close>: object identifiers, their dotted notation, their order and the prefix
  relation \<^verbatim>\<open>contains\<close>; and \<^verbatim>\<open>src/xju/stringToUInt.cc\<close>, base 10, which parses the components with
  the C library's \<^verbatim>\<open>strtoul\<close>.  A \<^verbatim>\<open>std::string\<close> is a \<open>string\<close>.
\<close>

section \<open>Numbers\<close>

datatype number_error =
    NullNumber
  | UnexpectedCharacter char
  | NumberTooLarge u64
  | NoLeadingDot

definition isspace :: "char \<Rightarrow> bool" where
  "isspace c = (of_char c = (32::nat) \<or> (9 \<le> (of_char c :: nat) \<and> of_char c \<le> (13::nat)))"

definition isdigit :: "char \<Rightarrow> bool" where
  "isdigit c = (48 \<le> (of_char c :: nat) \<and> of_char c \<le> (57::nat))"

text \<open>The longest run of digits, onto the value \<open>a\<close> so far, and what follows it.\<close>

fun digits_value :: "nat \<Rightarrow> string \<Rightarrow> nat \<times> string" where
  "digits_value a [] = (a, [])"
| "digits_value a (c # cs) =
     (if isdigit c then digits_value (10 * a + (of_char c - 48)) cs else (a, c # cs))"

text \<open>
  \<^verbatim>\<open>strtoul(s,&p,10)\<close> of the C library: white space, an optional sign, digits.  The second result is
  the string at \<^verbatim>\<open>p\<close>, which is \<open>s\<close> when there is no number.  The value saturates at
  \<^verbatim>\<open>ULONG_MAX\<close>, a minus sign negates modulo \<open>2 ^ 64\<close>.
\<close>

definition strtoul :: "string \<Rightarrow> u64 \<times> string" where
  "strtoul s =
     (let t = dropWhile isspace s;
          (neg, u) = (case t of
              [] \<Rightarrow> (False, [])
            | c # cs \<Rightarrow> if c = CHR ''-'' then (True, cs) else if c = CHR ''+'' then (False, cs)
                else (False, t))
      in if u \<noteq> [] \<and> isdigit (hd u) then
           (let (n, p) = digits_value 0 u
            in (if n \<ge> 2 ^ 64 then - 1 else if neg then - of_nat n else of_nat n, p))
         else (0, s))"

text \<open>\<^verbatim>\<open>value.c_str()\<close>, which ends at the first NUL.\<close>

definition c_str :: "string \<Rightarrow> string" where
  "c_str s = takeWhile (\<lambda>c. c \<noteq> CHR 0x00) s"

definition stringToUInt :: "string \<Rightarrow> (number_error, u32) outcome" where
  "stringToUInt value =
     (if value = [] then Throw NullNumber
      else let (x, p) = strtoul (c_str value) in
        if p \<noteq> [] then Throw (UnexpectedCharacter (hd p))
        else let result = ucast x :: u32 in
          if ucast result \<noteq> x then Throw (NumberTooLarge x) else Ret result)"

text \<open>\<^verbatim>\<open>ostream << uint32_t\<close>: the decimal digits.\<close>

definition digit_char :: "nat \<Rightarrow> char" where
  "digit_char n = char_of (48 + n)"

fun decimal :: "nat \<Rightarrow> string" where
  "decimal n = (if n < 10 then [digit_char n] else decimal (n div 10) @ [digit_char (n mod 10)])"

declare decimal.simps [simp del]

lemma of_digit_char: "n < 10 \<Longrightarrow> of_char (digit_char n) = 48 + n"
  by (simp add: digit_char_def)

lemma isdigit_digit_char: "n < 10 \<Longrightarrow> isdigit (digit_char n)"
  by (simp add: isdigit_def of_digit_char)

lemma decimal_digits: "c \<in> set (decimal n) \<Longrightarrow> isdigit c"
  by (induction n rule: decimal.induct)
    (subst (asm) (2) decimal.simps, auto split: if_splits intro: isdigit_digit_char)

lemma decimal_not_Nil [simp]: "decimal n \<noteq> []"
  by (subst decimal.simps) simp

lemma isdigit_special:
  "isdigit c \<Longrightarrow> c \<noteq> CHR 0x00" "isdigit c \<Longrightarrow> c \<noteq> CHR ''.''" "isdigit c \<Longrightarrow> c \<noteq> CHR ''-''"
  "isdigit c \<Longrightarrow> c \<noteq> CHR ''+''" "isdigit c \<Longrightarrow> \<not> isspace c"
  by (auto simp: isdigit_def isspace_def)

lemma digits_value_append:
  "(\<And>c. c \<in> set ds \<Longrightarrow> isdigit c) \<Longrightarrow>
    digits_value a (ds @ cs) = digits_value (fst (digits_value a ds)) cs"
  by (induction ds arbitrary: a) auto

lemma digits_value_rest:
  "(\<And>c. c \<in> set ds \<Longrightarrow> isdigit c) \<Longrightarrow> snd (digits_value a ds) = []"
  by (induction ds arbitrary: a) auto

lemma digits_value_decimal: "digits_value 0 (decimal n) = (n, [])"
proof (induction n rule: decimal.induct)
  case (1 n)
  show ?case
  proof (cases "n < 10")
    case True
    then show ?thesis by (subst decimal.simps) (simp add: isdigit_digit_char of_digit_char)
  next
    case False
    with 1 have "digits_value 0 (decimal (n div 10)) = (n div 10, [])" by simp
    with False show ?thesis
      by (subst decimal.simps)
        (simp add: digits_value_append decimal_digits isdigit_digit_char of_digit_char)
  qed
qed

lemma strtoul_decimal: "n < 2 ^ 64 \<Longrightarrow> strtoul (decimal n) = (of_nat n, [])"
proof -
  assume n: "n < 2 ^ 64"
  obtain c cs where c: "decimal n = c # cs" by (cases "decimal n") simp_all
  then have "isdigit c" using decimal_digits [of c n] by simp
  with c n show ?thesis
    using digits_value_decimal [of n] isdigit_special [of c]
    by (simp add: strtoul_def del: digits_value.simps)
qed

lemma stringToUInt_decimal: "stringToUInt (decimal (unat c)) = Ret c"
proof -
  have "c_str (decimal (unat c)) = decimal (unat c)"
    unfolding c_str_def takeWhile_eq_all_conv using decimal_digits isdigit_special(1) by blast
  moreover have "unat c < 2 ^ 64"
  proof -
    have "unat c < 2 ^ LENGTH(32)" by (rule unsigned_less)
    then show ?thesis by simp
  qed
  then have "strtoul (decimal (unat c)) = (ucast c, [])"
    using strtoul_decimal [of "unat c"] by simp
  ultimately show ?thesis
    by (simp add: stringToUInt_def)
qed

section \<open>Object identifiers\<close>

datatype oid = Oid (components: "u32 list")

text \<open>\<^verbatim>\<open>operator<\<close> and the others compare the component vectors lexicographically.\<close>

definition oid_less :: "oid \<Rightarrow> oid \<Rightarrow> bool" where
  "oid_less x y \<longleftrightarrow> components x < components y"

definition oid_less_eq :: "oid \<Rightarrow> oid \<Rightarrow> bool" where
  "oid_less_eq x y \<longleftrightarrow> components x \<le> components y"

instantiation oid :: linorder
begin

definition less_oid :: "oid \<Rightarrow> oid \<Rightarrow> bool" where
  "less_oid = oid_less"

definition less_eq_oid :: "oid \<Rightarrow> oid \<Rightarrow> bool" where
  "less_eq_oid = oid_less_eq"

instance
  by standard
    (auto simp: less_oid_def less_eq_oid_def oid_less_def oid_less_eq_def oid.expand less_le_not_le)

end

lemma less_oid: "x < y \<longleftrightarrow> components x < components y"
  and less_eq_oid: "x \<le> y \<longleftrightarrow> components x \<le> components y" for x y :: oid
  by (simp_all add: less_oid_def less_eq_oid_def oid_less_def oid_less_eq_def)

text \<open>The loop of \<^verbatim>\<open>parseDottedOid\<close>, at the dot before the next component.\<close>

function parse_components :: "string \<Rightarrow> (number_error, u32 list) outcome" where
  "parse_components [] = Ret []"
| "parse_components (dot # t) =
     (let octet = takeWhile (\<lambda>c. c \<noteq> CHR ''.'') t;
          j = dropWhile (\<lambda>c. c \<noteq> CHR ''.'') t
      in obind (stringToUInt octet) (\<lambda>o1.
         obind (parse_components j) (\<lambda>os.
         Ret (o1 # os))))"
  by pat_completeness auto
termination
  by (relation "measure length") (auto simp: length_dropWhile_le le_imp_less_Suc)

definition parseDottedOid :: "string \<Rightarrow> (number_error, u32 list) outcome" where
  "parseDottedOid dotted =
     (if dotted = [] \<or> hd dotted \<noteq> CHR ''.'' then Throw NoLeadingDot else parse_components dotted)"

definition toString :: "oid \<Rightarrow> string" where
  "toString x = concat (map (\<lambda>i. CHR ''.'' # decimal (unat i)) (components x))"

definition oid_plus :: "oid \<Rightarrow> oid \<Rightarrow> oid" where
  "oid_plus a b = Oid (components a @ components b)"

text \<open>How many elements \<^verbatim>\<open>std::mismatch\<close> passes over.\<close>

fun mismatch :: "'a list \<Rightarrow> 'a list \<Rightarrow> nat" where
  "mismatch (x # xs) (y # ys) = (if x = y then Suc (mismatch xs ys) else 0)"
| "mismatch xs ys = 0"

definition oid_contains :: "oid \<Rightarrow> oid \<Rightarrow> bool" where
  "oid_contains x y \<longleftrightarrow> length (components x) \<le> length (components y) \<and>
     mismatch (components x) (components y) = length (components x)"

lemma mismatch_prefix:
  "length xs \<le> length ys \<Longrightarrow> mismatch xs ys = length xs \<longleftrightarrow> prefix xs ys"
  by (induction xs ys rule: mismatch.induct) auto

lemma oid_contains_prefix: "oid_contains x y \<longleftrightarrow> prefix (components x) (components y)"
  using mismatch_prefix prefix_length_le unfolding oid_contains_def by blast

lemma oid_contains_plus: "oid_contains x y \<longleftrightarrow> (\<exists>z. y = oid_plus x z)"
proof
  assume "oid_contains x y"
  then obtain zs where "components y = components x @ zs"
    by (auto simp: oid_contains_prefix prefix_def)
  then have "y = oid_plus x (Oid zs)" by (simp add: oid_plus_def oid.expand)
  then show "\<exists>z. y = oid_plus x z" ..
qed (auto simp: oid_contains_prefix oid_plus_def)

lemma oid_plus_assoc: "oid_plus (oid_plus a b) c = oid_plus a (oid_plus b c)"
  by (simp add: oid_plus_def)

lemma prefix_between:
  fixes xs :: "u32 list"
  shows "prefix xs ys \<Longrightarrow> prefix xs zs \<Longrightarrow> ys \<le> ws \<Longrightarrow> ws \<le> zs \<Longrightarrow> prefix xs ws"
proof (induction xs arbitrary: ys zs ws)
  case (Cons x xs)
  from Cons.prems(1) obtain ys' where ys: "ys = x # ys'" "prefix xs ys'" by (cases ys) auto
  from Cons.prems(2) obtain zs' where zs: "zs = x # zs'" "prefix xs zs'" by (cases zs) auto
  show ?case
  proof (cases ws)
    case Nil
    with Cons.prems(3) ys show ?thesis by simp
  next
    case ws: (Cons w ws')
    with Cons.prems(3) ys have "x < w \<or> x = w \<and> ys' \<le> ws'" by simp
    moreover from Cons.prems(4) ws zs have "w < x \<or> w = x \<and> ws' \<le> zs'" by simp
    ultimately have "w = x" "ys' \<le> ws'" "ws' \<le> zs'" using order.asym by blast+
    then have "prefix xs ws'" using Cons.IH [OF ys(2) zs(2)] by blast
    with \<open>w = x\<close> show ?thesis by (simp add: ws)
  qed
qed simp

lemma prefix_le:
  fixes xs :: "u32 list"
  shows "prefix xs ys \<Longrightarrow> xs \<le> ys"
proof (induction xs arbitrary: ys)
  case (Cons x xs)
  then show ?case by (cases ys) auto
qed simp

lemma parse_components_append:
  assumes "cs = [] \<or> hd cs = CHR ''.''"
  shows "parse_components (CHR ''.'' # decimal (unat c) @ cs) =
    obind (parse_components cs) (\<lambda>os. Ret (c # os))"
proof -
  have nodot: "\<And>d. d \<in> set (decimal (unat c)) \<Longrightarrow> d \<noteq> CHR ''.''"
    using decimal_digits isdigit_special(2) by blast
  from assms have "takeWhile (\<lambda>c. c \<noteq> CHR ''.'') cs = []" "dropWhile (\<lambda>c. c \<noteq> CHR ''.'') cs = cs"
    by (cases cs; simp)+
  with nodot show ?thesis
    by (simp add: takeWhile_append2 dropWhile_append2 stringToUInt_decimal)
qed

lemma parse_components_toString: "parse_components (toString (Oid cs)) = Ret cs"
proof (induction cs)
  case (Cons c cs)
  have "toString (Oid cs) = [] \<or> hd (toString (Oid cs)) = CHR ''.''"
    by (cases cs) (simp_all add: toString_def)
  from parse_components_append [OF this, of c] Cons show ?case
    by (simp add: toString_def)
qed (simp add: toString_def)

lemma parseDottedOid_toString:
  "cs \<noteq> [] \<Longrightarrow> toString (Oid cs) = s \<Longrightarrow> parseDottedOid s = Ret cs"
proof -
  assume cs: "cs \<noteq> []" and s: "toString (Oid cs) = s"
  from cs s have "s \<noteq> [] \<and> hd s = CHR ''.''" by (cases cs) (auto simp: toString_def)
  with parse_components_toString [of cs] s show ?thesis by (simp add: parseDottedOid_def)
qed

lemma parseDottedOid_cases:
  "parseDottedOid s \<noteq> Abort \<and> parseDottedOid s \<noteq> Undef \<and> parseDottedOid s \<noteq> Diverge"
proof -
  have *: "stringToUInt t \<noteq> Abort" "stringToUInt t \<noteq> Undef" "stringToUInt t \<noteq> Diverge" for t
    by (auto simp: stringToUInt_def Let_def split: prod.split)
  have "parse_components t \<noteq> Abort \<and> parse_components t \<noteq> Undef \<and> parse_components t \<noteq> Diverge" for t
    by (induction t rule: parse_components.induct)
      (auto simp: * Let_def obind_eq_Abort obind_eq_Undef obind_eq_Diverge)
  then show ?thesis by (simp add: parseDottedOid_def)
qed

lemma parseDottedOid_length:
  "parseDottedOid s = Ret cs \<Longrightarrow> length cs = length (filter (\<lambda>c. c = CHR ''.'') s)"
proof -
  have *: "length cs = length (filter (\<lambda>c. c = CHR ''.'') t)"
    if "parse_components t = Ret cs" "t = [] \<or> hd t = CHR ''.''" for t
    using that
  proof (induction t arbitrary: cs rule: parse_components.induct)
    case (2 d t)
    let ?j = "dropWhile (\<lambda>c. c \<noteq> CHR ''.'') t"
    from 2 obtain o1 os where os: "parse_components ?j = Ret os" "cs = o1 # os"
      "stringToUInt (takeWhile (\<lambda>c. c \<noteq> CHR ''.'') t) = Ret o1"
      by (auto simp: Let_def)
    have "?j = [] \<or> hd ?j = CHR ''.''"
      using hd_dropWhile [of "\<lambda>c. c \<noteq> CHR ''.''" t] by auto
    with 2 os have "length os = length (filter (\<lambda>c. c = CHR ''.'') ?j)" by blast
    moreover have "filter (\<lambda>c. c = CHR ''.'') t = filter (\<lambda>c. c = CHR ''.'') ?j"
      by (subst takeWhile_dropWhile_id [of "\<lambda>c. c \<noteq> CHR ''.''" t, symmetric], subst filter_append)
        (auto dest: set_takeWhileD simp: filter_empty_conv)
    ultimately show ?case using 2 os by simp
  qed simp
  assume "parseDottedOid s = Ret cs"
  then show ?thesis by (auto simp: parseDottedOid_def split: if_splits intro: *)
qed

end
