(* ===== verification/BerOid.thy ===== *)
theory BerOid
  imports BerLength Oid
begin

text \<open>
  X.690 object identifiers: \<^verbatim>\<open>src/xju/snmp/encodedLengthOfOidComponent.cc\<close>, \<^verbatim>\<open>oidDataLength.cc\<close>,
  \<^verbatim>\<open>encodedLengthOfValue(Oid)\<close>, \<^verbatim>\<open>OidValue.cc\<close>, \<^verbatim>\<open>decodeOidComponent.cc\<close> and
  \<^verbatim>\<open>decodeOidValue.cc\<close>.  Components are written in groups of seven bits, the first two components,
  which must be 1 and 3, as the one byte 0x2b.
\<close>

section \<open>Encoding\<close>

definition encodedLengthOfOidComponent :: "u32 \<Rightarrow> nat" where
  "encodedLengthOfOidComponent c =
     (let bits = countSignificantBits (ucast c)
      in if c = 0 then 1 else (bits - 1) div 7 + 1)"

text \<open>Iterating from \<^verbatim>\<open>begin()+2\<close> is undefined for fewer than two components.\<close>

definition oidDataLength :: "oid \<Rightarrow> ('e, nat) outcome" where
  "oidDataLength oid =
     (if length (components oid) < 2 then Undef
      else Ret (foldl (\<lambda>result c. result + encodedLengthOfOidComponent c) 1
             (drop 2 (components oid))))"

text \<open>\<^verbatim>\<open>encodedLengthOfValue(Oid const&)\<close>: the constructor of \<^verbatim>\<open>OidValue\<close> calls it, so making an
  \<^verbatim>\<open>OidValue\<close> of an identifier outside .1.3 aborts.\<close>

definition encodedLengthOfOid :: "oid \<Rightarrow> ('e, nat) outcome" where
  "encodedLengthOfOid val =
     obind (oassert (1 < length (components val))) (\<lambda>_.
     obind (oassert (components val ! 0 = 1)) (\<lambda>_.
     obind (oassert (components val ! 1 = 3)) (\<lambda>_.
     obind (oidDataLength val) (\<lambda>dataLength.
     Ret (1 + encodedLengthOfLength (of_nat dataLength) + dataLength)))))"

text \<open>The loop of \<^verbatim>\<open>encodeOidComponent\<close>, backwards through the reverse iterator \<open>r\<close>.\<close>

primrec encodeOidComponent_loop :: "nat \<Rightarrow> u32 \<Rightarrow> bytes \<Rightarrow> nat \<Rightarrow> ('e, bytes) outcome" where
  "encodeOidComponent_loop 0 c buf r = Ret buf"
| "encodeOidComponent_loop (Suc n) c buf r =
     (if r = 0 then Undef
      else obind (put buf (r - 1) (0x80 OR ucast (c AND 0x7f))) (\<lambda>buf.
           encodeOidComponent_loop n (drop_bit 7 c) buf (r - 1)))"

definition encodeOidComponent :: "u32 \<Rightarrow> 'e encoder" where
  "encodeOidComponent c buf begin =
     (let byteCount = encodedLengthOfOidComponent c;
          at = begin + byteCount
      in obind (encodeOidComponent_loop byteCount c buf at) (\<lambda>buf.
         if at = 0 \<or> length buf \<le> at - 1 then Undef
         else obind (put buf (at - 1) (buf ! (at - 1) AND NOT 0x80)) (\<lambda>buf.
              Ret (buf, at))))"

text \<open>\<^verbatim>\<open>OidValue::encodeTo\<close>\<close>

definition encodeOid :: "oid \<Rightarrow> 'e encoder" where
  "encodeOid val buf begin =
     obind (put_next 0x06 buf begin) (\<lambda>(buf, at).
     obind (oidDataLength val) (\<lambda>n.
     obind (encodeLength (of_nat n) buf at) (\<lambda>(buf, at).
     obind (put_next 0x2b buf at) (\<lambda>(buf, at).
     encode_each encodeOidComponent (drop 2 (components val)) buf at))))"

section \<open>Base 128\<close>

text \<open>A component as the standard describes it: groups of seven bits, most significant first, all but
  the last with the top bit set, and no more groups than needed.\<close>

primrec high_groups :: "nat \<Rightarrow> u32 \<Rightarrow> bytes" where
  "high_groups 0 c = []"
| "high_groups (Suc n) c = (0x80 OR ucast (drop_bit (7 * Suc n) c AND 0x7f)) # high_groups n c"

definition ber_component :: "u32 \<Rightarrow> bytes" where
  "ber_component c = high_groups (encodedLengthOfOidComponent c - 1) c @ [ucast (c AND 0x7f)]"

text \<open>The bytes the loop writes, before the top bit of the last is cleared.\<close>

definition marked_groups :: "nat \<Rightarrow> u32 \<Rightarrow> bytes" where
  "marked_groups n c = (if n = 0 then [] else high_groups (n - 1) c @ [0x80 OR ucast (c AND 0x7f)])"

lemma length_high_groups [simp]: "length (high_groups n c) = n"
  by (induction n) simp_all

lemma length_marked_groups [simp]: "length (marked_groups n c) = n"
  by (simp add: marked_groups_def)

lemma high_groups_snoc:
  "high_groups (Suc n) c = high_groups n (drop_bit 7 c) @ [0x80 OR ucast (drop_bit 7 c AND 0x7f)]"
proof (induction n)
  case (Suc n)
  have "high_groups (Suc (Suc n)) c = (0x80 OR ucast (drop_bit (7 * Suc (Suc n)) c AND 0x7f)) #
      high_groups (Suc n) c"
    by simp
  also have "\<dots> = high_groups (Suc n) (drop_bit 7 c) @ [0x80 OR ucast (drop_bit 7 c AND 0x7f)]"
    by (simp only: Suc) (simp add: drop_bit_drop_bit add.commute)
  finally show ?case .
qed simp

lemma marked_groups_snoc:
  "marked_groups (Suc n) c = marked_groups n (drop_bit 7 c) @ [0x80 OR ucast (c AND 0x7f)]"
  by (cases n) (simp_all add: marked_groups_def high_groups_snoc del: high_groups.simps(2))

lemma encodedLengthOfOidComponent_pos [simp]: "0 < encodedLengthOfOidComponent c"
  by (simp add: encodedLengthOfOidComponent_def Let_def)

lemma length_ber_component [simp]: "length (ber_component c) = encodedLengthOfOidComponent c"
  by (simp add: ber_component_def)

lemma encodedLengthOfOidComponent_le_iff:
  "0 < n \<Longrightarrow> encodedLengthOfOidComponent c \<le> n \<longleftrightarrow> unat c < 128 ^ n"
proof (cases "c = 0")
  case False
  assume n: "0 < n"
  let ?b = "countSignificantBits (ucast c)"
  from False have "ucast c \<noteq> (0 :: u64)"
    using ucast_u32_u64 [of c] by fastforce
  then have b: "0 < ?b" by (rule countSignificantBits_pos)
  have "encodedLengthOfOidComponent c \<le> n \<longleftrightarrow> (?b - 1) div 7 + 1 \<le> n"
    using False by (simp add: encodedLengthOfOidComponent_def Let_def)
  also have "\<dots> \<longleftrightarrow> ?b \<le> 7 * n"
    using n b by linarith
  also have "\<dots> \<longleftrightarrow> unat (ucast c :: u64) < 2 ^ (7 * n)"
    by (rule countSignificantBits_le_iff)
  also have "\<dots> \<longleftrightarrow> unat c < 2 ^ (7 * n)"
    by (simp add: unat_ucast_up)
  finally show ?thesis by (simp add: power_mult)
qed (simp add: encodedLengthOfOidComponent_def Let_def)

text \<open>The component's length is the least that holds it.\<close>

lemma encodedLengthOfOidComponent_Least:
  "encodedLengthOfOidComponent c = (LEAST n. 0 < n \<and> unat c < 128 ^ n)"
  by (rule Least_equality [symmetric])
    (auto simp: encodedLengthOfOidComponent_le_iff [symmetric])

lemma encodedLengthOfOidComponent_5: "encodedLengthOfOidComponent c \<le> 5"
proof -
  have "unat c < 2 ^ LENGTH(32)" by (rule unsigned_less)
  then show ?thesis by (simp add: encodedLengthOfOidComponent_le_iff)
qed

lemma encodeOidComponent_loop_eq:
  "r = i + n \<Longrightarrow> r \<le> length buf \<Longrightarrow>
    encodeOidComponent_loop n c buf r = Ret (overwrite buf i (marked_groups n c))"
proof (induction n arbitrary: c buf r)
  case 0
  then show ?case by (simp add: marked_groups_def)
next
  case (Suc n)
  have "overwrite (buf[i + n := 0x80 OR ucast (c AND 0x7f)]) i (marked_groups n (drop_bit 7 c))
      = overwrite buf i (marked_groups (Suc n) c)"
    using overwrite_last [of i "marked_groups n (drop_bit 7 c)" buf "0x80 OR ucast (c AND 0x7f)"]
      Suc.prems by (simp add: marked_groups_snoc)
  with Suc show ?case by (simp add: put_def)
qed

lemma clear_top_bit: "(0x80 OR ucast (c AND 0x7f) :: byte) AND NOT 0x80 = ucast ((c :: u32) AND 0x7f)"
proof -
  have "(0x7f :: u32) = mask 7" by (simp add: mask_eq_decr_exp)
  moreover have "take_bit 7 (0x80 OR ucast (c AND mask 7) :: byte) = ucast (c AND mask 7)"
    by (rule bit_word_eqI) (auto simp: bit_simps)
  ultimately show ?thesis by (simp only: and_mask_byte)
qed

lemma writes_encodeOidComponent [writes_intros]: "writes (encodeOidComponent c) (ber_component c)"
proof (rule writesI, goal_cases)
  case (1 buf i)
  let ?n = "encodedLengthOfOidComponent c"
  let ?h = "high_groups (?n - 1) c" and ?b = "0x80 OR ucast (c AND 0x7f) :: byte"
  from 1 have fits: "i + ?n \<le> length buf" by simp
  obtain m where m: "?n = Suc m" by (cases ?n) (use encodedLengthOfOidComponent_pos [of c] in simp_all)
  let ?buf = "overwrite buf i (high_groups m c @ [?b])"
  have at: "?buf ! (i + m) = ?b" "length ?buf = length buf"
    using fits m by (simp_all add: overwrite_def nth_append)
  have set: "?buf[i + m := ucast (c AND 0x7f)] = overwrite buf i (high_groups m c @ [ucast (c AND 0x7f)])"
    using fits m by (simp add: overwrite_def list_update_append)
  have groups: "marked_groups (Suc m) c = high_groups m c @ [?b]" by (simp add: marked_groups_def)
  show ?case
    using fits m at set clear_top_bit [of c]
    by (simp add: encodeOidComponent_def Let_def put_def ber_component_def groups
        encodeOidComponent_loop_eq [of "Suc (i + m)" i "Suc m" buf c]
        del: encodeOidComponent_loop.simps)
qed

section \<open>What the encoder writes\<close>

text \<open>The identifiers that can be encoded.\<close>

definition encodable_oid :: "oid \<Rightarrow> bool" where
  "encodable_oid x \<longleftrightarrow> (\<exists>cs. components x = 1 # 3 # cs)"

definition oid_data :: "oid \<Rightarrow> bytes" where
  "oid_data x = 0x2b # concat (map ber_component (drop 2 (components x)))"

definition ber_oid :: "oid \<Rightarrow> bytes" where
  "ber_oid x = 0x06 # ber_length (of_nat (length (oid_data x))) @ oid_data x"

lemma encodable_oid_code [code]:
  "encodable_oid x \<longleftrightarrow> take 2 (components x) = [1, 3]"
proof -
  have "take 2 cs = [1, 3] \<longleftrightarrow> (\<exists>ds. cs = 1 # 3 # ds)" for cs :: "u32 list"
    by (cases cs; cases "tl cs") auto
  then show ?thesis by (simp add: encodable_oid_def)
qed

lemma foldl_sum: "foldl (\<lambda>r c. r + f c) n cs = n + sum_list (map f cs)" for n :: nat
  by (induction cs arbitrary: n) simp_all

lemma length_components: "length (concat (map ber_component cs))
    = sum_list (map encodedLengthOfOidComponent cs)"
  by (induction cs) simp_all

lemma oidDataLength_eq: "encodable_oid x \<Longrightarrow> oidDataLength x = Ret (length (oid_data x))"
  by (auto simp: encodable_oid_def oidDataLength_def oid_data_def foldl_sum length_components)

text \<open>Making an \<^verbatim>\<open>OidValue\<close> succeeds for these identifiers only.\<close>

lemma encodedLengthOfOid_eq:
  "encodedLengthOfOid x = (if encodable_oid x then Ret (length (ber_oid x)) else Abort)"
proof (cases "encodable_oid x")
  case True
  then obtain cs where "components x = 1 # 3 # cs" by (auto simp: encodable_oid_def)
  with True show ?thesis
    by (simp add: encodedLengthOfOid_def oidDataLength_eq ber_oid_def length_ber_length)
next
  case False
  then have "\<not> (1 < length (components x) \<and> components x ! 0 = 1 \<and> components x ! 1 = 3)"
    by (cases "components x"; cases "tl (components x)") (auto simp: encodable_oid_def)
  with False show ?thesis
    by (auto simp: encodedLengthOfOid_def oassert_def)
qed

lemma encodeOid_then:
  "encodable_oid x \<Longrightarrow> encodeOid x =
    then_encode (put_next 0x06) (then_encode (encodeLength (of_nat (length (oid_data x))))
      (then_encode (put_next 0x2b) (encode_each encodeOidComponent (drop 2 (components x)))))"
  by (intro ext) (simp add: encodeOid_def then_encode_def oidDataLength_eq)

lemma writes_encodeOid [writes_intros]:
  assumes "encodable_oid x"
  shows "writes (encodeOid x) (ber_oid x)"
  using writes_then [OF writes_put_next writes_then [OF writes_encodeLength
      writes_then [OF writes_put_next writes_each [OF writes_encodeOidComponent]]]]
  by (simp add: encodeOid_then [OF assms] ber_oid_def oid_data_def)

section \<open>Decoding\<close>

text \<open>The loop of \<^verbatim>\<open>decodeOidComponent\<close>: its test and its body.\<close>

definition component_more :: "u32 \<times> DecodeIterator \<Rightarrow> (snmp_error, bool) outcome" where
  "component_more = (\<lambda>(result, i). obind (deref i) (\<lambda>b. Ret (b AND 0x80 \<noteq> 0)))"

definition component_step ::
    "u32 \<times> DecodeIterator \<Rightarrow> (snmp_error, u32 \<times> DecodeIterator) outcome" where
  "component_step = (\<lambda>(result, i).
     obind (deref i) (\<lambda>b. obind (incr i) (\<lambda>i.
     Ret (push_bit 7 (result OR ucast (b AND NOT 0x80)), i))))"

definition decodeOidComponent :: "DecodeIterator \<Rightarrow> u32 decoded" where
  "decodeOidComponent at =
     obind (owhile component_more component_step (0, at)) (\<lambda>(result, i).
     obind (deref i) (\<lambda>b. obind (incr i) (\<lambda>i.
     Ret (result OR ucast b, i))))"

text \<open>
  The test of \<^verbatim>\<open>decodeOidValue\<close>'s loop, a lambda declared \<^verbatim>\<open>throw()\<close>.  In the indefinite form the
  source reads \<^verbatim>\<open>(*i)==0 && (*i+1)==0\<close>: the second operand adds one to the byte at \<open>i\<close> as an \<^verbatim>\<open>int\<close>.
\<close>

definition oid_atEnd :: "u64 option \<Rightarrow> DecodeIterator \<Rightarrow> DecodeIterator \<Rightarrow> (snmp_error, bool) outcome" where
  "oid_atEnd len second i = nothrow
     (case len of
        None \<Rightarrow>
          obind (deref i) (\<lambda>b.
            if b = 0 then obind (deref i) (\<lambda>b. Ret (int (unat b) + 1 = 0)) else Ret False)
      | Some l \<Rightarrow> obind (plus_int second (int_of_size l)) (\<lambda>e. Ret (it_at i = it_at e)))"

definition oid_loop ::
    "u64 option \<Rightarrow> DecodeIterator \<Rightarrow> u32 list \<times> DecodeIterator \<Rightarrow>
      (snmp_error, u32 list \<times> DecodeIterator) outcome" where
  "oid_loop len second =
     owhile
       (\<lambda>(components, i). obind (oid_atEnd len second i) (\<lambda>e. Ret (\<not> e)))
       (\<lambda>(components, i). obind (decodeOidComponent i) (\<lambda>(c, i). Ret (components @ [c], i)))"

definition decodeOidValue :: "DecodeIterator \<Rightarrow> oid decoded" where
  "decodeOidValue at =
     obind (deref at) (\<lambda>t.
       if t \<noteq> 0x06 then Throw (WrongTag t 0x06)
       else
         obind (plus_int at 1) (\<lambda>i.
         obind (decodeLength i) (\<lambda>(len, second).
         obind (deref second) (\<lambda>b.
           if b \<noteq> 0x2b then Throw (OidStart b)
           else
             obind (incr second) (\<lambda>i.
             obind (oid_loop len second ([1, 3], i)) (\<lambda>(components, i).
             obind (if len = None then plus_int i 2 else Ret i) (\<lambda>i.
             Ret (Oid components, i))))))))"

section \<open>Reading what was written\<close>

lemma high_byte:
  "(0x80 OR ucast ((w :: u32) AND 0x7f) :: byte) AND 0x80 \<noteq> 0"
  "ucast (w AND 0x7f) AND 0x80 = (0 :: byte)"
  "ucast (ucast (w AND 0x7f) :: byte) = take_bit 7 w"
  "ucast ((0x80 OR ucast (w AND 0x7f) :: byte) AND NOT 0x80) = take_bit 7 w"
proof -
  have m: "(0x7f :: u32) = mask 7" by (simp add: mask_eq_decr_exp)
  have p: "(0x80 :: byte) = 2 ^ 7" by simp
  show "(0x80 OR ucast (w AND 0x7f) :: byte) AND 0x80 \<noteq> 0"
    unfolding sign_test by (subst p) (simp add: bit_or_iff bit_exp_iff)
  show *: "ucast (w AND 0x7f) AND 0x80 = (0 :: byte)"
    by (subst p, subst and_exp_eq_0_iff_not_bit, unfold m) (simp add: bit_simps)
  show **: "ucast (ucast (w AND 0x7f) :: byte) = take_bit 7 w"
    unfolding m by (rule bit_word_eqI) (auto simp: bit_simps)
  show "ucast ((0x80 OR ucast (w AND 0x7f) :: byte) AND NOT 0x80) = take_bit 7 w"
    unfolding clear_top_bit by (rule **)
qed

lemma component_more_at:
  "k < length d \<Longrightarrow> component_more (r, It d k) = Ret (d ! k AND 0x80 \<noteq> 0)"
  by (simp add: component_more_def)

lemma component_step_at:
  "k < length d \<Longrightarrow> d ! k = 0x80 OR ucast (w AND 0x7f) \<Longrightarrow>
    component_step (r, It d k) = Ret (push_bit 7 (r OR take_bit 7 w), It d (Suc k))"
  unfolding component_step_def
  by (simp only: prod.case deref_eq incr_eq obind.simps high_byte(4))

lemma component_loop:
  assumes "bytes_at d k (high_groups m c @ [ucast (c AND 0x7f)])"
  shows "owhile component_more component_step (r, It d k) =
    Ret (push_bit (7 * m) r OR push_bit 7 (take_bit (7 * m) (drop_bit 7 c)), It d (k + m))"
  using assms
proof (induction m arbitrary: r k)
  case 0
  then show ?case
    by (subst owhile_unfold) (simp add: component_more_at high_byte)
next
  case (Suc m)
  let ?r = "push_bit 7 (r OR take_bit 7 (drop_bit (7 * Suc m) c))"
  have "push_bit (7 * m) ?r OR push_bit 7 (take_bit (7 * m) (drop_bit 7 c))
      = push_bit (7 * Suc m) r OR push_bit 7 (take_bit (7 * Suc m) (drop_bit 7 c))"
    by (rule bit_word_eqI) (auto simp: bit_simps add.commute [of "7 * m" 7])
  moreover have at: "k < length d" "d ! k = 0x80 OR ucast (drop_bit (7 * Suc m) c AND 0x7f)"
    using Suc.prems by simp_all
  ultimately show ?case
    using Suc.IH [of "Suc k" ?r] Suc.prems
    by (subst owhile_unfold)
      (simp only: component_more_at component_step_at [OF at] at obind.simps high_byte simp_thms
        if_True high_groups.simps append_Cons bytes_at.simps add_Suc_shift)
qed

lemma decodeOidComponent_ber [decode_intros]:
  assumes "bytes_at d k (ber_component c)"
  shows "decodeOidComponent (It d k) = Ret (c, It d (k + length (ber_component c)))"
proof -
  obtain m where m: "encodedLengthOfOidComponent c = Suc m"
    by (cases "encodedLengthOfOidComponent c") (use encodedLengthOfOidComponent_pos [of c] in simp_all)
  from assms have at: "bytes_at d k (high_groups m c @ [ucast (c AND 0x7f)])"
    by (simp add: ber_component_def m)
  then have "k + m < length d" "d ! (k + m) = ucast (c AND 0x7f)" by simp_all
  moreover have "unat c < 2 ^ (7 * Suc m)"
    unfolding power_mult using encodedLengthOfOidComponent_le_iff [of "Suc m" c] m by simp
  then have "take_bit (7 * Suc m) c = c"
    by (simp add: word_unat_eq_iff unsigned_take_bit_eq take_bit_nat_eq_self_iff del: mult_Suc_right)
  moreover have "push_bit 7 (take_bit (7 * m) (drop_bit 7 c)) OR take_bit 7 c = take_bit (7 * Suc m) c"
    by (rule bit_word_eqI) (auto simp: bit_simps)
  ultimately show ?thesis
    by (simp add: decodeOidComponent_def component_loop [OF at] high_byte m)
qed

interpretation component_format: wire_format decodeOidComponent ber_component "\<lambda>_. True"
  by standard (rule decodeOidComponent_ber)

lemma oid_loop_components:
  assumes "bytes_at d k (concat (map ber_component cs))" and "k + length (concat (map ber_component cs)) = e"
    and "plus_int second (int_of_size l) = Ret (It d e)"
  shows "oid_loop (Some l) second (xs, It d k) = Ret (xs @ cs, It d e)"
  using assms(1,2)
proof (induction cs arbitrary: xs k)
  case Nil
  then show ?case
    unfolding oid_loop_def by (subst owhile_unfold) (simp add: oid_atEnd_def assms(3))
next
  case (Cons c cs)
  then have "decodeOidComponent (It d k) = Ret (c, It d (k + encodedLengthOfOidComponent c))"
    using decodeOidComponent_ber [of d k c] by simp
  moreover have "oid_loop (Some l) second (xs @ [c], It d (k + encodedLengthOfOidComponent c))
      = Ret (xs @ c # cs, It d e)"
    using Cons.IH [of "k + encodedLengthOfOidComponent c" "xs @ [c]"] Cons.prems by simp
  moreover have "k \<noteq> e"
    using Cons.prems(2) encodedLengthOfOidComponent_pos [of c]
    by (simp del: encodedLengthOfOidComponent_pos)
  ultimately show ?case
    unfolding oid_loop_def by (subst owhile_unfold) (simp add: oid_atEnd_def assms(3))
qed

lemma decodeOidValue_ber [decode_intros]:
  assumes "encodable_oid x" and "bytes_at d k (ber_oid x)" and "length d < 2 ^ 31"
  shows "decodeOidValue (It d k) = Ret (x, It d (k + length (ber_oid x)))"
proof -
  from assms(1) obtain cs where x: "x = Oid (1 # 3 # cs)"
    by (cases x) (auto simp: encodable_oid_def)
  let ?n = "length (oid_data x)"
  let ?l = "ber_length (of_nat ?n)"
  let ?j = "Suc k + length ?l"
  from assms(2) have at: "k < length d" "d ! k = 0x06" "bytes_at d (Suc k) ?l" "bytes_at d ?j (oid_data x)"
    by (simp_all add: ber_oid_def)
  from at(4) have data: "?j < length d" "d ! ?j = 0x2b"
    "bytes_at d (Suc ?j) (concat (map ber_component cs))"
    by (simp_all add: oid_data_def x)
  have fits: "?j + ?n \<le> length d" by (rule bytes_at_length [OF at(4)])
  have len: "decodeLength (It d (Suc k)) = Ret (Some (of_nat ?n), It d ?j)"
    by (rule decodeLength_ber_length [OF at(3)])
  have "unat (of_nat ?n :: u64) = ?n"
    using fits assms(3) by (intro unat_of_nat_u64) simp
  then have "int_of_size (of_nat ?n) = int ?n"
    using fits assms(3) int_of_size_small [of "of_nat ?n"] by simp
  then have "plus_int (It d ?j) (int_of_size (of_nat ?n)) = Ret (It d (?j + ?n))"
    using fits by simp
  then have "oid_loop (Some (of_nat ?n)) (It d ?j) ([1, 3], It d (Suc ?j)) = Ret (1 # 3 # cs, It d (?j + ?n))"
    using oid_loop_components [OF data(3), of "?j + ?n"] by (simp add: oid_data_def x)
  with at len data bytes_at_less [OF at(3)] show ?thesis
    by (simp add: decodeOidValue_def x ber_oid_def)
qed

interpretation oid_format: wire_format decodeOidValue ber_oid encodable_oid
  by standard (rule decodeOidValue_ber)

section \<open>Every input\<close>

lemma component_loop_total:
  "k \<le> length d \<Longrightarrow>
    (\<exists>r' j. owhile component_more component_step (r, It d k) = Ret (r', It d j) \<and> k \<le> j \<and> j < length d) \<or>
    owhile component_more component_step (r, It d k) = Throw (EndOfData (length d))"
proof (induction "length d - k" arbitrary: k r)
  case 0
  then have "k = length d" by simp
  then show ?case by (subst (1 2) owhile_unfold) (simp add: component_more_def)
next
  case (Suc n)
  then have k: "k < length d" by simp
  show ?case
  proof (cases "d ! k AND 0x80 = 0")
    case True
    with k show ?thesis by (subst (1 2) owhile_unfold) (auto simp: component_more_at)
  next
    case False
    let ?r = "push_bit 7 (r OR ucast (d ! k AND NOT 0x80))"
    have "owhile component_more component_step (r, It d k) =
        owhile component_more component_step (?r, It d (Suc k))"
      using False k by (subst owhile_unfold) (simp add: component_more_at component_step_def)
    with Suc.hyps(1) [of "Suc k" ?r] Suc.hyps(2) k show ?thesis
      by (metis Suc_leD Suc_leI diff_Suc_Suc diff_Suc_eq_diff_pred nat.inject Suc_diff_le)
  qed
qed

lemma decodeOidComponent_reads:
  assumes "in_range i"
  shows "reads i (decodeOidComponent i)" and "well_behaved (decodeOidComponent i)"
proof -
  obtain d k where i: "i = It d k" by (cases i)
  from assms have "k \<le> length d" by (simp add: i)
  from component_loop_total [OF this, of 0]
  show "reads i (decodeOidComponent i)" "well_behaved (decodeOidComponent i)"
    by (auto simp: decodeOidComponent_def i well_behaved_def)
qed

text \<open>In the indefinite form the loop's test is never true: it ends in an exception, from a component
  cut off by the end of the data, or terminates the process, when \<^verbatim>\<open>*i\<close> throws in the lambda.\<close>

lemma oid_atEnd_indefinite: "oid_atEnd None second i \<noteq> Ret True"
  by (auto simp: oid_atEnd_def split: if_splits)

lemma oid_loop_indefinite: "oid_loop None second s \<noteq> Ret x"
proof
  assume "oid_loop None second s = Ret x"
  then have "True \<and> (case x of (cs, i) \<Rightarrow> obind (oid_atEnd None second i) (\<lambda>e. Ret (\<not> e))) = Ret False"
    unfolding oid_loop_def by (rule owhile_invariant) simp_all
  then show False using oid_atEnd_indefinite by (auto split: prod.splits)
qed

lemma oid_atEnd_not_Diverge: "oid_atEnd len second i \<noteq> Diverge"
proof -
  have "nothrow m \<noteq> Diverge" if "m \<noteq> Diverge" for m :: "(snmp_error, bool) outcome"
    using that by (cases m) simp_all
  then show ?thesis
    by (auto simp: oid_atEnd_def deref_def plus_int_def obind_eq_Diverge split: option.splits if_splits)
qed

lemma oid_loop_reads:
  assumes "in_range i"
  shows "oid_loop len second (cs, i) \<noteq> Diverge"
    and "oid_loop len second (cs, i) = Ret (ds, j) \<Longrightarrow>
      it_data j = it_data i \<and> in_range j \<and> it_at i \<le> it_at j"
proof -
  let ?J = "\<lambda>(cs, j). it_data j = it_data i \<and> in_range j \<and> it_at i \<le> it_at j"
  let ?body = "\<lambda>(components, i). obind (decodeOidComponent i) (\<lambda>(c, i). Ret (components @ [c :: u32], i))"
  have step: "?J s' \<and> remaining (snd s') < remaining (snd s)" if "?J s" "?body s = Ret s'" for s s'
  proof -
    obtain cs i1 where s: "s = (cs, i1)" by (cases s)
    with that obtain c i2 where c: "decodeOidComponent i1 = Ret (c, i2)" "s' = (cs @ [c], i2)" by auto
    with that(1) s decodeOidComponent_reads(1) [of i1] show ?thesis
      by (auto simp: in_range_def remaining_def dest!: readsD)
  qed
  show "oid_loop len second (cs, i) \<noteq> Diverge"
    unfolding oid_loop_def
  proof (rule owhile_terminates [where J = ?J and f = "\<lambda>s. remaining (snd s)"])
    show "?J (cs, i)" using assms by simp
    show "?body s \<noteq> Diverge" if "?J s" for s
      using that decodeOidComponent_reads [of "snd s"] 
      by (auto simp: obind_eq_Diverge well_behaved_def split: prod.splits)
  qed (use step in \<open>auto simp: obind_eq_Diverge oid_atEnd_not_Diverge split: prod.splits\<close>)
  assume "oid_loop len second (cs, i) = Ret (ds, j)"
  then have "?J (ds, j) \<and> (case (ds, j) of (cs, i) \<Rightarrow> obind (oid_atEnd len second i) (\<lambda>e. Ret (\<not> e))) = Ret False"
    unfolding oid_loop_def
    by (rule owhile_invariant) (use assms step in auto)
  then show "it_data j = it_data i \<and> in_range j \<and> it_at i \<le> it_at j" by simp
qed

lemma decodeOidValue_reads: "in_range i \<Longrightarrow> reads i (decodeOidValue i)"
  unfolding decodeOidValue_def
proof (rule reads_tagged, assumption, goal_cases)
  case (1 l j)
  obtain d k where j: "j = It d k" by (cases j)
  consider "k = length d" | "k < length d" using 1(2) by (auto simp: j le_less)
  then show ?case
  proof cases
    case 2
    let ?f = "\<lambda>(components, i). obind (if l = None then plus_int i 2 else Ret i)
      (\<lambda>i. Ret (Oid components, i))"
    have i: "in_range (It d (Suc k))" using 2 by simp
    have "reads j (obind (oid_loop l j ([1, 3], It d (Suc k))) ?f)"
    proof (cases "oid_loop l j ([1, 3], It d (Suc k))")
      case (Ret p)
      obtain cs e where p: "p = (cs, e)" by (cases p)
      from oid_loop_reads(2) [OF i] Ret p
      have e: "it_data e = d" "in_range e" "Suc k \<le> it_at e" by auto
      have "l \<noteq> None" using Ret oid_loop_indefinite [of j] by (cases l) blast+
      with e Ret p show ?thesis by (auto simp: j)
    qed (use oid_loop_reads(1) [OF i] in simp_all)
    with 2 show ?thesis by (simp add: j)
  qed (simp add: j)
qed

lemma decodeOidValue_indefinite:
  assumes len: "decodeLength (It d (Suc k)) = Ret (None, second)" and k: "k < length d"
  shows "decodeOidValue (It d k) \<noteq> Ret x"
  using oid_loop_indefinite [of second] k
  by (auto simp: decodeOidValue_def len)

end
