(* ===== verification/Value.thy ===== *)
theory Value
  imports BerInt BerOctets BerOid
begin

text \<open>
  \<^verbatim>\<open>src/xju/snmp/Value.hh\<close> and its subclasses, \<^verbatim>\<open>SnmpVar.cc\<close> and \<^verbatim>\<open>decodeValue.cc\<close>: the values of SNMP
  variables, their encoding and decoding, and the checked conversions.  An object of a subclass is
  a constructor application.  The constructors of the C++ classes compute the encoded length, which
  aborts for an \<^verbatim>\<open>OidValue\<close> outside .1.3; \<open>encodedLength\<close> is that computation.

  An \<^verbatim>\<open>int64_t\<close> is a \<open>u64\<close> read with \<open>sint\<close>; \<^verbatim>\<open>TimeTicksValue\<close> holds milliseconds.
\<close>

datatype snmp_value =
    IntValue u64
  | StringValue bytes
  | OidValue oid
  | NullValue
  | IPv4AddressValue u32
  | Counter32Value u32
  | Gauge32Value u32
  | TimeTicksValue u64
  | OpaqueValue bytes
  | Counter64Value u64
  | Sequence "snmp_value list" byte
  | V2cSequence "snmp_var list" byte
  | PreEncoded bytes
and snmp_var =
    SnmpVar oid snmp_value
  | SnmpVarNoSuchObject oid
  | SnmpVarNoSuchInstance oid
  | SnmpVarEndOfMibView oid

fun var_oid :: "snmp_var \<Rightarrow> oid" where
  "var_oid (SnmpVar x v) = x"
| "var_oid (SnmpVarNoSuchObject x) = x"
| "var_oid (SnmpVarNoSuchInstance x) = x"
| "var_oid (SnmpVarEndOfMibView x) = x"

section \<open>Encoding\<close>

text \<open>Type, length and content: \<^verbatim>\<open>1+encodedLengthOfLength(n)+n\<close>.\<close>

definition tlv_length :: "nat \<Rightarrow> nat" where
  "tlv_length n = 1 + encodedLengthOfLength (of_nat n) + n"

fun encodedLength :: "snmp_value \<Rightarrow> ('e, nat) outcome"
  and var_encodedLength :: "snmp_var \<Rightarrow> ('e, nat) outcome" where
  "encodedLength (IntValue v) = Ret (encodedLengthOfInt v)"
| "encodedLength (StringValue v) = Ret (encodedLengthOfOctets v)"
| "encodedLength (OidValue v) = encodedLengthOfOid v"
| "encodedLength NullValue = Ret 2"
| "encodedLength (IPv4AddressValue v) = Ret (encodedLengthOfOctets [0, 0, 0, 0])"
| "encodedLength (Counter32Value v) = Ret (encodedLengthOfInt (ucast v))"
| "encodedLength (Gauge32Value v) = Ret (encodedLengthOfInt (ucast v))"
| "encodedLength (TimeTicksValue v) = Ret (encodedLengthOfInt (ticks v))"
| "encodedLength (OpaqueValue v) = Ret (encodedLengthOfOctets v)"
| "encodedLength (Counter64Value v) = Ret (encodedLengthOfInt v)"
| "encodedLength (Sequence items t) =
     obind (sum_lengths encodedLength items) (\<lambda>n. Ret (tlv_length n))"
| "encodedLength (V2cSequence items t) =
     obind (sum_lengths var_encodedLength items) (\<lambda>n. Ret (tlv_length n))"
| "encodedLength (PreEncoded d) = Ret (length d)"
| "var_encodedLength (SnmpVar x v) =
     obind (encodedLengthOfOid x) (\<lambda>n.
     obind (encodedLength v) (\<lambda>m. Ret (tlv_length (n + m))))"
| "var_encodedLength (SnmpVarNoSuchObject x) =
     obind (encodedLengthOfOid x) (\<lambda>n. Ret (tlv_length (n + 2)))"
| "var_encodedLength (SnmpVarNoSuchInstance x) =
     obind (encodedLengthOfOid x) (\<lambda>n. Ret (tlv_length (n + 2)))"
| "var_encodedLength (SnmpVarEndOfMibView x) =
     obind (encodedLengthOfOid x) (\<lambda>n. Ret (tlv_length (n + 2)))"

text \<open>\<^verbatim>\<open>Sequence::encodeTo\<close> and \<^verbatim>\<open>V2cSequence::encodeTo\<close>: the header, the items, then the assertion that
  the announced length was written.\<close>

definition encode_sequence :: "byte \<Rightarrow> ('e, nat) outcome \<Rightarrow> 'e encoder \<Rightarrow> 'e encoder" where
  "encode_sequence t len items buf begin =
     obind (put_next t buf begin) (\<lambda>(buf, at).
     obind len (\<lambda>n.
     obind (encodeLength (of_nat n) buf at) (\<lambda>(buf, at).
     obind (items buf at) (\<lambda>(buf, at).
     obind (oassert (at = begin + tlv_length n)) (\<lambda>_.
     Ret (buf, at))))))"

text \<open>The part of \<^verbatim>\<open>SnmpVar::encodeTo\<close> before the value: \<open>m\<close> is the length of the value.\<close>

definition encode_var_header :: "oid \<Rightarrow> ('e, nat) outcome \<Rightarrow> 'e encoder" where
  "encode_var_header x m buf begin =
     obind (put_next 0x30 buf begin) (\<lambda>(buf, at).
     obind (encodedLengthOfOid x) (\<lambda>n.
     obind m (\<lambda>m.
     obind (encodeLength (of_nat (n + m)) buf at) (\<lambda>(buf, at).
     encodeOid x buf at))))"

fun encodeTo :: "snmp_value \<Rightarrow> 'e encoder"
  and var_encodeTo :: "snmp_var \<Rightarrow> 'e encoder" where
  "encodeTo (IntValue v) = encodeInt 0x02 v"
| "encodeTo (StringValue v) = encodeOctetString 0x04 v"
| "encodeTo (OidValue v) = encodeOid v"
| "encodeTo NullValue = then_encode (put_next 0x05) (encodeLength 0)"
| "encodeTo (IPv4AddressValue v) = encodeOctetString 0x40 (ipv4_bytes v)"
| "encodeTo (Counter32Value v) = encodeInt 0x41 (ucast v)"
| "encodeTo (Gauge32Value v) = encodeInt 0x42 (ucast v)"
| "encodeTo (TimeTicksValue v) = encodeInt 0x43 (ticks v)"
| "encodeTo (OpaqueValue v) = encodeOctetString 0x44 v"
| "encodeTo (Counter64Value v) = encodeInt 0x46 v"
| "encodeTo (Sequence items t) =
     encode_sequence t (sum_lengths encodedLength items) (encode_each encodeTo items)"
| "encodeTo (V2cSequence items t) =
     encode_sequence t (sum_lengths var_encodedLength items) (encode_each var_encodeTo items)"
| "encodeTo (PreEncoded d) = copy_to d"
| "var_encodeTo (SnmpVar x v) = then_encode (encode_var_header x (encodedLength v)) (encodeTo v)"
| "var_encodeTo (SnmpVarNoSuchObject x) =
     then_encode (encode_var_header x (Ret 2)) (then_encode (put_next 0x80) (put_next 0))"
| "var_encodeTo (SnmpVarNoSuchInstance x) =
     then_encode (encode_var_header x (Ret 2)) (then_encode (put_next 0x81) (put_next 0))"
| "var_encodeTo (SnmpVarEndOfMibView x) =
     then_encode (encode_var_header x (Ret 2)) (then_encode (put_next 0x82) (put_next 0))"

section \<open>What the encoding is\<close>

fun ber :: "snmp_value \<Rightarrow> bytes" and ber_var :: "snmp_var \<Rightarrow> bytes" where
  "ber (IntValue v) = ber_int 0x02 v"
| "ber (StringValue v) = ber_octets 0x04 v"
| "ber (OidValue v) = ber_oid v"
| "ber NullValue = [0x05, 0]"
| "ber (IPv4AddressValue v) = ber_ipv4 v"
| "ber (Counter32Value v) = ber_int 0x41 (ucast v)"
| "ber (Gauge32Value v) = ber_int 0x42 (ucast v)"
| "ber (TimeTicksValue v) = ber_int 0x43 (ticks v)"
| "ber (OpaqueValue v) = ber_octets 0x44 v"
| "ber (Counter64Value v) = ber_int 0x46 v"
| "ber (Sequence items t) = ber_octets t (concat (map ber items))"
| "ber (V2cSequence items t) = ber_octets t (concat (map ber_var items))"
| "ber (PreEncoded d) = d"
| "ber_var (SnmpVar x v) = ber_octets 0x30 (ber_oid x @ ber v)"
| "ber_var (SnmpVarNoSuchObject x) = ber_octets 0x30 (ber_oid x @ [0x80, 0])"
| "ber_var (SnmpVarNoSuchInstance x) = ber_octets 0x30 (ber_oid x @ [0x81, 0])"
| "ber_var (SnmpVarEndOfMibView x) = ber_octets 0x30 (ber_oid x @ [0x82, 0])"

text \<open>The values the program can make: every identifier in them is encodable.\<close>

fun well_formed :: "snmp_value \<Rightarrow> bool" and well_formed_var :: "snmp_var \<Rightarrow> bool" where
  "well_formed (OidValue x) \<longleftrightarrow> encodable_oid x"
| "well_formed (Sequence items t) \<longleftrightarrow> list_all well_formed items"
| "well_formed (V2cSequence items t) \<longleftrightarrow> list_all well_formed_var items"
| "well_formed (IntValue v) \<longleftrightarrow> True"
| "well_formed (StringValue b) \<longleftrightarrow> True"
| "well_formed NullValue \<longleftrightarrow> True"
| "well_formed (IPv4AddressValue a) \<longleftrightarrow> True"
| "well_formed (Counter32Value c) \<longleftrightarrow> True"
| "well_formed (Gauge32Value c) \<longleftrightarrow> True"
| "well_formed (TimeTicksValue v) \<longleftrightarrow> True"
| "well_formed (OpaqueValue b) \<longleftrightarrow> True"
| "well_formed (Counter64Value v) \<longleftrightarrow> True"
| "well_formed (PreEncoded d) \<longleftrightarrow> True"
| "well_formed_var (SnmpVar x v) \<longleftrightarrow> encodable_oid x \<and> well_formed v"
| "well_formed_var (SnmpVarNoSuchObject x) \<longleftrightarrow> encodable_oid x"
| "well_formed_var (SnmpVarNoSuchInstance x) \<longleftrightarrow> encodable_oid x"
| "well_formed_var (SnmpVarEndOfMibView x) \<longleftrightarrow> encodable_oid x"

lemma length_ber_octets_tlv: "length (ber_octets t d) = tlv_length (length d)"
  by (simp add: length_ber_octets encodedLengthOfOctets_def tlv_length_def)

lemma encodedLength_ber_both:
  shows "encodedLength v = (if well_formed v then Ret (length (ber v)) else Abort :: ('e, nat) outcome)"
    and "var_encodedLength w =
      (if well_formed_var w then Ret (length (ber_var w)) else Abort :: ('e, nat) outcome)"
proof (induction v and w rule: ber_ber_var.induct)
  case (11 items t)
  then show ?case
    by (simp add: sum_lengths_eq [where P = well_formed and g = ber] length_ber_octets_tlv)
next
  case (12 items t)
  then show ?case
    by (simp add: sum_lengths_eq [where P = well_formed_var and g = ber_var] length_ber_octets_tlv)
qed (auto simp: length_ber_int length_ber_octets encodedLengthOfOid_eq ber_ipv4_def
    tlv_length_def encodedLengthOfOctets_def)

lemmas encodedLength_ber = encodedLength_ber_both(1) and var_encodedLength_ber = encodedLength_ber_both(2)

text \<open>A sequence: the items are written after a header that announces their length.\<close>

lemma writes_encode_sequence:
  assumes "writes items xs"
  shows "writes (encode_sequence t (Ret (length xs)) items) (ber_octets t xs)"
proof (rule writesI, goal_cases)
  case (1 buf i)
  let ?l = "ber_length (of_nat (length xs))"
  from 1 have fits: "i + length (t # ?l @ xs) \<le> length buf"
    by (simp add: ber_octets_def)
  note w = writesD [OF writes_then [OF writes_put_next [of t]
      writes_then [OF writes_encodeLength [of "of_nat (length xs)"] assms]], of i buf]
  have n: "length (ber_octets t xs) = tlv_length (length xs)"
    by (rule length_ber_octets_tlv)
  from fits show ?case
    using w unfolding n
    by (auto simp: encode_sequence_def then_encode_def ber_octets_def n [symmetric] oassert_def
        split: prod.splits)
qed

lemma encode_var_header_then:
  "encodable_oid x \<Longrightarrow> encode_var_header x (Ret m) = then_encode (put_next 0x30)
    (then_encode (encodeLength (of_nat (length (ber_oid x) + m))) (encodeOid x))"
  by (intro ext) (simp add: encode_var_header_def then_encode_def encodedLengthOfOid_eq)

lemma writes_encode_var_header:
  assumes "encodable_oid x"
  shows "writes (encode_var_header x (Ret m))
    (0x30 # ber_length (of_nat (length (ber_oid x) + m)) @ ber_oid x)"
  using writes_then [OF writes_put_next writes_then [OF writes_encodeLength writes_encodeOid [OF assms]],
      of "0x30" "of_nat (length (ber_oid x) + m)"]
  by (simp add: encode_var_header_then [OF assms])

lemma writes_var:
  assumes "encodable_oid x" and "writes f xs" and "m = length xs"
  shows "writes (then_encode (encode_var_header x (Ret m)) f) (ber_octets 0x30 (ber_oid x @ xs))"
  using writes_then [OF writes_encode_var_header [OF assms(1)] assms(2)]
  by (simp add: ber_octets_def assms(3))

lemma writes_pair: "writes (then_encode (put_next a) (put_next b)) [a, b]"
  using writes_then [OF writes_put_next writes_put_next, of a b] by simp

lemma writes_null: "writes (then_encode (put_next 0x05) (encodeLength 0)) [0x05, 0]"
  using writes_then [OF writes_put_next writes_encodeLength, of "0x05" 0] by (simp add: ber_length_def)

lemma writes_encodeTo_both:
  shows "well_formed v \<Longrightarrow> writes (encodeTo v :: 'e encoder) (ber v)"
    and "well_formed_var w \<Longrightarrow> writes (var_encodeTo w :: 'e encoder) (ber_var w)"
proof (induction v and w rule: ber_ber_var.induct)
  case (11 items t)
  then have "writes (encode_each encodeTo items :: 'e encoder) (concat (map ber items))"
    by (intro writes_each) (simp add: list_all_iff)
  with 11 show ?case
    by (simp add: sum_lengths_eq [OF encodedLength_ber] writes_encode_sequence)
next
  case (12 items t)
  then have "writes (encode_each var_encodeTo items :: 'e encoder) (concat (map ber_var items))"
    by (intro writes_each) (simp add: list_all_iff)
  with 12 show ?case
    by (simp add: sum_lengths_eq [OF var_encodedLength_ber] writes_encode_sequence)
qed (simp_all add: writes_intros ber_ipv4_def encodedLength_ber writes_var writes_pair writes_null)

interpretation value_encoding: encodable encodeTo encodedLength ber well_formed
  by standard (rule writes_encodeTo_both encodedLength_ber | assumption)+

interpretation var_encoding: encodable var_encodeTo var_encodedLength ber_var well_formed_var
  by standard (rule writes_encodeTo_both var_encodedLength_ber | assumption)+

section \<open>Decoding\<close>

text \<open>The loop of the indefinite form of null: \<^verbatim>\<open>while((*j)!=0 || (*j+1) !=0) ++j\<close>, whose second
  operand adds one to the byte at \<open>j\<close> as an \<^verbatim>\<open>int\<close>.\<close>

definition null_skip :: "DecodeIterator \<Rightarrow> (snmp_error, DecodeIterator) outcome" where
  "null_skip j =
     owhile
       (\<lambda>j. obind (deref j) (\<lambda>b.
          if b \<noteq> 0 then Ret True else obind (deref j) (\<lambda>b. Ret (int (unat b) + 1 \<noteq> 0))))
       incr j"

definition decodeNull :: "DecodeIterator \<Rightarrow> snmp_value decoded" where
  "decodeNull i =
     obind (plus_int i 1) (\<lambda>i1.
     obind (decodeLength i1) (\<lambda>(len, second).
       case len of
         None \<Rightarrow>
           obind (plus_int i 2) (\<lambda>j.
           obind (null_skip j) (\<lambda>j.
           Ret (NullValue, j)))
       | Some l \<Rightarrow>
           obind (plus_int second (int_of_size l)) (\<lambda>e.
           Ret (NullValue, e))))"

definition decodeValue :: "DecodeIterator \<Rightarrow> snmp_value decoded" where
  "decodeValue i =
     obind (deref i) (\<lambda>b.
       if b = 0x05 then decodeNull i
       else if b = 0x06 then
         obind (decodeOidValue i) (\<lambda>(v, j). Ret (OidValue v, j))
       else if b = 0x04 then
         obind (decodeStringValue i 0x04) (\<lambda>(v, j). Ret (StringValue v, j))
       else if b = 0x02 then
         obind (decodeIntValue i 0x02) (\<lambda>(v, j). Ret (IntValue v, j))
       else if b = 0x40 then
         obind (decodeIPv4AddressValue i) (\<lambda>(v, j). Ret (IPv4AddressValue v, j))
       else if b = 0x41 then
         obind (decodeIntValue i 0x41) (\<lambda>(v, j).
           if v > 0xffffffff then Throw (Counter32TooBig v) else Ret (Counter32Value (ucast v), j))
       else if b = 0x42 then
         obind (decodeIntValue i 0x42) (\<lambda>(v, j).
           if v > 0xffffffff then Throw (Gauge32TooBig v) else Ret (Gauge32Value (ucast v), j))
       else if b = 0x43 then
         obind (decodeIntValue i 0x43) (\<lambda>(v, j). Ret (TimeTicksValue (v * 10), j))
       else if b = 0x44 then
         obind (decodeStringValue i 0x44) (\<lambda>(v, j). Ret (OpaqueValue v, j))
       else if b = 0x46 then
         obind (decodeIntValue i 0x46) (\<lambda>(v, j). Ret (Counter64Value v, j))
       else Throw (TypeNotImplemented b))"

text \<open>The values that can be decoded: not sequences, and \<^verbatim>\<open>TimeTicks\<close> of whole hundredths of a second,
  as the encoding holds no more.\<close>

fun decodable :: "snmp_value \<Rightarrow> bool" where
  "decodable (Sequence items t) \<longleftrightarrow> False"
| "decodable (V2cSequence items t) \<longleftrightarrow> False"
| "decodable (PreEncoded d) \<longleftrightarrow> False"
| "decodable (OidValue x) \<longleftrightarrow> encodable_oid x"
| "decodable (TimeTicksValue v) \<longleftrightarrow> ticks v * 10 = v"
| "decodable v \<longleftrightarrow> True"

lemma decodable_well_formed: "decodable v \<Longrightarrow> well_formed v"
  by (cases v) simp_all

lemma ber_tag [simp]:
  "ber_octets t x \<noteq> []" "ber_int t i \<noteq> []" "ber_oid y \<noteq> []" "ber_ipv4 a \<noteq> []"
  "hd (ber_octets t x) = t" "hd (ber_int t i) = t" "hd (ber_oid y) = 0x06" "hd (ber_ipv4 a) = 0x40"
  by (simp_all add: ber_octets_def ber_int_def ber_oid_def ber_ipv4_def)

lemma ucast_u32_bound: "\<not> (0xffffffff :: u64) < ucast (c :: u32)"
proof -
  have "unat c < 2 ^ LENGTH(32)" by (rule unsigned_less)
  then show ?thesis by (simp add: word_less_nat_alt unat_ucast_up)
qed

lemma decodeNull_ber: "bytes_at d k [0x05, 0] \<Longrightarrow> decodeNull (It d k) = Ret (NullValue, It d (k + 2))"
proof -
  assume "bytes_at d k [0x05, 0]"
  then have at: "Suc k < length d" "d ! Suc k = 0" by simp_all
  have "int_of_size 0 = 0" using int_of_size_small [of 0] by simp
  with at show ?thesis
    using plus_int_eq [of "Suc (Suc k)" 0 d] by (simp add: decodeNull_def decodeLength_spec)
qed

lemma decodeValue_ber [decode_intros]:
  assumes "decodable v" and at: "bytes_at d k (ber v)" and d: "length d < 2 ^ 31"
  shows "decodeValue (It d k) = Ret (v, It d (k + length (ber v)))"
proof -
  from assms(1) have "ber v \<noteq> []" by (cases v) simp_all
  with at have tag: "deref (It d k) = Ret (hd (ber v))" by (rule deref_at)
  show ?thesis
    using assms tag
    by (cases v) (simp_all add: decodeValue_def decodeIntValue_ber_int decodeStringValue_ber_octets
        decodeOidValue_ber decodeIPv4AddressValue_ber decodeNull_ber ucast_u32_bound)
qed

interpretation value_format: wire_format decodeValue ber decodable
  by standard (rule decodeValue_ber)

section \<open>Every input\<close>

text \<open>A read that ends, and stays within the same data when it returns.\<close>

definition stays :: "DecodeIterator \<Rightarrow> 'a decoded \<Rightarrow> bool" where
  "stays i m \<longleftrightarrow> m \<noteq> Diverge \<and> (\<forall>x j. m = Ret (x, j) \<longrightarrow> it_data j = it_data i \<and> in_range j)"

lemma reads_stays: "reads i m \<Longrightarrow> stays i m"
  unfolding reads_def stays_def by blast

lemma stays_simps [simp]:
  "stays i (Throw e)" "stays i Abort" "stays i Undef" "\<not> stays i Diverge"
  "stays i (Ret (x, j)) \<longleftrightarrow> it_data j = it_data i \<and> in_range j"
  unfolding stays_def by blast+

lemma stays_later: "stays j m \<Longrightarrow> it_data j = it_data i \<Longrightarrow> stays i m"
  unfolding stays_def by metis

lemma stays_map:
  assumes m: "stays i m" and f: "\<And>v j. m = Ret (v, j) \<Longrightarrow> stays j (f (v, j))"
  shows "stays i (obind m f)"
proof (cases m)
  case (Ret p)
  obtain v j where p: "p = (v, j)" by (cases p)
  from m Ret p have "it_data j = it_data i" by simp
  with f [of v j] Ret p stays_later show ?thesis by simp
qed (use m in simp_all)

text \<open>The loop of the indefinite null never returns: it runs into the end of the data.\<close>

lemma null_skip_throws: "k \<le> length d \<Longrightarrow> null_skip (It d k) = Throw (EndOfData (length d))"
proof (induction "length d - k" arbitrary: k)
  case 0
  then have "k = length d" by simp
  then show ?case unfolding null_skip_def by (subst owhile_unfold) simp
next
  case (Suc n)
  then have k: "k < length d" by simp
  have "int (unat b) + 1 \<noteq> 0" for b :: byte
    using of_nat_0_le_iff [of "unat b", where ?'a = int] by linarith
  then have "(if d ! k \<noteq> 0 then Ret True else obind (Ret (d ! k)) (\<lambda>b. Ret (int (unat b) + 1 \<noteq> 0)))
      = (Ret True :: (snmp_error, bool) outcome)" by simp
  with Suc.hyps(1) [of "Suc k"] Suc.hyps(2) k show ?case
    unfolding null_skip_def by (subst owhile_unfold) simp
qed

lemma decodeNull_indefinite:
  assumes "Suc k < length d" and "d ! Suc k = 0x80"
  shows "decodeNull (It d k) = Throw (EndOfData (length d))"
  using assms null_skip_throws [of "Suc (Suc k)" d] by (simp add: decodeNull_def decodeLength_spec)

lemma decodeNull_stays:
  assumes "in_range i" and "\<not> atEnd i"
  shows "stays i (decodeNull i)"
proof -
  obtain d k where i: "i = It d k" by (cases i)
  from assms have k: "k < length d" by (auto simp: i in_range_def atEnd_def)
  have "stays (It d (Suc k)) (obind (decodeLength (It d (Suc k))) (\<lambda>(len, second).
       case len of
         None \<Rightarrow> obind (plus_int i 2) (\<lambda>j. obind (null_skip j) (\<lambda>j. Ret (NullValue, j)))
       | Some l \<Rightarrow> obind (plus_int second (int_of_size l)) (\<lambda>e. Ret (NullValue, e))))"
  proof (rule stays_map)
    show "stays (It d (Suc k)) (decodeLength (It d (Suc k)))"
      using k by (intro reads_stays decodeLength_reads) simp
    fix len second
    assume "decodeLength (It d (Suc k)) = Ret (len, second)"
    with k decodeLength_reads [of "It d (Suc k)"] have s: "it_data second = d" "in_range second"
      by (auto dest: readsD)
    show "stays second (case (len, second) of (len, second) \<Rightarrow> (case len of
         None \<Rightarrow> obind (plus_int i 2) (\<lambda>j. obind (null_skip j) (\<lambda>j. Ret (NullValue, j)))
       | Some l \<Rightarrow> obind (plus_int second (int_of_size l)) (\<lambda>e. Ret (NullValue, e))))"
    proof (cases len)
      case None
      have "plus_int i 2 = Abort \<or> plus_int i 2 = Ret (It d (k + 2)) \<and> k + 2 \<le> length d"
        by (simp add: i plus_int_def oassert_def nat_add_distrib)
      with None show ?thesis by (auto simp: null_skip_throws)
    next
      case (Some l)
      with s show ?thesis
        by (auto simp: plus_int_def oassert_def in_range_def)
    qed
  qed
  then have "stays i (obind (decodeLength (It d (Suc k))) (\<lambda>(len, second).
       case len of
         None \<Rightarrow> obind (plus_int i 2) (\<lambda>j. obind (null_skip j) (\<lambda>j. Ret (NullValue, j)))
       | Some l \<Rightarrow> obind (plus_int second (int_of_size l)) (\<lambda>e. Ret (NullValue, e))))"
    by (rule stays_later) (simp add: i)
  with k show ?thesis
    unfolding i by (simp add: decodeNull_def)
qed

lemma decodeValue_stays: "in_range i \<Longrightarrow> stays i (decodeValue i)"
proof (cases "atEnd i")
  case False
  assume i: "in_range i"
  have *: "stays i (obind m (\<lambda>(v, j). Ret (f v, j)))" "stays i (obind m (\<lambda>(v, j). if P v then Throw (e v) else Ret (f v, j)))"
    if "reads i m" for m :: "'a decoded" and f :: "'a \<Rightarrow> snmp_value" and P e
    using reads_stays [OF that] by (auto intro!: stays_map simp: stays_def obind_eq_Diverge split: if_splits)
  show ?thesis
    using i False decodeNull_stays
    by (auto simp: decodeValue_def deref_def Let_def intro!: * decodeIntValue_reads decodeStringValue_reads
        decodeOidValue_reads decodeIPv4AddressValue_reads)
qed (simp add: decodeValue_def deref_def)

text \<open>What the decoder returns can be encoded.\<close>

lemma decodeValue_simple:
  assumes "decodeValue i = Ret (v, j)" and "\<And>x j. decodeOidValue i = Ret (x, j) \<Longrightarrow> encodable_oid x"
  shows "well_formed v"
  using assms by (auto simp: decodeValue_def decodeNull_def split: if_splits option.splits)

lemma decodeOidValue_encodable:
  assumes "decodeOidValue i = Ret (x, j)"
  shows "encodable_oid x"
proof -
  have prefix: "\<exists>ds. cs' = cs @ ds" if "oid_loop len second (cs, i) = Ret (cs', e)" for len second cs i cs' e
  proof -
    let ?J = "\<lambda>(c :: u32 list, i :: DecodeIterator). \<exists>ds. c = cs @ ds"
    have "?J (cs', e) \<and> (case (cs', e) of (cs, i) \<Rightarrow> obind (oid_atEnd len second i) (\<lambda>e. Ret (\<not> e))) = Ret False"
      using that unfolding oid_loop_def by (rule owhile_invariant) auto
    then show ?thesis by simp
  qed
  from assms show ?thesis
    by (auto simp: decodeOidValue_def encodable_oid_def split: if_splits dest!: prefix)
qed

end
