(* ===== verification/VarList.thy ===== *)
theory VarList
  imports Value
begin

text \<open>
  The variable bindings of a message: the third sequence of every message decoder in
  \<^verbatim>\<open>src/xju/snmp\<close> (\<^verbatim>\<open>decodeSnmpV1GetRequest.cc\<close>, lines 81 to 125, and the same text in the others),
  with the body of the response decoders, which also reads the exceptions of SNMPv2
  (\<^verbatim>\<open>decodeSnmpV2cResponse.cc\<close>, lines 88 to 144, and \<^verbatim>\<open>decodePDU.hcp\<close>).

  The loop reads items until its end test holds; \<open>decode_items\<close> is that loop for any item decoder.
\<close>

section \<open>The loop\<close>

text \<open>The lambda \<^verbatim>\<open>atEnd\<close>: the definite form compares iterators, the indefinite form looks for two
  zero bytes.\<close>

definition list_atEnd ::
    "u64 option \<Rightarrow> DecodeIterator \<Rightarrow> DecodeIterator \<Rightarrow> (snmp_error, bool) outcome" where
  "list_atEnd len second at =
     (case len of
        Some l \<Rightarrow> obind (plus_int second (int_of_size l)) (\<lambda>e. Ret (it_at at = it_at e))
      | None \<Rightarrow>
          obind (deref at) (\<lambda>b.
            if b = 0 then obind (plus_int at 1) (\<lambda>j. obind (deref j) (\<lambda>c. Ret (c = 0)))
            else Ret False))"

definition items_loop ::
    "(DecodeIterator \<Rightarrow> 'a decoded) \<Rightarrow> u64 option \<Rightarrow> DecodeIterator \<Rightarrow>
      'a list \<times> DecodeIterator \<Rightarrow> (snmp_error, 'a list \<times> DecodeIterator) outcome" where
  "items_loop item len second =
     owhile
       (\<lambda>(values, at). obind (list_atEnd len second at) (\<lambda>e. Ret (\<not> e)))
       (\<lambda>(values, at). obind (item at) (\<lambda>(v, at). Ret (values @ [v], at)))"

definition decode_items :: "(DecodeIterator \<Rightarrow> 'a decoded) \<Rightarrow> DecodeIterator \<Rightarrow> 'a list decoded" where
  "decode_items item i =
     obind (decodeSequenceTypeAndLength i) (\<lambda>((t, len), second).
     items_loop item len second ([], second))"

section \<open>The items\<close>

text \<open>One iteration of the request decoders: identifier and value in a sequence, whose type is not
  looked at and whose length is only compared with the indefinite form.\<close>

definition decodeVarBind :: "DecodeIterator \<Rightarrow> (oid \<times> snmp_value) decoded" where
  "decodeVarBind at =
     obind (decodeSequenceTypeAndLength at) (\<lambda>((t, len), i).
     obind (decodeOidValue i) (\<lambda>(oid, j).
     obind (decodeValue j) (\<lambda>(value, e).
     obind (if len = None then plus_int e 2 else Ret e) (\<lambda>at.
     Ret ((oid, value), at)))))"

text \<open>One iteration of the SNMPv2 response decoders.  For an exception (types 0x80, 0x81 and 0x82) the
  length read is the one at \<^verbatim>\<open>at+1\<close>, the length of the binding's sequence.\<close>

definition decodeSnmpVar :: "DecodeIterator \<Rightarrow> snmp_var decoded" where
  "decodeSnmpVar at =
     obind (decodeSequenceTypeAndLength at) (\<lambda>((t, len), i).
     obind (decodeOidValue i) (\<lambda>(oid, j).
     obind (deref j) (\<lambda>b.
       if b = 0x80 \<or> b = 0x81 \<or> b = 0x82 then
         obind (plus_int at 1) (\<lambda>i.
         obind (decodeLength i) (\<lambda>(n, second).
           case n of
             None \<Rightarrow> Throw IndefiniteException
           | Some l \<Rightarrow>
               obind (plus_int second (int_of_size l)) (\<lambda>at.
               Ret (if b = 0x80 then SnmpVarNoSuchObject oid
                    else if b = 0x81 then SnmpVarNoSuchInstance oid
                    else SnmpVarEndOfMibView oid, at))))
       else
         obind (decodeValue j) (\<lambda>(value, e).
         obind (if len = None then plus_int e 2 else Ret e) (\<lambda>at.
         Ret (SnmpVar oid value, at))))))"

section \<open>Reading what was written\<close>

lemma items_loop_definite:
  "items_loop item (Some l) second = owhile
     (\<lambda>(values, at). obind (plus_int second (int_of_size l)) (\<lambda>e. Ret (it_at at \<noteq> it_at e)))
     (\<lambda>(values, at). obind (item at) (\<lambda>(v, at). Ret (values @ [v], at)))"
  by (simp add: items_loop_def list_atEnd_def obind_assoc)

context wire_format
begin

text \<open>A list of encodings, none of them empty, in a sequence of definite length.\<close>

lemma items_loop_decodes:
  assumes "plus_int second (int_of_size l) = Ret (It d e)" and "length d < 2 ^ 31"
  shows "\<forall>v\<in>set vs. ok v \<and> repr v \<noteq> [] \<Longrightarrow> bytes_at d k (concat (map repr vs)) \<Longrightarrow>
    k + length (concat (map repr vs)) = e \<Longrightarrow>
    items_loop decode (Some l) second (xs, It d k) = Ret (xs @ vs, It d e)"
proof (induction vs arbitrary: xs k)
  case Nil
  then show ?case
    unfolding items_loop_definite by (subst owhile_unfold) (simp add: assms(1))
next
  case (Cons v vs)
  then have "decode (It d k) = Ret (v, It d (k + length (repr v)))"
    by (intro decodes assms(2)) simp_all
  moreover have "k \<noteq> e" using Cons.prems by auto
  moreover have "items_loop decode (Some l) second (xs @ [v], It d (k + length (repr v)))
      = Ret (xs @ v # vs, It d e)"
    using Cons.IH [of "k + length (repr v)" "xs @ [v]"] Cons.prems by simp
  ultimately show ?case
    unfolding items_loop_definite by (subst owhile_unfold) (simp add: assms(1))
qed

lemma decode_items_decodes:
  assumes "\<forall>v\<in>set vs. ok v \<and> repr v \<noteq> []"
    and "bytes_at d k (ber_octets t (concat (map repr vs)))" and "length d < 2 ^ 31"
  shows "decode_items decode (It d k) =
    Ret (vs, It d (k + length (ber_octets t (concat (map repr vs)))))"
proof -
  let ?n = "length (concat (map repr vs))"
  let ?l = "ber_length (of_nat ?n)"
  let ?j = "Suc k + length ?l"
  from assms(2) have at: "bytes_at d k (ber_header (t, Some (of_nat ?n)))"
    "bytes_at d ?j (concat (map repr vs))"
    by (simp_all add: ber_octets_def ber_header_def ber_optional_length_def del: length_concat)
  have header: "decodeSequenceTypeAndLength (It d k) = Ret ((t, Some (of_nat ?n)), It d ?j)"
    using header_format.decodes [OF TrueI at(1) assms(3)]
    by (simp add: ber_header_def ber_optional_length_def del: length_concat)
  have fits: "?j + ?n \<le> length d" by (rule bytes_at_length [OF at(2)])
  then have "unat (of_nat ?n :: u64) = ?n"
    using assms(3) by (intro unat_of_nat_u64) simp
  then have "int_of_size (of_nat ?n) = int ?n"
    using fits assms(3) int_of_size_small [of "of_nat ?n"] by (simp del: length_concat)
  then have "plus_int (It d ?j) (int_of_size (of_nat ?n)) = Ret (It d (?j + ?n))"
    using fits by (simp del: length_concat)
  from items_loop_decodes [OF this assms(3,1) at(2)] header show ?thesis
    by (simp add: decode_items_def ber_octets_def del: length_concat)
qed

end

section \<open>Bindings\<close>

definition ber_varbind :: "oid \<times> snmp_value \<Rightarrow> bytes" where
  "ber_varbind b = ber_octets 0x30 (ber_oid (fst b) @ ber (snd b))"

definition decodable_varbind :: "oid \<times> snmp_value \<Rightarrow> bool" where
  "decodable_varbind b \<longleftrightarrow> encodable_oid (fst b) \<and> decodable (snd b)"

fun decodable_var :: "snmp_var \<Rightarrow> bool" where
  "decodable_var (SnmpVar x v) \<longleftrightarrow> encodable_oid x \<and> decodable v"
| "decodable_var v \<longleftrightarrow> encodable_oid (var_oid v)"

lemma ber_varbind_not_Nil [simp]: "ber_varbind b \<noteq> []"
  by (simp add: ber_varbind_def)

lemma ber_var_not_Nil [simp]: "ber_var v \<noteq> []"
  by (cases v) simp_all

lemma varbind_bytes:
  assumes "bytes_at d k (ber_octets t (ber_oid x @ xs))" and "encodable_oid x" and d: "length d < 2 ^ 31"
  obtains i j l where "decodeSequenceTypeAndLength (It d k) = Ret ((t, Some l), It d i)"
    and "decodeLength (It d (Suc k)) = Ret (Some l, It d i)" and "Suc k < length d"
    and "decodeOidValue (It d i) = Ret (x, It d j)" and "bytes_at d j xs"
    and "j + length xs = k + length (ber_octets t (ber_oid x @ xs))"
    and "plus_int (It d i) (int_of_size l) = Ret (It d (j + length xs))"
proof -
  let ?l = "of_nat (length (ber_oid x @ xs)) :: u64"
  let ?i = "Suc k + length (ber_length ?l)"
  let ?j = "?i + length (ber_oid x)"
  from assms(1) have at: "bytes_at d k (ber_header (t, Some ?l))" "bytes_at d (Suc k) (ber_length ?l)"
    "bytes_at d ?i (ber_oid x)" "bytes_at d ?j xs"
    by (simp_all add: ber_octets_def ber_header_def ber_optional_length_def)
  show thesis
  proof (rule that)
    show "decodeSequenceTypeAndLength (It d k) = Ret ((t, Some ?l), It d ?i)"
      using header_format.decodes [OF TrueI at(1) d] by (simp add: ber_header_def ber_optional_length_def)
    show "decodeLength (It d (Suc k)) = Ret (Some ?l, It d ?i)"
      by (rule decodeLength_ber_length [OF at(2)])
    show "Suc k < length d" by (rule bytes_at_less [OF at(2)]) simp
    show "decodeOidValue (It d ?i) = Ret (x, It d ?j)"
      by (rule decodeOidValue_ber [OF assms(2) at(3) d])
    show "bytes_at d ?j xs" by (rule at(4))
    show "?j + length xs = k + length (ber_octets t (ber_oid x @ xs))"
      by (simp add: ber_octets_def)
    have fits: "?j + length xs \<le> length d" by (rule bytes_at_length [OF at(4)])
    then have "unat ?l = length (ber_oid x @ xs)"
      using d by (intro unat_of_nat_u64) simp
    then have "int_of_size ?l = int (length (ber_oid x @ xs))"
      using fits d by (subst int_of_size_small) simp_all
    then show "plus_int (It d ?i) (int_of_size ?l) = Ret (It d (?j + length xs))"
      using fits plus_int_eq [of ?i "length (ber_oid x @ xs)" d] by simp
  qed
qed

interpretation varbind_format: wire_format decodeVarBind ber_varbind decodable_varbind
proof
  fix b d k
  assume b: "decodable_varbind b" and at: "bytes_at d k (ber_varbind b)" and d: "length d < 2 ^ 31"
  from b have x: "encodable_oid (fst b)" "decodable (snd b)" by (simp_all add: decodable_varbind_def)
  obtain i j l where *: "decodeSequenceTypeAndLength (It d k) = Ret ((0x30, Some l), It d i)"
    "decodeOidValue (It d i) = Ret (fst b, It d j)" "bytes_at d j (ber (snd b))"
    "j + length (ber (snd b)) = k + length (ber_varbind b)"
    using varbind_bytes [OF at [unfolded ber_varbind_def] x(1) d] unfolding ber_varbind_def by blast
  then have "decodeValue (It d j) = Ret (snd b, It d (k + length (ber_varbind b)))"
    using decodeValue_ber [OF x(2) *(3) d] by simp
  with * show "decodeVarBind (It d k) = Ret (b, It d (k + length (ber_varbind b)))"
    by (simp add: decodeVarBind_def)
qed

lemma decodable_tag:
  "decodable v \<Longrightarrow> hd (ber v) \<notin> {0x80, 0x81, 0x82} \<and> ber v \<noteq> []"
  by (cases v) simp_all

interpretation var_format: wire_format decodeSnmpVar ber_var decodable_var
proof
  fix v d k
  assume v: "decodable_var v" and at: "bytes_at d k (ber_var v)" and d: "length d < 2 ^ 31"
  show "decodeSnmpVar (It d k) = Ret (v, It d (k + length (ber_var v)))"
  proof (cases v)
    case (SnmpVar x w)
    with v have x: "encodable_oid x" "decodable w" by simp_all
    from at SnmpVar have at': "bytes_at d k (ber_octets 0x30 (ber_oid x @ ber w))" by simp
    obtain i j l where *: "decodeSequenceTypeAndLength (It d k) = Ret ((0x30, Some l), It d i)"
      "decodeOidValue (It d i) = Ret (x, It d j)" "bytes_at d j (ber w)"
      "j + length (ber w) = k + length (ber_var v)"
      using varbind_bytes [OF at' x(1) d] unfolding SnmpVar ber_var.simps by blast
    moreover have "decodeValue (It d j) = Ret (w, It d (k + length (ber_var v)))"
      using decodeValue_ber [OF x(2) *(3) d] *(4) by simp
    moreover have "deref (It d j) = Ret (hd (ber w))" "hd (ber w) \<notin> {0x80, 0x81, 0x82}"
      using decodable_tag [OF x(2)] *(3) by (simp_all add: deref_at)
    ultimately show ?thesis by (simp add: decodeSnmpVar_def SnmpVar)
  next
    case (SnmpVarNoSuchObject x)
    with v at have x: "encodable_oid x" and at': "bytes_at d k (ber_octets 0x30 (ber_oid x @ [0x80, 0]))"
      by simp_all
    show ?thesis
      by (rule varbind_bytes [OF at' x d]) (simp add: decodeSnmpVar_def SnmpVarNoSuchObject)
  next
    case (SnmpVarNoSuchInstance x)
    with v at have x: "encodable_oid x" and at': "bytes_at d k (ber_octets 0x30 (ber_oid x @ [0x81, 0]))"
      by simp_all
    show ?thesis
      by (rule varbind_bytes [OF at' x d]) (simp add: decodeSnmpVar_def SnmpVarNoSuchInstance)
  next
    case (SnmpVarEndOfMibView x)
    with v at have x: "encodable_oid x" and at': "bytes_at d k (ber_octets 0x30 (ber_oid x @ [0x82, 0]))"
      by simp_all
    show ?thesis
      by (rule varbind_bytes [OF at' x d]) (simp add: decodeSnmpVar_def SnmpVarEndOfMibView)
  qed
qed

section \<open>Every input\<close>

text \<open>The loop ends when every item that is read ends further on.\<close>

lemma list_atEnd_not_Diverge: "list_atEnd len second at \<noteq> Diverge"
  by (auto simp: list_atEnd_def deref_def plus_int_def obind_eq_Diverge split: option.splits if_splits)

lemma items_loop_terminates:
  assumes item: "\<And>k. k \<le> length d \<Longrightarrow> reads (It d k) (item (It d k))" and "k \<le> length d"
  shows "items_loop item len second (xs, It d k) \<noteq> Diverge"
  unfolding items_loop_def
proof (rule owhile_terminates [where J = "\<lambda>(xs, at). \<exists>k \<le> length d. at = It d k"
      and f = "\<lambda>s. length d - it_at (snd s)"])
  show "case (xs, It d k) of (xs, at) \<Rightarrow> \<exists>k \<le> length d. at = It d k" using assms(2) by auto
  fix s :: "'a list \<times> DecodeIterator"
  assume "case s of (xs, at) \<Rightarrow> \<exists>k \<le> length d. at = It d k"
  then obtain ys j where s: "s = (ys, It d j)" "j \<le> length d" by (cases s) auto
  show "(case s of (values, at) \<Rightarrow> obind (list_atEnd len second at) (\<lambda>e. Ret (\<not> e))) \<noteq> Diverge"
    using list_atEnd_not_Diverge by (auto simp: obind_eq_Diverge split: prod.splits)
  show "(case s of (values, at) \<Rightarrow> obind (item at) (\<lambda>(v, at). Ret (values @ [v], at))) \<noteq> Diverge"
    using item [OF s(2)] by (auto simp: s reads_def obind_eq_Diverge)
  fix s'
  assume "(case s of (values, at) \<Rightarrow> obind (item at) (\<lambda>(v, at). Ret (values @ [v], at))) = Ret s'"
  then obtain v e where e: "item (It d j) = Ret (v, e)" "s' = (ys @ [v], e)" by (auto simp: s)
  from readsD [OF item [OF s(2)] e(1)] have "e = It d (it_at e)" "it_at e \<le> length d" "j < it_at e"
    by (cases e; simp add: in_range_def)+
  with e(2) show "(case s' of (xs, at) \<Rightarrow> \<exists>k \<le> length d. at = It d k) \<and>
      length d - it_at (snd s') < length d - it_at (snd s)"
    by (auto simp: s)
qed

text \<open>It does not end where an item ends at its own start.\<close>

lemma items_loop_diverges:
  assumes "item at = Ret (v, at)" and "list_atEnd len second at = Ret False"
  shows "items_loop item len second (xs, at) = Diverge"
  unfolding items_loop_def
  by (rule owhile_diverges [where J = "\<lambda>(ys, i). i = at"]) (use assms in auto)

end
