(* ===== verification/Messages.thy ===== *)
theory Messages
  imports VarList "HOL-Library.FSet" "HOL-Library.Finite_Map"
begin

text \<open>
  The messages of SNMPv1 and SNMPv2c as the structs of \<^verbatim>\<open>src/xju/snmp/*Request.hh\<close>, \<^verbatim>\<open>*Response.hh\<close>
  and \<^verbatim>\<open>*Trap.hh\<close> hold them, and their encoding: \<^verbatim>\<open>encode.cc\<close>, \<^verbatim>\<open>encodeSnmpV1Message.hcp\<close>,
  \<^verbatim>\<open>encodePDU.cc\<close>, \<^verbatim>\<open>makePDUSequence.hcp\<close>.  Each struct is a datatype with one constructor, the
  fields in the order of the C++ constructor's parameters.

  A \<^verbatim>\<open>std::set<Oid>\<close> is a finite set and a \<^verbatim>\<open>std::map<Oid,...>\<close> a finite map; both are iterated in the
  order of the identifiers (\<open>sorted_list_of_fset\<close>, \<open>sorted_list_of_fmap\<close>).  A community is its
  bytes; enumerations and \<^verbatim>\<open>int\<close>s are words of 32 bits, a \<^verbatim>\<open>RequestId\<close> and an \<^verbatim>\<open>ErrorIndex\<close> are words
  of 64 bits.
\<close>

section \<open>The structs\<close>

type_synonym community = bytes

datatype SnmpV1GetRequest = SnmpV1GetRequest community u64 "oid fset"
datatype SnmpV1SetRequest = SnmpV1SetRequest community u64 "(oid, snmp_value) fmap"
datatype SnmpV1GetNextRequest = SnmpV1GetNextRequest community u64 "oid list"
datatype SnmpV1Response = SnmpV1Response byte community u64 u32 u64 "(oid \<times> snmp_value) list"
datatype SnmpV1Trap = SnmpV1Trap community oid u32 u32 u32 u64 "(oid, snmp_value) fmap"
datatype SnmpV2cGetRequest = SnmpV2cGetRequest community u64 "oid fset"
datatype SnmpV2cGetNextRequest = SnmpV2cGetNextRequest community u64 "oid list"
datatype SnmpV2cGetBulkRequest = SnmpV2cGetBulkRequest community u64 "oid list" "u32 \<times> oid list"
datatype SnmpV2cSetRequest = SnmpV2cSetRequest community u64 "(oid, snmp_value) fmap"
datatype SnmpV2cResponse = SnmpV2cResponse byte community u64 u32 u64 "snmp_var list"
datatype SnmpV2cTrap = SnmpV2cTrap community u64 oid u64 "(oid \<times> snmp_value) list"

datatype PDU = PDU u64 u64 u64 "snmp_var list" byte

section \<open>Encoding\<close>

text \<open>What the \<^verbatim>\<open>encode\<close> functions end with.\<close>

definition encode_value :: "snmp_value \<Rightarrow> ('e, bytes) outcome" where
  "encode_value s = to_vector (encodedLength s) (encodeTo s)"

text \<open>The sequence \<^verbatim>\<open>s\<close> of the request encoders, with the two integers between the identifier of the
  request and its variables.\<close>

definition request_sequence ::
    "u64 \<Rightarrow> community \<Rightarrow> u64 \<Rightarrow> u64 \<Rightarrow> u64 \<Rightarrow> snmp_value list \<Rightarrow> byte \<Rightarrow> snmp_value" where
  "request_sequence version community requestId a b params type =
     Sequence
       [IntValue version,
        StringValue community,
        Sequence [IntValue requestId, IntValue a, IntValue b, Sequence params 0x30] type]
       0x30"

definition oid_param :: "oid \<Rightarrow> snmp_value" where
  "oid_param oid = Sequence [OidValue oid, NullValue] 0x30"

definition value_param :: "oid \<times> snmp_value \<Rightarrow> snmp_value" where
  "value_param x = Sequence [OidValue (fst x), snd x] 0x30"

fun encode_SnmpV1GetRequest :: "SnmpV1GetRequest \<Rightarrow> ('e, bytes) outcome" where
  "encode_SnmpV1GetRequest (SnmpV1GetRequest community requestId oids) =
     encode_value (request_sequence 0 community requestId 0 0 (map oid_param (sorted_list_of_fset oids)) 0xA0)"

fun encode_SnmpV1SetRequest :: "SnmpV1SetRequest \<Rightarrow> ('e, bytes) outcome" where
  "encode_SnmpV1SetRequest (SnmpV1SetRequest community requestId values) =
     encode_value (request_sequence 0 community requestId 0 0 (map value_param (sorted_list_of_fmap values)) 0xA3)"

fun encode_SnmpV1GetNextRequest :: "SnmpV1GetNextRequest \<Rightarrow> ('e, bytes) outcome" where
  "encode_SnmpV1GetNextRequest (SnmpV1GetNextRequest community requestId oids) =
     encode_value (request_sequence 0 community requestId 0 0 (map oid_param oids) 0xA1)"

fun encode_SnmpV1Trap :: "SnmpV1Trap \<Rightarrow> ('e, bytes) outcome" where
  "encode_SnmpV1Trap (SnmpV1Trap community trapType origin genericType specificType timestamp vars) =
     encode_value
       (Sequence
         [IntValue 0,
          StringValue community,
          Sequence
            [OidValue trapType,
             IPv4AddressValue origin,
             IntValue (scast genericType),
             IntValue (ucast specificType),
             TimeTicksValue timestamp,
             Sequence (map value_param (sorted_list_of_fmap vars)) 0x30]
            0xA4]
         0x30)"

fun encode_SnmpV2cGetRequest :: "SnmpV2cGetRequest \<Rightarrow> ('e, bytes) outcome" where
  "encode_SnmpV2cGetRequest (SnmpV2cGetRequest community requestId oids) =
     encode_value (request_sequence 1 community requestId 0 0 (map oid_param (sorted_list_of_fset oids)) 0xA0)"

fun encode_SnmpV2cGetNextRequest :: "SnmpV2cGetNextRequest \<Rightarrow> ('e, bytes) outcome" where
  "encode_SnmpV2cGetNextRequest (SnmpV2cGetNextRequest community requestId oids) =
     encode_value (request_sequence 1 community requestId 0 0 (map oid_param oids) 0xA1)"

fun encode_SnmpV2cGetBulkRequest :: "SnmpV2cGetBulkRequest \<Rightarrow> ('e, bytes) outcome" where
  "encode_SnmpV2cGetBulkRequest (SnmpV2cGetBulkRequest community requestId getNext (n, getNextN)) =
     encode_value (request_sequence 1 community requestId (of_nat (length getNext)) (ucast n)
       (map oid_param getNext @ map oid_param getNextN) 0xA5)"

fun encode_SnmpV2cSetRequest :: "SnmpV2cSetRequest \<Rightarrow> ('e, bytes) outcome" where
  "encode_SnmpV2cSetRequest (SnmpV2cSetRequest community requestId values) =
     encode_value (request_sequence 1 community requestId 0 0 (map value_param (sorted_list_of_fmap values)) 0xA3)"

text \<open>The two identifiers of the SNMPv2 trap's first variables, sysUpTime.0 and snmpTrapOID.0.\<close>

definition sysUpTime_oid :: oid where
  "sysUpTime_oid = Oid [1, 3, 6, 1, 2, 1, 1, 3, 0]"

definition snmpTrapOID_oid :: oid where
  "snmpTrapOID_oid = Oid [1, 3, 6, 1, 6, 3, 1, 1, 4, 1, 0]"

lemma trap_oids:
  "parseDottedOid ''.1.3.6.1.2.1.1.3.0'' = Ret (components sysUpTime_oid)"
  "parseDottedOid ''.1.3.6.1.6.3.1.1.4.1.0'' = Ret (components snmpTrapOID_oid)"
  by (rule parseDottedOid_toString; simp add: toString_def decimal.simps digit_char_def char_of_def bit_0
      sysUpTime_oid_def snmpTrapOID_oid_def)+

fun encode_SnmpV2cTrap :: "SnmpV2cTrap \<Rightarrow> ('e, bytes) outcome" where
  "encode_SnmpV2cTrap (SnmpV2cTrap community requestId trapType timestamp vars) =
     encode_value (request_sequence 1 community requestId 0 0
       ([Sequence [OidValue sysUpTime_oid, TimeTicksValue timestamp] 0x30,
         Sequence [OidValue snmpTrapOID_oid, OidValue trapType] 0x30] @
        map value_param vars) 0xA7)"

fun makePDUSequence :: "PDU \<Rightarrow> snmp_value" where
  "makePDUSequence (PDU requestId error errorIndex vars pduType) =
     Sequence [IntValue requestId, IntValue error, IntValue errorIndex, V2cSequence vars 0x30] pduType"

definition encodeSnmpV1Message ::
    "community \<Rightarrow> u64 \<Rightarrow> u64 \<Rightarrow> u64 \<Rightarrow> (oid \<times> snmp_value) list \<Rightarrow> byte \<Rightarrow> ('e, bytes) outcome" where
  "encodeSnmpV1Message community requestId error errorIndex vars pduType =
     encode_value
       (Sequence
         [IntValue 0,
          StringValue community,
          makePDUSequence (PDU requestId error errorIndex (map (\<lambda>v. SnmpVar (fst v) (snd v)) vars) pduType)]
         0x30)"

definition encodePDU ::
    "community \<Rightarrow> u64 \<Rightarrow> u64 \<Rightarrow> u64 \<Rightarrow> snmp_var list \<Rightarrow> byte \<Rightarrow> ('e, bytes) outcome" where
  "encodePDU community requestId error errorIndex vars pduType =
     encode_value
       (Sequence
         [IntValue 1,
          StringValue community,
          makePDUSequence (PDU requestId error errorIndex vars pduType)]
         0x30)"

text \<open>\<^verbatim>\<open>(uint64_t)response.error_\<close> extends the sign of the enumeration's \<^verbatim>\<open>int\<close>.\<close>

fun encode_SnmpV1Response :: "SnmpV1Response \<Rightarrow> ('e, bytes) outcome" where
  "encode_SnmpV1Response (SnmpV1Response responseType community requestId error errorIndex values) =
     encodeSnmpV1Message community requestId (scast error) errorIndex values 0xA2"

fun encode_SnmpV2cResponse :: "SnmpV2cResponse \<Rightarrow> ('e, bytes) outcome" where
  "encode_SnmpV2cResponse (SnmpV2cResponse responseType community requestId error errorIndex varResults) =
     encodePDU community requestId (scast error) errorIndex varResults 0xA2"

section \<open>What is encoded\<close>

text \<open>A message: version, community and the protocol data unit's type and content.\<close>

definition ber_message :: "u64 \<Rightarrow> community \<Rightarrow> byte \<Rightarrow> bytes \<Rightarrow> bytes" where
  "ber_message version community type content =
     ber_octets 0x30 (ber_int 2 version @ ber_octets 4 community @ ber_octets type content)"

definition ber_pdu_content :: "u64 \<Rightarrow> u64 \<Rightarrow> u64 \<Rightarrow> bytes \<Rightarrow> bytes" where
  "ber_pdu_content requestId a b vars = ber_int 2 requestId @ ber_int 2 a @ ber_int 2 b @ ber_octets 0x30 vars"

lemma encode_value_eq: "encode_value v = (if well_formed v then Ret (ber v) else Abort)"
  unfolding encode_value_def by (rule value_encoding.to_vector_encodes)

lemma ber_request_sequence:
  "ber (request_sequence version community requestId a b params type) =
    ber_message version community type (ber_pdu_content requestId a b (concat (map ber params)))"
  by (simp add: request_sequence_def ber_message_def ber_pdu_content_def)

lemma well_formed_request_sequence:
  "well_formed (request_sequence version community requestId a b params type) \<longleftrightarrow> list_all well_formed params"
  by (simp add: request_sequence_def)

lemma ber_value_param: "ber (value_param x) = ber_varbind x"
  by (simp add: value_param_def ber_varbind_def)

lemma ber_oid_param: "ber (oid_param x) = ber_varbind (x, NullValue)"
  by (simp add: oid_param_def ber_varbind_def)

lemma well_formed_params:
  "list_all well_formed (map oid_param oids) \<longleftrightarrow> list_all encodable_oid oids"
  "list_all well_formed (map value_param vars) \<longleftrightarrow>
    list_all (\<lambda>(x, v). encodable_oid x \<and> well_formed v) vars"
  by (simp_all add: list_all_iff oid_param_def value_param_def case_prod_unfold)

lemma ber_params:
  "concat (map ber (map oid_param oids)) = concat (map ber_varbind (map (\<lambda>x. (x, NullValue)) oids))"
  "concat (map ber (map value_param vars)) = concat (map ber_varbind vars)"
  by (simp_all add: comp_def ber_oid_param ber_value_param)

lemma fmap_of_sorted_list: "fmap_of_list (sorted_list_of_fmap m) = m"
  by (rule fmap_ext) (simp add: fmlookup_of_list)

lemma ber_varbind_SnmpVar: "ber_var (SnmpVar (fst v) (snd v)) = ber_varbind v"
  by (simp add: ber_varbind_def)

lemma encodePDU_eq:
  "encodePDU community requestId error errorIndex vars type =
    (if list_all well_formed_var vars
     then Ret (ber_message 1 community type (ber_pdu_content requestId error errorIndex (concat (map ber_var vars))))
     else Abort)"
  by (simp add: encodePDU_def encode_value_eq ber_message_def ber_pdu_content_def)

lemma encodeSnmpV1Message_eq:
  "encodeSnmpV1Message community requestId error errorIndex vars type =
    (if list_all (\<lambda>(x, v). encodable_oid x \<and> well_formed v) vars
     then Ret (ber_message 0 community type
       (ber_pdu_content requestId error errorIndex (concat (map ber_varbind vars))))
     else Abort)"
  by (simp add: encodeSnmpV1Message_def encode_value_eq ber_message_def ber_pdu_content_def
      comp_def list_all_iff case_prod_unfold ber_varbind_SnmpVar del: ber_var.simps)

end
