(* ===== verification/Accessors.thy ===== *)
theory Accessors
  imports Value
begin

text \<open>
  The checked conversions of \<^verbatim>\<open>src/xju/snmp/Value.cc\<close> and of the subclasses that override them
  (\<^verbatim>\<open>IntValue.cc\<close>, \<^verbatim>\<open>Counter32Value.cc\<close>, \<^verbatim>\<open>Gauge32Value.cc\<close>, \<^verbatim>\<open>Counter64Value.cc\<close>, \<^verbatim>\<open>StringValue.hh\<close>,
  \<^verbatim>\<open>OidValue.hh\<close>, \<^verbatim>\<open>TimeTicksValue.hh\<close>, \<^verbatim>\<open>OpaqueValue.hh\<close>): each either returns the number the value
  holds or throws.
\<close>

datatype access_error = WrongKind | TooBigToConvert | TooSmallToConvert

text \<open>The number an integer value holds: signed for \<^verbatim>\<open>IntValue\<close>, unsigned for the counters.\<close>

fun number :: "snmp_value \<Rightarrow> int option" where
  "number (IntValue v) = Some (sint v)"
| "number (Counter32Value c) = Some (uint c)"
| "number (Gauge32Value c) = Some (uint c)"
| "number (Counter64Value c) = Some (uint c)"
| "number v = None"

fun intValue :: "snmp_value \<Rightarrow> (access_error, 32 word) outcome" where
  "intValue (IntValue v) =
     (if sint v > 2147483647 then Throw TooBigToConvert
      else if sint v < -2147483648 then Throw TooSmallToConvert
      else Ret (ucast v))"
| "intValue (Counter32Value c) = (if c > 2147483647 then Throw TooBigToConvert else Ret c)"
| "intValue (Gauge32Value c) = (if c > 2147483647 then Throw TooBigToConvert else Ret c)"
| "intValue (Counter64Value c) = (if c > 2147483647 then Throw TooBigToConvert else Ret (ucast c))"
| "intValue v = Throw WrongKind"

fun uintValue :: "snmp_value \<Rightarrow> (access_error, 32 word) outcome" where
  "uintValue (IntValue v) =
     (if sint v > 4294967295 then Throw TooBigToConvert
      else if sint v < 0 then Throw TooSmallToConvert
      else Ret (ucast v))"
| "uintValue (Counter32Value c) = Ret c"
| "uintValue (Gauge32Value c) = Ret c"
| "uintValue (Counter64Value c) = (if c > 4294967295 then Throw TooBigToConvert else Ret (ucast c))"
| "uintValue v = Throw WrongKind"

fun longValue :: "snmp_value \<Rightarrow> (access_error, 64 word) outcome" where
  "longValue (IntValue v) =
     (if sint v > 9223372036854775807 then Throw TooBigToConvert
      else if sint v < -9223372036854775808 then Throw TooSmallToConvert
      else Ret v)"
| "longValue (Counter32Value c) =
     (if (ucast c :: u64) > 9223372036854775807 then Throw TooBigToConvert else Ret (ucast c))"
| "longValue (Gauge32Value c) =
     (if (ucast c :: u64) > 9223372036854775807 then Throw TooBigToConvert else Ret (ucast c))"
| "longValue (Counter64Value c) =
     (if c > 9223372036854775807 then Throw TooBigToConvert else Ret c)"
| "longValue v = Throw WrongKind"

text \<open>The first comparison of \<^verbatim>\<open>IntValue::ulongValue\<close>, \<^verbatim>\<open>val_ > ULONG_MAX\<close>, is unsigned.\<close>

fun ulongValue :: "snmp_value \<Rightarrow> (access_error, 64 word) outcome" where
  "ulongValue (IntValue v) =
     (if v > 0xffffffffffffffff then Throw TooBigToConvert
      else if sint v < 0 then Throw TooSmallToConvert
      else Ret v)"
| "ulongValue (Counter32Value c) = Ret (ucast c)"
| "ulongValue (Gauge32Value c) = Ret (ucast c)"
| "ulongValue (Counter64Value c) =
     (if c > 0xffffffffffffffff then Throw TooBigToConvert else Ret c)"
| "ulongValue v = Throw WrongKind"

fun stringValue :: "snmp_value \<Rightarrow> (access_error, bytes) outcome" where
  "stringValue (StringValue v) = Ret v"
| "stringValue v = Throw WrongKind"

fun opaqueValue :: "snmp_value \<Rightarrow> (access_error, bytes) outcome" where
  "opaqueValue (OpaqueValue v) = Ret v"
| "opaqueValue v = Throw WrongKind"

fun oidValue :: "snmp_value \<Rightarrow> (access_error, oid) outcome" where
  "oidValue (OidValue v) = Ret v"
| "oidValue v = Throw WrongKind"

fun timeTicksValue :: "snmp_value \<Rightarrow> (access_error, u64) outcome" where
  "timeTicksValue (TimeTicksValue v) = Ret v"
| "timeTicksValue v = Throw WrongKind"

section \<open>Exactness\<close>

definition in_bounds :: "int \<Rightarrow> int \<Rightarrow> int \<Rightarrow> bool" where
  "in_bounds lo hi n \<longleftrightarrow> lo \<le> n \<and> n \<le> hi"

lemma scast_u32: "scast (v :: u64) = (ucast v :: u32)"
  by (rule bit_word_eqI) (auto simp: bit_signed_iff bit_unsigned_iff min_def)

lemma sint_nonneg: "\<not> bit v 63 \<Longrightarrow> sint (v :: u64) = uint v"
proof -
  assume b: "\<not> bit v 63"
  have "n < 63" if "n < 64" "bit v n" for n
    using b that by (cases "n = 63") auto
  with b show ?thesis
    unfolding sint_uint
    by (simp add: signed_take_bit_eq_if_positive bit_uint_iff)
      (rule bit_eqI, auto simp: bit_take_bit_iff bit_uint_iff)
qed

lemma uint_u32_bounds: "0 \<le> uint (c :: u32) \<and> uint c \<le> 4294967295"
proof -
  have "uint c < 2 ^ LENGTH(32)" by (rule unsigned_less)
  then show ?thesis by simp
qed

lemma uint_u64_bounds: "0 \<le> uint (c :: u64) \<and> uint c \<le> 18446744073709551615"
proof -
  have "uint c < 2 ^ LENGTH(64)" by (rule unsigned_less)
  then show ?thesis by simp
qed

lemma neg_le_uint [simp]: "- numeral k \<le> uint (w :: 'a :: len word)"
  by (rule order_trans [of _ 0]) simp_all

lemma unat_u32_bound: "unat (c :: u32) \<le> 4294967295"
proof -
  have "unat c < 2 ^ LENGTH(32)" by (rule unsigned_less)
  then show ?thesis by simp
qed

lemma sint_u64_bounds:
  "- 9223372036854775808 \<le> sint (v :: u64) \<and> sint v \<le> 9223372036854775807"
  using sint_greater_eq [of v] sint_less [of v] by simp

text \<open>Each conversion returns the number the value holds when it lies in the target type, and throws
  otherwise.\<close>

definition exact ::
    "int \<Rightarrow> int \<Rightarrow> int option \<Rightarrow> (access_error, 'a :: len word) outcome \<Rightarrow> bool" where
  "exact lo hi n m \<longleftrightarrow> (case n of
     None \<Rightarrow> m = Throw WrongKind
   | Some n \<Rightarrow> if lo \<le> n \<and> n \<le> hi then m = Ret (word_of_int n)
       else m = Throw (if n < lo then TooSmallToConvert else TooBigToConvert))"

lemma intValue_exact: "exact (- 2147483648) 2147483647 (number v) (intValue v)"
proof (cases v)
  case (Counter32Value c)
  then show ?thesis using uint_u32_bounds [of c] by (auto simp: exact_def word_less_def)
next
  case (Gauge32Value c)
  then show ?thesis using uint_u32_bounds [of c] by (auto simp: exact_def word_less_def)
next
  case (Counter64Value c)
  then show ?thesis using uint_u64_bounds [of c] by (auto simp: exact_def word_less_def)
qed (auto simp: exact_def scast_u32)

lemma uintValue_exact: "exact 0 4294967295 (number v) (uintValue v)"
proof (cases v)
  case (Counter32Value c)
  then show ?thesis using uint_u32_bounds [of c] by (auto simp: exact_def)
next
  case (Gauge32Value c)
  then show ?thesis using uint_u32_bounds [of c] by (auto simp: exact_def)
next
  case (Counter64Value c)
  then show ?thesis using uint_u64_bounds [of c] by (auto simp: exact_def word_less_def)
qed (auto simp: exact_def scast_u32)

lemma longValue_exact:
  "exact (- 9223372036854775808) 9223372036854775807 (number v) (longValue v)"
proof (cases v)
  case (IntValue i)
  then show ?thesis using sint_u64_bounds [of i] by (auto simp: exact_def)
next
  case (Counter32Value c)
  then show ?thesis using uint_u32_bounds [of c] unat_u32_bound [of c]
    by (auto simp: exact_def word_less_nat_alt unat_ucast_up)
next
  case (Gauge32Value c)
  then show ?thesis using uint_u32_bounds [of c] unat_u32_bound [of c]
    by (auto simp: exact_def word_less_nat_alt unat_ucast_up)
next
  case (Counter64Value c)
  then show ?thesis using uint_u64_bounds [of c] by (auto simp: exact_def word_less_def)
qed (auto simp: exact_def)

lemma ulongValue_exact: "exact 0 18446744073709551615 (number v) (ulongValue v)"
proof (cases v)
  case (IntValue i)
  then show ?thesis using sint_u64_bounds [of i] uint_u64_bounds [of i]
    by (auto simp: exact_def word_less_def)
next
  case (Counter32Value c)
  then show ?thesis using uint_u32_bounds [of c] by (auto simp: exact_def)
next
  case (Gauge32Value c)
  then show ?thesis using uint_u32_bounds [of c] by (auto simp: exact_def)
next
  case (Counter64Value c)
  then show ?thesis using uint_u64_bounds [of c] by (auto simp: exact_def word_less_def)
qed (auto simp: exact_def)

end
