(* ===== verification/DecodeMessages.thy ===== *)
theory DecodeMessages
  imports Messages Accessors
begin

text \<open>
  The message decoders of SNMPv1 and SNMPv2c: \<^verbatim>\<open>src/xju/snmp/decodeSnmpV1*.cc\<close>,
  \<^verbatim>\<open>decodeSnmpV2c*.cc\<close> and \<^verbatim>\<open>decodePDU.hcp\<close>.  What all of them share is in \<open>decodeMessageHeader\<close>
  (from the outer sequence to the type of the protocol data unit), \<open>decodeThreeInts\<close> (the request's
  identifier and the two integers after it) and \<open>decode_items\<close> (the variables).
\<close>

section \<open>The decoders\<close>

definition decodeMessageHeader ::
    "(u64 \<Rightarrow> snmp_error) \<Rightarrow> u64 \<Rightarrow> bytes \<Rightarrow> (community \<times> byte) decoded" where
  "decodeMessageHeader versionError expected data =
     obind (decodeSequenceTypeAndLength (start_of data)) (\<lambda>((t, _), s1).
       if t \<noteq> 0x30 then Throw (NotSequence t)
       else
         obind (decodeIntValue s1 0x02) (\<lambda>(version, i).
           if version \<noteq> expected then Throw (versionError version)
           else
             obind (decodeStringValue i 0x04) (\<lambda>(community, i).
             obind (decodeSequenceTypeAndLength i) (\<lambda>((t2, _), i).
             Ret ((community, t2), i)))))"

definition decodeThreeInts :: "DecodeIterator \<Rightarrow> (u64 \<times> u64 \<times> u64) decoded" where
  "decodeThreeInts i =
     obind (decodeIntValue i 0x02) (\<lambda>(a, i).
     obind (decodeIntValue i 0x02) (\<lambda>(b, i).
     obind (decodeIntValue i 0x02) (\<lambda>(c, i).
     Ret ((a, b, c), i))))"

definition decodeSnmpV1GetRequest :: "bytes \<Rightarrow> (snmp_error, SnmpV1GetRequest \<times> oid list) outcome" where
  "decodeSnmpV1GetRequest data =
     obind (decodeMessageHeader (\<lambda>v. SnmpVersionMismatch v 0) 0 data) (\<lambda>((community, t), i).
       if t \<noteq> 0xA0 then Throw (RequestTypeMismatch t 0xA0)
       else
         obind (decodeThreeInts i) (\<lambda>((rid, errorStatus, ei), i).
         obind (decode_items decodeVarBind i) (\<lambda>(values, _).
           if errorStatus > 0x7fffffff then Throw (ErrorStatusTooBig errorStatus)
           else Ret (SnmpV1GetRequest community rid (fset_of_list (map fst values)), map fst values))))"

definition decodeSnmpV1SetRequest :: "bytes \<Rightarrow> (snmp_error, SnmpV1SetRequest \<times> oid list) outcome" where
  "decodeSnmpV1SetRequest data =
     obind (decodeMessageHeader (\<lambda>v. SnmpVersionMismatch v 0) 0 data) (\<lambda>((community, t), i).
       if t \<noteq> 0xA3 then Throw (RequestTypeMismatch t 0xA3)
       else
         obind (decodeThreeInts i) (\<lambda>((rid, errorStatus, ei), i).
         obind (decode_items decodeVarBind i) (\<lambda>(values, _).
           if errorStatus > 0x7fffffff then Throw (ErrorStatusTooBig errorStatus)
           else Ret (SnmpV1SetRequest community rid (fmap_of_list values), map fst values))))"

definition decodeSnmpV1GetNextRequest :: "bytes \<Rightarrow> (snmp_error, SnmpV1GetNextRequest) outcome" where
  "decodeSnmpV1GetNextRequest data =
     obind (decodeMessageHeader (\<lambda>v. SnmpVersionMismatch v 0) 0 data) (\<lambda>((community, t), i).
       if t \<noteq> 0xA1 then Throw (RequestTypeMismatch t 0xA1)
       else
         obind (decodeThreeInts i) (\<lambda>((rid, errorStatus, ei), i).
         obind (decode_items decodeVarBind i) (\<lambda>(values, _).
           if errorStatus > 0x7fffffff then Throw (ErrorStatusTooBig errorStatus)
           else Ret (SnmpV1GetNextRequest community rid (map fst values)))))"

definition decodeSnmpV1Response :: "bytes \<Rightarrow> (snmp_error, SnmpV1Response) outcome" where
  "decodeSnmpV1Response data =
     obind (decodeMessageHeader UnsupportedVersion 0 data) (\<lambda>((community, t), i).
     obind (decodeThreeInts i) (\<lambda>((rid, errorStatus, ei), i).
     obind (decode_items decodeVarBind i) (\<lambda>(values, _).
       if errorStatus > 0x7fffffff then Throw (ErrorStatusTooBig errorStatus)
       else Ret (SnmpV1Response t community rid (ucast errorStatus) ei values))))"

text \<open>The trap's variables go into a map as they are read: the first of several with one identifier
  stays.\<close>

definition decodeSnmpV1Trap :: "bytes \<Rightarrow> (snmp_error, SnmpV1Trap) outcome" where
  "decodeSnmpV1Trap data =
     obind (decodeMessageHeader (\<lambda>v. SnmpVersionMismatch v 0) 0 data) (\<lambda>((community, t), i).
       if t \<noteq> 0xA4 then Throw (RequestTypeMismatch t 0xA4)
       else
         obind (decodeOidValue i) (\<lambda>(trapType, i).
         obind (decodeIPv4AddressValue i) (\<lambda>(origin, i).
         obind (decodeIntValue i 0x02) (\<lambda>(generic, i).
         obind (decodeIntValue i 0x02) (\<lambda>(specific, i).
         obind (decodeTimeTicksValue i) (\<lambda>(sysUpTime, i).
         obind (decode_items decodeVarBind i) (\<lambda>(values, _).
         Ret (SnmpV1Trap community trapType origin (ucast generic) (ucast specific) sysUpTime
                (fmap_of_list values)))))))))"

definition decodeSnmpV2cGetRequest :: "bytes \<Rightarrow> (snmp_error, SnmpV2cGetRequest \<times> oid list) outcome" where
  "decodeSnmpV2cGetRequest data =
     obind (decodeMessageHeader (\<lambda>v. SnmpVersionMismatch v 1) 1 data) (\<lambda>((community, t), i).
       if t \<noteq> 0xA0 then Throw (RequestTypeMismatch t 0xA0)
       else
         obind (decodeThreeInts i) (\<lambda>((rid, errorStatus, ei), i).
         obind (decode_items decodeVarBind i) (\<lambda>(values, _).
           if errorStatus > 0x7fffffff then Throw (ErrorStatusTooBig errorStatus)
           else Ret (SnmpV2cGetRequest community rid (fset_of_list (map fst values)), map fst values))))"

definition decodeSnmpV2cGetNextRequest :: "bytes \<Rightarrow> (snmp_error, SnmpV2cGetNextRequest) outcome" where
  "decodeSnmpV2cGetNextRequest data =
     obind (decodeMessageHeader (\<lambda>v. SnmpVersionMismatch v 1) 1 data) (\<lambda>((community, t), i).
       if t \<noteq> 0xA1 then Throw (RequestTypeMismatch t 0xA1)
       else
         obind (decodeThreeInts i) (\<lambda>((rid, errorStatus, ei), i).
         obind (decode_items decodeVarBind i) (\<lambda>(values, _).
           if errorStatus > 0x7fffffff then Throw (ErrorStatusTooBig errorStatus)
           else Ret (SnmpV2cGetNextRequest community rid (map fst values)))))"

text \<open>The bulk request: the first identifiers are not repeated, as many as announced and there are.
  The number of repetitions is narrowed to 32 bits.\<close>

definition decodeSnmpV2cGetBulkRequest :: "bytes \<Rightarrow> (snmp_error, SnmpV2cGetBulkRequest) outcome" where
  "decodeSnmpV2cGetBulkRequest data =
     obind (decodeMessageHeader (\<lambda>v. SnmpVersionMismatch v 1) 1 data) (\<lambda>((community, t), i).
       if t \<noteq> 0xA5 then Throw (RequestTypeMismatch t 0xA5)
       else
         obind (decodeThreeInts i) (\<lambda>((rid, numberOfNonRepeaters, maxRep), i).
         obind (decode_items decodeVarBind i) (\<lambda>(values, _).
           let oids = map fst values;
               n = min (length oids) (unat numberOfNonRepeaters)
           in Ret (SnmpV2cGetBulkRequest community rid (take n oids) (ucast maxRep, drop n oids)))))"

definition decodeSnmpV2cSetRequest :: "bytes \<Rightarrow> (snmp_error, SnmpV2cSetRequest \<times> oid list) outcome" where
  "decodeSnmpV2cSetRequest data =
     obind (decodeMessageHeader (\<lambda>v. SnmpVersionMismatch v 1) 1 data) (\<lambda>((community, t), i).
       if t \<noteq> 0xA3 then Throw (RequestTypeMismatch t 0xA3)
       else
         obind (decodeThreeInts i) (\<lambda>((rid, errorStatus, ei), i).
         obind (decode_items decodeVarBind i) (\<lambda>(values, _).
         Ret (SnmpV2cSetRequest community rid (fmap_of_list values), map fst values))))"

definition decodeSnmpV2cResponse :: "bytes \<Rightarrow> (snmp_error, SnmpV2cResponse) outcome" where
  "decodeSnmpV2cResponse data =
     obind (decodeMessageHeader UnsupportedVersion 1 data) (\<lambda>((community, t), i).
     obind (decodeThreeInts i) (\<lambda>((rid, errorStatus, ei), i).
     obind (decode_items decodeSnmpVar i) (\<lambda>(varResults, _).
       if errorStatus > 0x7fffffff then Throw (ErrorStatusTooBig errorStatus)
       else Ret (SnmpV2cResponse t community rid (ucast errorStatus) ei varResults))))"

text \<open>The checked conversions of the trap's first two values throw a plain exception.\<close>

definition value_or :: "snmp_error \<Rightarrow> (access_error, 'a) outcome \<Rightarrow> (snmp_error, 'a) outcome" where
  "value_or e m = (case m of Ret x \<Rightarrow> Ret x | Throw _ \<Rightarrow> Throw e | Abort \<Rightarrow> Abort | Undef \<Rightarrow> Undef
     | Diverge \<Rightarrow> Diverge)"

definition trap_vars :: "(oid \<times> snmp_value) list \<Rightarrow> (snmp_error, u64 \<times> oid \<times> (oid \<times> snmp_value) list) outcome" where
  "trap_vars values =
     (if length values < 1 then Throw (TrapVars 0)
      else if fst (values ! 0) \<noteq> sysUpTime_oid then Throw (TrapVarOid 0)
      else
        obind (value_or NotTimeTicks (timeTicksValue (snd (values ! 0)))) (\<lambda>sysUpTime.
          if length values < 2 then Throw (TrapVars 1)
          else if fst (values ! 1) \<noteq> snmpTrapOID_oid then Throw (TrapVarOid 1)
          else
            obind (value_or NotOid (oidValue (snd (values ! 1)))) (\<lambda>trapType.
            Ret (sysUpTime, trapType, drop 2 values))))"

definition decodeSnmpV2cTrap :: "bytes \<Rightarrow> (snmp_error, SnmpV2cTrap) outcome" where
  "decodeSnmpV2cTrap data =
     obind (decodeMessageHeader (\<lambda>v. SnmpVersionMismatch v 1) 1 data) (\<lambda>((community, t), i).
       if t \<noteq> 0xA7 then Throw (RequestTypeMismatch t 0xA7)
       else
         obind (decodeThreeInts i) (\<lambda>((rid, errorStatus, ei), i).
         obind (decode_items decodeVarBind i) (\<lambda>(values, _).
           if errorStatus > 0x7fffffff then Throw (ErrorStatusTooBig errorStatus)
           else
             obind (trap_vars values) (\<lambda>(sysUpTime, trapType, vars).
             Ret (SnmpV2cTrap community rid trapType sysUpTime vars)))))"

definition decodePDU :: "DecodeIterator \<Rightarrow> PDU decoded" where
  "decodePDU at =
     obind (decodeSequenceTypeAndLength at) (\<lambda>((t, _), i).
     obind (decodeThreeInts i) (\<lambda>((requestId, errorStatus, ei), i).
     obind (decode_items decodeSnmpVar i) (\<lambda>(varResults, at).
       if errorStatus > 0x7fffffff then Throw (ErrorStatusTooBig errorStatus)
       else Ret (PDU requestId errorStatus ei varResults t, at))))"

section \<open>Reading what was written\<close>

lemma header_at:
  assumes "bytes_at d k (ber_octets t xs)" and "length d < 2 ^ 31"
  obtains l j where "decodeSequenceTypeAndLength (It d k) = Ret ((t, Some l), It d j)"
    and "bytes_at d j xs" and "j + length xs = k + length (ber_octets t xs)"
proof -
  let ?l = "of_nat (length xs) :: u64"
  from assms(1) have at: "bytes_at d k (ber_header (t, Some ?l))"
    "bytes_at d (Suc k + length (ber_length ?l)) xs"
    by (simp_all add: ber_octets_def ber_header_def ber_optional_length_def)
  show thesis
    by (rule that [OF _ at(2)])
      (use header_format.decodes [OF TrueI at(1) assms(2)] in
        \<open>simp_all add: ber_header_def ber_optional_length_def ber_octets_def\<close>)
qed

lemma decodeMessageHeader_ber:
  assumes "d = ber_message version community type content" and d: "length d < 2 ^ 31"
  obtains k where "decodeMessageHeader versionError version d = Ret ((community, type), It d k)"
    and "bytes_at d k content"
proof -
  from assms(1) have "bytes_at d 0 (ber_octets 0x30
      (ber_int 2 version @ ber_octets 4 community @ ber_octets type content))"
    using bytes_at_whole [of d] by (simp add: ber_message_def)
  from header_at [OF this d] obtain l j where
    s1: "decodeSequenceTypeAndLength (It d 0) = Ret ((0x30, Some l), It d j)"
    and at: "bytes_at d j (ber_int 2 version @ ber_octets 4 community @ ber_octets type content)"
    by blast
  let ?k = "j + length (ber_int 2 version) + length (ber_octets 4 community)"
  from at have at': "bytes_at d j (ber_int 2 version)"
    "bytes_at d (j + length (ber_int 2 version)) (ber_octets 4 community)"
    "bytes_at d ?k (ber_octets type content)" by (simp_all add: add.assoc)
  from header_at [OF at'(3) d] obtain l' k where
    s2: "decodeSequenceTypeAndLength (It d ?k) = Ret ((type, Some l'), It d k)" "bytes_at d k content"
    by blast
  show thesis
    by (rule that [OF _ s2(2)])
      (simp add: decodeMessageHeader_def start_of_def s1 s2 decodeIntValue_ber_int [OF at'(1)]
        decodeStringValue_ber_octets [OF at'(2) d])
qed

lemma decodeThreeInts_ber:
  assumes "bytes_at d k (ber_int 2 a @ ber_int 2 b @ ber_int 2 c)"
  shows "decodeThreeInts (It d k) =
    Ret ((a, b, c), It d (k + length (ber_int 2 a @ ber_int 2 b @ ber_int 2 c)))"
proof -
  let ?i = "k + length (ber_int 2 a)"
  let ?j = "?i + length (ber_int 2 b)"
  from assms have at: "bytes_at d k (ber_int 2 a)" "bytes_at d ?i (ber_int 2 b)" "bytes_at d ?j (ber_int 2 c)"
    by (simp_all add: add.assoc)
  show ?thesis
    by (simp add: decodeThreeInts_def decodeIntValue_ber_int [OF at(1)] decodeIntValue_ber_int [OF at(2)]
        decodeIntValue_ber_int [OF at(3)] add.assoc [symmetric])
qed

lemma decode_pdu_content:
  assumes "bytes_at d k (ber_pdu_content a b c xs)"
  obtains i where "decodeThreeInts (It d k) = Ret ((a, b, c), It d i)"
    and "bytes_at d i (ber_octets 0x30 xs)"
    and "i + length (ber_octets 0x30 xs) = k + length (ber_pdu_content a b c xs)"
proof (rule that)
  show "decodeThreeInts (It d k) =
      Ret ((a, b, c), It d (k + length (ber_int 2 a @ ber_int 2 b @ ber_int 2 c)))"
    using assms by (intro decodeThreeInts_ber) (simp add: ber_pdu_content_def)
qed (use assms in \<open>simp_all add: ber_pdu_content_def add.assoc\<close>)

text \<open>The whole of a message with three integers and a list of variables.\<close>

lemma decode_message:
  assumes d: "d = ber_message version community t (ber_pdu_content a b c (concat (map ber_varbind vs)))"
    and len: "length d < 2 ^ 31" and vs: "list_all decodable_varbind vs"
  obtains i j e where "decodeMessageHeader versionError version d = Ret ((community, t), It d i)"
    and "decodeThreeInts (It d i) = Ret ((a, b, c), It d j)"
    and "decode_items decodeVarBind (It d j) = Ret (vs, e)"
proof -
  from decodeMessageHeader_ber [OF d len, of versionError] obtain i where
    i: "decodeMessageHeader versionError version d = Ret ((community, t), It d i)"
    "bytes_at d i (ber_pdu_content a b c (concat (map ber_varbind vs)))" by blast
  from decode_pdu_content [OF i(2)] obtain j where
    j: "decodeThreeInts (It d i) = Ret ((a, b, c), It d j)"
    "bytes_at d j (ber_octets 0x30 (concat (map ber_varbind vs)))" by blast
  have "decode_items decodeVarBind (It d j) =
      Ret (vs, It d (j + length (ber_octets 0x30 (concat (map ber_varbind vs)))))"
    using vs by (intro varbind_format.decode_items_decodes [OF _ j(2) len]) (simp add: list_all_iff)
  from that [OF i(1) j(1) this] show thesis .
qed

lemma decode_var_message:
  assumes d: "d = ber_message version community t (ber_pdu_content a b c (concat (map ber_var vs)))"
    and len: "length d < 2 ^ 31" and vs: "list_all decodable_var vs"
  obtains i j e where "decodeMessageHeader versionError version d = Ret ((community, t), It d i)"
    and "decodeThreeInts (It d i) = Ret ((a, b, c), It d j)"
    and "decode_items decodeSnmpVar (It d j) = Ret (vs, e)"
proof -
  from decodeMessageHeader_ber [OF d len, of versionError] obtain i where
    i: "decodeMessageHeader versionError version d = Ret ((community, t), It d i)"
    "bytes_at d i (ber_pdu_content a b c (concat (map ber_var vs)))" by blast
  from decode_pdu_content [OF i(2)] obtain j where
    j: "decodeThreeInts (It d i) = Ret ((a, b, c), It d j)"
    "bytes_at d j (ber_octets 0x30 (concat (map ber_var vs)))" by blast
  have "decode_items decodeSnmpVar (It d j) =
      Ret (vs, It d (j + length (ber_octets 0x30 (concat (map ber_var vs)))))"
    using vs by (intro var_format.decode_items_decodes [OF _ j(2) len]) (simp add: list_all_iff)
  from that [OF i(1) j(1) this] show thesis .
qed

text \<open>What the encoders of the messages return.\<close>

definition null_vars :: "oid list \<Rightarrow> (oid \<times> snmp_value) list" where
  "null_vars oids = map (\<lambda>x. (x, NullValue)) oids"

lemma null_vars_fst [simp]: "map fst (null_vars oids) = oids"
  by (simp add: null_vars_def comp_def)

lemma length_null_vars [simp]: "length (null_vars oids) = length oids"
  by (simp add: null_vars_def)

lemma decodable_null_vars: "list_all encodable_oid oids \<Longrightarrow> list_all decodable_varbind (null_vars oids)"
  by (simp add: null_vars_def decodable_varbind_def list_all_iff)

lemma encode_oids:
  "encode_value (request_sequence version community rid a b (map oid_param oids) t) =
    (if list_all encodable_oid oids
     then Ret (ber_message version community t
       (ber_pdu_content rid a b (concat (map ber_varbind (null_vars oids)))))
     else Abort)"
  unfolding encode_value_eq well_formed_request_sequence ber_request_sequence well_formed_params
    ber_params null_vars_def ..

lemma encode_values:
  "encode_value (request_sequence version community rid a b (map value_param vars) t) =
    (if list_all (\<lambda>(x, v). encodable_oid x \<and> well_formed v) vars
     then Ret (ber_message version community t
       (ber_pdu_content rid a b (concat (map ber_varbind vars))))
     else Abort)"
  unfolding encode_value_eq well_formed_request_sequence ber_request_sequence well_formed_params
    ber_params ..

lemma decodable_values_well_formed:
  "list_all decodable_varbind vars \<Longrightarrow> list_all (\<lambda>(x, v). encodable_oid x \<and> well_formed v) vars"
  by (auto simp: list_all_iff decodable_varbind_def decodable_well_formed)

end
