(* ===== verification/RoundTrip.thy ===== *)
theory RoundTrip
  imports DecodeMessages
begin

text \<open>
  What one side encodes the other decodes: for every message of \<^verbatim>\<open>src/xju/snmp/encode.cc\<close>, the decoder
  applied to the encoder's result returns the message.  Encodings of \<open>2 ^ 31\<close> bytes or more are
  excluded (\<open>wire_format\<close>), values must be decodable ones.
\<close>

lemma encode_oids_Ret:
  assumes "encode_value (request_sequence version community rid a b (map oid_param oids) t) = Ret d"
  shows "d = ber_message version community t (ber_pdu_content rid a b (concat (map ber_varbind (null_vars oids))))"
    and "list_all decodable_varbind (null_vars oids)"
  using assms by (auto simp: encode_oids decodable_null_vars split: if_splits)

lemma encode_values_Ret:
  assumes "encode_value (request_sequence version community rid a b (map value_param vars) t) = Ret d"
  shows "d = ber_message version community t (ber_pdu_content rid a b (concat (map ber_varbind vars)))"
  using assms by (auto simp: encode_values split: if_splits)

lemma SnmpV1GetRequest_decodes:
  assumes "encode_SnmpV1GetRequest (SnmpV1GetRequest community rid oids) = Ret d"
    and len: "length d < 2 ^ 31"
  shows "decodeSnmpV1GetRequest d = Ret (SnmpV1GetRequest community rid oids, sorted_list_of_fset oids)"
proof -
  note d = encode_oids_Ret [OF assms(1) [unfolded encode_SnmpV1GetRequest.simps]]
  show ?thesis
    by (rule decode_message [OF d(1) len d(2), of "\<lambda>v. SnmpVersionMismatch v 0"])
      (simp add: decodeSnmpV1GetRequest_def del: fset_of_list_map)
qed

lemma SnmpV2cGetRequest_decodes:
  assumes "encode_SnmpV2cGetRequest (SnmpV2cGetRequest community rid oids) = Ret d"
    and len: "length d < 2 ^ 31"
  shows "decodeSnmpV2cGetRequest d = Ret (SnmpV2cGetRequest community rid oids, sorted_list_of_fset oids)"
proof -
  note d = encode_oids_Ret [OF assms(1) [unfolded encode_SnmpV2cGetRequest.simps]]
  show ?thesis
    by (rule decode_message [OF d(1) len d(2), of "\<lambda>v. SnmpVersionMismatch v 1"])
      (simp add: decodeSnmpV2cGetRequest_def del: fset_of_list_map)
qed

lemma SnmpV1GetNextRequest_decodes:
  assumes "encode_SnmpV1GetNextRequest (SnmpV1GetNextRequest community rid oids) = Ret d"
    and len: "length d < 2 ^ 31"
  shows "decodeSnmpV1GetNextRequest d = Ret (SnmpV1GetNextRequest community rid oids)"
proof -
  note d = encode_oids_Ret [OF assms(1) [unfolded encode_SnmpV1GetNextRequest.simps]]
  show ?thesis
    by (rule decode_message [OF d(1) len d(2), of "\<lambda>v. SnmpVersionMismatch v 0"])
      (simp add: decodeSnmpV1GetNextRequest_def)
qed

lemma SnmpV2cGetNextRequest_decodes:
  assumes "encode_SnmpV2cGetNextRequest (SnmpV2cGetNextRequest community rid oids) = Ret d"
    and len: "length d < 2 ^ 31"
  shows "decodeSnmpV2cGetNextRequest d = Ret (SnmpV2cGetNextRequest community rid oids)"
proof -
  note d = encode_oids_Ret [OF assms(1) [unfolded encode_SnmpV2cGetNextRequest.simps]]
  show ?thesis
    by (rule decode_message [OF d(1) len d(2), of "\<lambda>v. SnmpVersionMismatch v 1"])
      (simp add: decodeSnmpV2cGetNextRequest_def)
qed

lemma SnmpV2cGetBulkRequest_decodes:
  assumes "encode_SnmpV2cGetBulkRequest (SnmpV2cGetBulkRequest community rid getNext (n, getNextN)) = Ret d"
    and len: "length d < 2 ^ 31" and small: "length getNext < 2 ^ 64"
  shows "decodeSnmpV2cGetBulkRequest d =
    Ret (SnmpV2cGetBulkRequest community rid getNext (n, getNextN))"
proof -
  note d = encode_oids_Ret [where oids = "getNext @ getNextN", unfolded map_append,
      OF assms(1) [unfolded encode_SnmpV2cGetBulkRequest.simps]]
  have n: "unat (of_nat (length getNext) :: u64) = length getNext"
    using small by (rule unat_of_nat_u64)
  show ?thesis
    by (rule decode_message [OF d(1) len d(2), of "\<lambda>v. SnmpVersionMismatch v 1"])
      (simp add: decodeSnmpV2cGetBulkRequest_def Let_def n)
qed

lemma SnmpV1SetRequest_decodes:
  assumes "encode_SnmpV1SetRequest (SnmpV1SetRequest community rid values) = Ret d"
    and len: "length d < 2 ^ 31" and ok: "list_all decodable_varbind (sorted_list_of_fmap values)"
  shows "decodeSnmpV1SetRequest d =
    Ret (SnmpV1SetRequest community rid values, sorted_list_of_fset (fmdom values))"
proof -
  note d = encode_values_Ret [OF assms(1) [unfolded encode_SnmpV1SetRequest.simps]]
  show ?thesis
    by (rule decode_message [OF d len ok, of "\<lambda>v. SnmpVersionMismatch v 0"])
      (simp add: decodeSnmpV1SetRequest_def fmap_of_sorted_list, simp add: sorted_list_of_fmap_def comp_def)
qed

lemma SnmpV2cSetRequest_decodes:
  assumes "encode_SnmpV2cSetRequest (SnmpV2cSetRequest community rid values) = Ret d"
    and len: "length d < 2 ^ 31" and ok: "list_all decodable_varbind (sorted_list_of_fmap values)"
  shows "decodeSnmpV2cSetRequest d =
    Ret (SnmpV2cSetRequest community rid values, sorted_list_of_fset (fmdom values))"
proof -
  note d = encode_values_Ret [OF assms(1) [unfolded encode_SnmpV2cSetRequest.simps]]
  show ?thesis
    by (rule decode_message [OF d len ok, of "\<lambda>v. SnmpVersionMismatch v 1"])
      (simp add: decodeSnmpV2cSetRequest_def fmap_of_sorted_list, simp add: sorted_list_of_fmap_def comp_def)
qed

lemma ucast_scast: "ucast (scast (w :: u32) :: u64) = w"
proof (rule bit_word_eqI)
  fix n
  assume "n < LENGTH(32)"
  then have "n < 31 \<or> n = 31" by auto
  then show "bit (ucast (scast w :: u64) :: u32) n = bit w n"
    by (auto simp: bit_signed_iff bit_unsigned_iff min_def)
qed

text \<open>The error status of a response is an \<^verbatim>\<open>int\<close>; the decoders refuse the negative ones.\<close>

lemma error_status_bits:
  assumes "error \<le> (0x7fffffff :: u32)"
  shows "\<not> (0x7fffffff :: u64) < scast error" and "ucast (scast error :: u64) = error"
proof -
  have unat: "unat error \<le> 0x7fffffff" using assms by (simp add: word_le_nat_alt)
  have "\<not> bit error 31"
  proof
    assume "bit error 31"
    then have "bit (unat error) 31" by (simp add: bit_unsigned_iff)
    moreover have "take_bit 31 (unat error) = unat error"
      using unat by (intro take_bit_nat_eq_self) simp
    ultimately show False by (metis bit_take_bit_iff less_irrefl)
  qed
  have low: "n < 31" if "bit error n" for n
    using bit_imp_le_length [OF that] that \<open>\<not> bit error 31\<close> by (cases "n = 31") auto
  then have eq: "scast error = (ucast error :: u64)"
    using \<open>\<not> bit error 31\<close>
    by (intro bit_word_eqI) (auto simp: bit_signed_iff bit_unsigned_iff min_def dest: low)
  show "\<not> (0x7fffffff :: u64) < scast error"
    using unat by (simp add: eq word_less_nat_alt unat_ucast_up)
  show "ucast (scast error :: u64) = error"
    by (rule ucast_scast)
qed

lemma SnmpV1Response_decodes:
  assumes "encode_SnmpV1Response (SnmpV1Response responseType community rid error ei values) = Ret d"
    and len: "length d < 2 ^ 31" and ok: "list_all decodable_varbind values" and error: "error \<le> 0x7fffffff"
  shows "decodeSnmpV1Response d = Ret (SnmpV1Response 0xA2 community rid error ei values)"
proof -
  have d: "d = ber_message 0 community 0xA2
      (ber_pdu_content rid (scast error) ei (concat (map ber_varbind values)))"
    using assms(1) by (auto simp: encodeSnmpV1Message_eq split: if_splits)
  show ?thesis
    by (rule decode_message [OF d len ok, of UnsupportedVersion])
      (simp add: decodeSnmpV1Response_def error_status_bits [OF error])
qed

lemma SnmpV2cResponse_decodes:
  assumes "encode_SnmpV2cResponse (SnmpV2cResponse responseType community rid error ei vars) = Ret d"
    and len: "length d < 2 ^ 31" and ok: "list_all decodable_var vars" and error: "error \<le> 0x7fffffff"
  shows "decodeSnmpV2cResponse d = Ret (SnmpV2cResponse 0xA2 community rid error ei vars)"
proof -
  have d: "d = ber_message 1 community 0xA2
      (ber_pdu_content rid (scast error) ei (concat (map ber_var vars)))"
    using assms(1) by (auto simp: encodePDU_eq split: if_splits)
  show ?thesis
    by (rule decode_var_message [OF d len ok, of UnsupportedVersion])
      (simp add: decodeSnmpV2cResponse_def error_status_bits [OF error])
qed

lemma SnmpV2cTrap_decodes:
  assumes "encode_SnmpV2cTrap (SnmpV2cTrap community rid trapType timestamp vars) = Ret d"
    and len: "length d < 2 ^ 31" and ok: "list_all decodable_varbind vars"
    and ts: "ticks timestamp * 10 = timestamp"
  shows "decodeSnmpV2cTrap d = Ret (SnmpV2cTrap community rid trapType timestamp vars)"
proof -
  let ?vs = "(sysUpTime_oid, TimeTicksValue timestamp) # (snmpTrapOID_oid, OidValue trapType) # vars"
  have params: "[Sequence [OidValue sysUpTime_oid, TimeTicksValue timestamp] 0x30,
      Sequence [OidValue snmpTrapOID_oid, OidValue trapType] 0x30] @ map value_param vars
      = map value_param ?vs"
    by (simp add: value_param_def)
  note enc = assms(1) [unfolded encode_SnmpV2cTrap.simps params]
  note d = encode_values_Ret [OF enc]
  have "encodable_oid trapType"
    using enc unfolding encode_values by (auto split: if_splits)
  moreover have "encodable_oid sysUpTime_oid" "encodable_oid snmpTrapOID_oid"
    by (simp_all add: encodable_oid_def sysUpTime_oid_def snmpTrapOID_oid_def)
  ultimately have "list_all decodable_varbind ?vs"
    using ok ts by (simp add: decodable_varbind_def)
  note ok' = this
  show ?thesis
    by (rule decode_message [OF d len ok', of "\<lambda>v. SnmpVersionMismatch v 1"])
      (simp add: decodeSnmpV2cTrap_def trap_vars_def value_or_def)
qed

lemma SnmpV1Trap_decodes:
  assumes "encode_SnmpV1Trap (SnmpV1Trap community trapType origin generic specific timestamp vars) = Ret d"
    and len: "length d < 2 ^ 31" and ok: "list_all decodable_varbind (sorted_list_of_fmap vars)"
    and ts: "ticks timestamp * 10 = timestamp"
  shows "decodeSnmpV1Trap d =
    Ret (SnmpV1Trap community trapType origin generic specific timestamp vars)"
proof -
  let ?vs = "sorted_list_of_fmap vars"
  let ?vars = "ber_octets 0x30 (concat (map ber_varbind ?vs))"
  let ?ints = "ber_int 2 (scast generic) @ ber_int 2 (ucast specific) @ ber_int 0x43 (ticks timestamp)"
  have enc: "encodable_oid trapType" "d = ber_message 0 community 0xA4
      (ber_oid trapType @ ber_ipv4 origin @ ?ints @ ?vars)"
    using assms(1) by (auto simp: encode_value_eq ber_message_def comp_def ber_value_param split: if_splits)
  from decodeMessageHeader_ber [OF enc(2) len, of "\<lambda>v. SnmpVersionMismatch v 0"] obtain k where
    k: "decodeMessageHeader (\<lambda>v. SnmpVersionMismatch v 0) 0 d = Ret ((community, 0xA4), It d k)"
    and at: "bytes_at d k (ber_oid trapType @ ber_ipv4 origin @ ?ints @ ?vars)" by blast
  let ?k1 = "k + length (ber_oid trapType)"
  let ?k2 = "?k1 + length (ber_ipv4 origin)"
  let ?k3 = "?k2 + length (ber_int 2 (scast generic))"
  let ?k4 = "?k3 + length (ber_int 2 (ucast specific))"
  let ?k5 = "?k4 + length (ber_int 0x43 (ticks timestamp))"
  from at have at': "bytes_at d k (ber_oid trapType)" "bytes_at d ?k1 (ber_ipv4 origin)"
    "bytes_at d ?k2 (ber_int 2 (scast generic))" "bytes_at d ?k3 (ber_int 2 (ucast specific))"
    "bytes_at d ?k4 (ber_int 0x43 (ticks timestamp))" "bytes_at d ?k5 ?vars"
    by (simp_all add: add.assoc)
  have vars: "decode_items decodeVarBind (It d ?k5) = Ret (?vs, It d (?k5 + length ?vars))"
    using ok by (intro varbind_format.decode_items_decodes [OF _ at'(6) len]) (simp add: list_all_iff)
  with vars show ?thesis
    by (simp add: decodeSnmpV1Trap_def k decodeOidValue_ber [OF enc(1) at'(1) len]
        decodeIPv4AddressValue_ber [OF at'(2)] decodeIntValue_ber_int [OF at'(3)]
        decodeIntValue_ber_int [OF at'(4)] decodeTimeTicksValue_int decodeIntValue_ber_int [OF at'(5)]
        ts fmap_of_sorted_list ucast_scast)
qed

text \<open>The protocol data unit of SNMPv3 messages.\<close>

lemma decodePDU_decodes:
  assumes at: "bytes_at d k (ber (makePDUSequence (PDU rid error ei vars t)))" and len: "length d < 2 ^ 31"
    and ok: "list_all decodable_var vars" and error: "error \<le> 0x7fffffff"
  shows "decodePDU (It d k) = Ret (PDU rid error ei vars t,
    It d (k + length (ber (makePDUSequence (PDU rid error ei vars t)))))"
proof -
  have eq: "ber (makePDUSequence (PDU rid error ei vars t))
      = ber_octets t (ber_pdu_content rid error ei (concat (map ber_var vars)))"
    by (simp add: ber_pdu_content_def)
  from header_at [OF at [unfolded eq] len] obtain l j where
    j: "decodeSequenceTypeAndLength (It d k) = Ret ((t, Some l), It d j)"
    "bytes_at d j (ber_pdu_content rid error ei (concat (map ber_var vars)))"
    "j + length (ber_pdu_content rid error ei (concat (map ber_var vars)))
      = k + length (ber (makePDUSequence (PDU rid error ei vars t)))"
    unfolding eq by blast
  from decode_pdu_content [OF j(2)] obtain i where
    i: "decodeThreeInts (It d j) = Ret ((rid, error, ei), It d i)"
    "bytes_at d i (ber_octets 0x30 (concat (map ber_var vars)))"
    "i + length (ber_octets 0x30 (concat (map ber_var vars)))
      = j + length (ber_pdu_content rid error ei (concat (map ber_var vars)))" by blast
  have "decode_items decodeSnmpVar (It d i) =
      Ret (vars, It d (i + length (ber_octets 0x30 (concat (map ber_var vars)))))"
    using ok by (intro var_format.decode_items_decodes [OF _ i(2) len]) (simp add: list_all_iff)
  with i(1,3) j(1,3) error show ?thesis
    by (simp add: decodePDU_def not_less del: makePDUSequence.simps)
qed

end
