(* ===== verification/Validate.thy ===== *)
theory Validate
  imports Messages
begin

text \<open>
  \<^verbatim>\<open>src/xju/snmp/validateResponse.cc\<close>: matching a response with the request it answers.  One
  function per overload; \<^verbatim>\<open>getErrorOid\<close> finds the variable an error response is about.  The errors are
  the exception classes (\<^verbatim>\<open>NoSuchName.hh\<close> and its like) and, for the plain \<^verbatim>\<open>xju::Exception\<close>s,
  one constructor for each message, with the identifiers it lists.
\<close>

datatype validate_error =
    ResponseIdMismatch u64 u64
  | ResponseTypeMismatch byte byte
  | TooBig
  | NoSuchName oid
  | BadValue oid
  | ReadOnly oid
  | GenErr oid
  | NoAccess oid
  | WrongType oid
  | WrongLength oid
  | WrongEncoding oid
  | WrongValue oid
  | NoCreation oid
  | InconsistentValue oid
  | ResourceUnavailable oid
  | CommitFailed oid
  | UndoFailed
  | NotWritable oid
  | InconsistentName oid
  | EndOfMibView oid
  | UnknownErrorStatus u32
  | ErrorIndexZero
  | ErrorIndexBeyondResponse
  | ErrorIndexBeyondRequest
  | ErrorOidNotRequested oid
  | WrongOids "oid fset" "oid fset" "oid fset"
  | TooFewValues
  | TooManyValues
  | ShortRow nat

section \<open>The variable an error is about\<close>

definition getErrorOid :: "u64 \<Rightarrow> oid list \<Rightarrow> oid fset \<Rightarrow> (validate_error, oid) outcome" where
  "getErrorOid errorIndex responseOids requestOids =
     (if errorIndex = 0 then Throw ErrorIndexZero
      else
        let i = unat (errorIndex - 1)
        in if length responseOids \<le> i then Throw ErrorIndexBeyondResponse
           else if responseOids ! i |\<notin>| requestOids then Throw (ErrorOidNotRequested (responseOids ! i))
           else Ret (responseOids ! i))"

text \<open>The overload of the bulk request looks only at the request's own identifiers.\<close>

definition getRequestErrorOid :: "u64 \<Rightarrow> oid list \<Rightarrow> (validate_error, oid) outcome" where
  "getRequestErrorOid errorIndex requestOids =
     (if errorIndex = 0 then Throw ErrorIndexZero
      else
        let i = unat (errorIndex - 1)
        in if length requestOids \<le> i then Throw ErrorIndexBeyondRequest
           else Ret (requestOids ! i))"

text \<open>\<^verbatim>\<open>throw NoSuchName(getErrorOid(...))\<close> and the like.\<close>

definition throw_about :: "('b \<Rightarrow> 'e) \<Rightarrow> ('e, 'b) outcome \<Rightarrow> ('e, 'c) outcome" where
  "throw_about error m = obind m (\<lambda>x. Throw (error x))"

text \<open>What every overload begins with.\<close>

definition checkIdAndType :: "u64 \<Rightarrow> u64 \<Rightarrow> byte \<Rightarrow> (validate_error, unit) outcome" where
  "checkIdAndType request_id response_id responseType =
     (if request_id \<noteq> response_id then Throw (ResponseIdMismatch response_id request_id)
      else if responseType \<noteq> 0xA2 then Throw (ResponseTypeMismatch responseType 0xA2)
      else Ret ())"

section \<open>SNMPv1\<close>

fun validate_SnmpV1GetRequest ::
    "SnmpV1GetRequest \<Rightarrow> SnmpV1Response \<Rightarrow> (validate_error, (oid, snmp_value) fmap) outcome" where
  "validate_SnmpV1GetRequest (SnmpV1GetRequest _ request_id oids)
     (SnmpV1Response responseType _ response_id error errorIndex values) =
     obind (checkIdAndType request_id response_id responseType) (\<lambda>_.
     obind
       (if error = 0 then Ret ()
        else if error = 1 then Throw TooBig
        else if error = 2 then throw_about NoSuchName (getErrorOid errorIndex (map fst values) oids)
        else if error = 5 then throw_about GenErr (getErrorOid errorIndex (map fst values) oids)
        else Throw (UnknownErrorStatus error)) (\<lambda>_.
     let result = fmap_of_list values;
         missing = oids |-| fmdom result
     in if missing \<noteq> {||} then Throw (WrongOids missing {||} {||})
        else Ret result))"

fun validate_SnmpV1SetRequest ::
    "SnmpV1SetRequest \<Rightarrow> SnmpV1Response \<Rightarrow> (validate_error, unit) outcome" where
  "validate_SnmpV1SetRequest (SnmpV1SetRequest _ request_id request_values)
     (SnmpV1Response responseType _ response_id error errorIndex values) =
     (let about = (\<lambda>e. throw_about e (getErrorOid errorIndex (map fst values) (fmdom request_values)))
      in obind (checkIdAndType request_id response_id responseType) (\<lambda>_.
         obind
           (if error = 0 then Ret ()
            else if error = 1 then Throw TooBig
            else if error = 2 then about NoSuchName
            else if error = 3 then about BadValue
            else if error = 4 then about ReadOnly
            else if error = 5 then about GenErr
            else Throw (UnknownErrorStatus error)) (\<lambda>_.
         let requestOids = fmdom request_values;
             responseOids = fset_of_list (map fst values);
             missing = requestOids |-| responseOids;
             extra = responseOids |-| requestOids
         in if missing \<noteq> {||} \<or> extra \<noteq> {||} then Throw (WrongOids missing extra {||})
            else Ret ())))"

text \<open>A \<^verbatim>\<open>NoSuchName\<close> becomes a row whose identifiers are all .1.3, the end of the table
  (\<open>Tables\<close>).\<close>

definition end_oid :: oid where
  "end_oid = Oid [1, 3]"

fun validate_SnmpV1GetNextRequest ::
    "SnmpV1GetNextRequest \<Rightarrow> SnmpV1Response \<Rightarrow> (validate_error, (oid \<times> snmp_value) list) outcome" where
  "validate_SnmpV1GetNextRequest (SnmpV1GetNextRequest _ request_id oids)
     (SnmpV1Response responseType _ response_id error errorIndex values) =
     obind (checkIdAndType request_id response_id responseType) (\<lambda>_.
       if error = 0 then
         (if length values < length oids then Throw TooFewValues
          else if length values > length oids then Throw TooManyValues
          else Ret values)
       else if error = 1 then Throw TooBig
       else if error = 2 then Ret (map (\<lambda>x. (end_oid, NullValue)) oids)
       else if error = 5 then
         (if errorIndex = 0 then Throw ErrorIndexZero
          else
            let i = unat (errorIndex - 1)
            in if length values \<le> i then Throw ErrorIndexBeyondResponse
               else if length oids \<le> i then Throw ErrorIndexBeyondRequest
               else Throw (GenErr (oids ! i)))
       else Throw (UnknownErrorStatus error))"

section \<open>SNMPv2c\<close>

text \<open>One response variable: tick it off the identifiers still missing, or note it as a duplicate or
  as one nobody asked for.\<close>

fun tick_off :: "oid fset \<Rightarrow> oid \<Rightarrow> oid fset \<times> oid fset \<times> oid fset \<Rightarrow> oid fset \<times> oid fset \<times> oid fset" where
  "tick_off oids x (missing, extra, duplicate) =
     (if x |\<in>| missing then (missing |-| {|x|}, extra, duplicate)
      else if x |\<in>| oids then (missing, extra, finsert x duplicate)
      else (missing, finsert x extra, duplicate))"

text \<open>The lambda that fills the result: \<^verbatim>\<open>x.value()\<close> throws \<^verbatim>\<open>EndOfMibView\<close> through, the other two
  conditions are caught.\<close>

fun result_entry :: "snmp_var \<Rightarrow> (validate_error, oid \<times> snmp_var) outcome" where
  "result_entry (SnmpVarEndOfMibView x) = Throw (EndOfMibView x)"
| "result_entry v = Ret (var_oid v, v)"

fun validate_SnmpV2cGetRequest ::
    "SnmpV2cGetRequest \<Rightarrow> SnmpV2cResponse \<Rightarrow> (validate_error, (oid, snmp_var) fmap) outcome" where
  "validate_SnmpV2cGetRequest (SnmpV2cGetRequest _ request_id oids)
     (SnmpV2cResponse responseType _ response_id error errorIndex varResults) =
     obind (checkIdAndType request_id response_id responseType) (\<lambda>_.
     obind
       (if error = 0 then Ret ()
        else if error = 1 then Throw TooBig
        else if error = 2 then throw_about NoSuchName (getErrorOid errorIndex (map var_oid varResults) oids)
        else if error = 5 then throw_about GenErr (getErrorOid errorIndex (map var_oid varResults) oids)
        else Throw (UnknownErrorStatus error)) (\<lambda>_.
     let (missing, extra, duplicate) =
           fold (\<lambda>v. tick_off oids (var_oid v)) varResults (oids, {||}, {||})
     in if missing \<noteq> {||} \<or> extra \<noteq> {||} \<or> duplicate \<noteq> {||}
        then Throw (WrongOids missing extra duplicate)
        else obind (omap result_entry varResults) (\<lambda>entries. Ret (fmap_of_list entries))))"

fun validate_SnmpV2cSetRequest ::
    "SnmpV2cSetRequest \<Rightarrow> SnmpV2cResponse \<Rightarrow> (validate_error, unit) outcome" where
  "validate_SnmpV2cSetRequest (SnmpV2cSetRequest _ request_id request_values)
     (SnmpV2cResponse responseType _ response_id error errorIndex varResults) =
     (let about = (\<lambda>e. throw_about e (getErrorOid errorIndex (map var_oid varResults) (fmdom request_values)))
      in obind (checkIdAndType request_id response_id responseType) (\<lambda>_.
         obind
           (if error = 0 then Ret ()
            else if error = 1 then Throw TooBig
            else if error = 2 then about NoSuchName
            else if error = 3 then about BadValue
            else if error = 4 then about ReadOnly
            else if error = 5 then about GenErr
            else if error = 6 then about NoAccess
            else if error = 7 then about WrongType
            else if error = 8 then about WrongLength
            else if error = 9 then about WrongEncoding
            else if error = 10 then about WrongValue
            else if error = 11 then about NoCreation
            else if error = 12 then about InconsistentValue
            else if error = 13 then about ResourceUnavailable
            else if error = 14 then about CommitFailed
            else if error = 15 then Throw UndoFailed
            else if error = 17 then about NotWritable
            else if error = 18 then about InconsistentName
            else Throw (UnknownErrorStatus error)) (\<lambda>_.
         let requestOids = fmdom request_values;
             responseOids = fset_of_list (map var_oid varResults);
             missing = requestOids |-| responseOids;
             extra = responseOids |-| requestOids
         in if missing \<noteq> {||} \<or> extra \<noteq> {||} then Throw (WrongOids missing extra {||})
            else Ret ())))"

fun validate_SnmpV2cGetNextRequest ::
    "SnmpV2cGetNextRequest \<Rightarrow> SnmpV2cResponse \<Rightarrow> (validate_error, snmp_var list) outcome" where
  "validate_SnmpV2cGetNextRequest (SnmpV2cGetNextRequest _ request_id oids)
     (SnmpV2cResponse responseType _ response_id error errorIndex varResults) =
     obind (checkIdAndType request_id response_id responseType) (\<lambda>_.
     obind
       (if error = 0 then Ret ()
        else if error = 1 then Throw TooBig
        else if error = 5 then
          throw_about GenErr (getErrorOid errorIndex (map var_oid varResults) (fset_of_list oids))
        else Throw (UnknownErrorStatus error)) (\<lambda>_.
     if length varResults < length oids
     then Throw (WrongOids (fset_of_list (drop (length varResults) oids)) {||} {||})
     else if length varResults > length oids
     then Throw (WrongOids {||} (fset_of_list (map var_oid (drop (length oids) varResults))) {||})
     else Ret varResults))"

text \<open>The loop that cuts the variables after the first ones into rows of \<^verbatim>\<open>rowSize\<close>; \<open>vars\<close> are the
  variables from index \<^verbatim>\<open>n\<close> on, \<open>row\<close> is the number of the row.\<close>

function rows_loop :: "nat \<Rightarrow> nat \<Rightarrow> 'v list \<Rightarrow> (validate_error, 'v list list) outcome" where
  "rows_loop rowSize row vars =
     (if vars = [] then Ret []
      else if length vars < rowSize then Throw (ShortRow row)
      else if rowSize = 0 then Diverge
      else obind (rows_loop rowSize (row + 1) (drop rowSize vars)) (\<lambda>rows. Ret (take rowSize vars # rows)))"
  by pat_completeness auto
termination by (relation "measure (\<lambda>(_, _, vars). length vars)") auto

declare rows_loop.simps [simp del]

text \<open>\<^verbatim>\<open>values.insert\<close> keeps the first value of an identifier that is requested twice, as
  \<open>fmap_of_list\<close> does.\<close>

fun validate_SnmpV2cGetBulkRequest ::
    "SnmpV2cGetBulkRequest \<Rightarrow> SnmpV2cResponse \<Rightarrow>
      (validate_error, (oid, snmp_var) fmap \<times> snmp_var list list) outcome" where
  "validate_SnmpV2cGetBulkRequest (SnmpV2cGetBulkRequest _ request_id getNext (_, getNextN))
     (SnmpV2cResponse responseType _ response_id error errorIndex varResults) =
     obind (checkIdAndType request_id response_id responseType) (\<lambda>_.
     obind
       (if error = 0 then Ret ()
        else if error = 1 then Throw TooBig
        else if error = 5 then throw_about GenErr (getRequestErrorOid errorIndex (getNext @ getNextN))
        else Throw (UnknownErrorStatus error)) (\<lambda>_.
     if length varResults < length getNext then Throw TooFewValues
     else
       let values = fmap_of_list (zip getNext varResults);
           n = length getNext;
           rowSize = length getNextN
       in if rowSize = 0 \<and> n \<noteq> length varResults then Throw TooManyValues
          else obind (rows_loop rowSize 0 (drop n varResults)) (\<lambda>nextValues. Ret (values, nextValues))))"

section \<open>What the functions do\<close>

lemma getErrorOid_eq_Ret:
  "getErrorOid errorIndex responseOids requestOids = Ret x \<longleftrightarrow>
    0 < unat errorIndex \<and> unat errorIndex \<le> length responseOids \<and>
    x = responseOids ! (unat errorIndex - 1) \<and> x |\<in>| requestOids"
proof (cases "errorIndex = 0")
  case False
  then have "unat (errorIndex - 1) = unat errorIndex - 1" "0 < unat errorIndex"
    by (simp_all add: unat_minus_one unat_gt_0)
  then show ?thesis by (auto simp: getErrorOid_def Let_def)
qed (simp add: getErrorOid_def)

lemma getRequestErrorOid_eq_Ret:
  "getRequestErrorOid errorIndex oids = Ret x \<longleftrightarrow>
    0 < unat errorIndex \<and> unat errorIndex \<le> length oids \<and> x = oids ! (unat errorIndex - 1)"
proof (cases "errorIndex = 0")
  case False
  then have "unat (errorIndex - 1) = unat errorIndex - 1" "0 < unat errorIndex"
    by (simp_all add: unat_minus_one unat_gt_0)
  then show ?thesis by (auto simp: getRequestErrorOid_def Let_def)
qed (simp add: getRequestErrorOid_def)

lemma getErrorOid_well_behaved [simp]: "well_behaved (getErrorOid errorIndex xs oids)"
  by (simp add: getErrorOid_def well_behaved_def Let_def)

lemma getRequestErrorOid_well_behaved [simp]: "well_behaved (getRequestErrorOid errorIndex xs)"
  by (simp add: getRequestErrorOid_def well_behaved_def Let_def)

lemma throw_about_not_Ret [simp]: "throw_about e m \<noteq> Ret u"
  by (simp add: throw_about_def)

lemma obind_throw_about [simp]: "obind (throw_about e m) f = throw_about e m"
  by (simp add: throw_about_def obind_assoc)

lemma throw_about_Throw: "m = Ret x \<Longrightarrow> throw_about e m = Throw (e x)"
  by (simp add: throw_about_def)

lemma getErrorOid_Throw: "getErrorOid ei xs oids \<noteq> Throw (NoSuchName x)"
  by (auto simp: getErrorOid_def Let_def)

lemma throw_about_NoSuchName:
  "throw_about NoSuchName (getErrorOid ei xs oids) = Throw (NoSuchName x) \<longleftrightarrow> getErrorOid ei xs oids = Ret x"
  "throw_about GenErr (getErrorOid ei xs oids) \<noteq> Throw (NoSuchName x)"
  by (cases "getErrorOid ei xs oids"; use getErrorOid_Throw [of ei xs oids x] in \<open>auto simp: throw_about_def\<close>)+

lemma throw_about_well_behaved [simp]: "well_behaved m \<Longrightarrow> well_behaved (throw_about e m)"
  by (auto simp: throw_about_def well_behaved_def obind_eq_Abort obind_eq_Undef obind_eq_Diverge)

lemma checkIdAndType_eq_Ret [simp]:
  "checkIdAndType a b t = Ret u \<longleftrightarrow> a = b \<and> t = 0xA2"
  by (simp add: checkIdAndType_def)

lemma checkIdAndType_same [simp]: "checkIdAndType a a 0xA2 = Ret ()"
  by (simp add: checkIdAndType_def)

lemma checkIdAndType_well_behaved [simp]: "well_behaved (checkIdAndType a b t)"
  by (simp add: checkIdAndType_def well_behaved_def)

lemma ticked_off:
  "x |\<in>| M \<Longrightarrow>
    distinct xs \<and> fset_of_list xs = M |-| {|x|} \<longleftrightarrow> distinct (x # xs) \<and> fset_of_list (x # xs) = M"
  by (auto simp: fset_of_list_elem [symmetric])

lemma tick_off_fold:
  assumes "fold (\<lambda>v. tick_off oids (f v)) vs (M, E, D) = (M', E', D')" and "M |\<subseteq>| oids"
  shows "M' = {||} \<and> E' = {||} \<and> D' = {||} \<longleftrightarrow>
    E = {||} \<and> D = {||} \<and> distinct (map f vs) \<and> fset_of_list (map f vs) = M"
  using assms
proof (induction vs arbitrary: M E D)
  case (Cons v vs)
  show ?case
  proof (cases "f v |\<in>| M")
    case True
    then have "fold (\<lambda>v. tick_off oids (f v)) vs (M |-| {|f v|}, E, D) = (M', E', D')"
      using Cons.prems(1) by simp
    moreover have "M |-| {|f v|} |\<subseteq>| oids" using Cons.prems(2) by blast
    ultimately have "M' = {||} \<and> E' = {||} \<and> D' = {||} \<longleftrightarrow>
      E = {||} \<and> D = {||} \<and> distinct (map f vs) \<and> fset_of_list (map f vs) = M |-| {|f v|}"
      by (rule Cons.IH)
    then show ?thesis
      unfolding ticked_off [OF True] list.map by blast
  next
    case False
    then have "fset_of_list (map f (v # vs)) \<noteq> M" by auto
    moreover have "\<not> (M' = {||} \<and> E' = {||} \<and> D' = {||})"
    proof (cases "f v |\<in>| oids")
      case True
      with False Cons.prems Cons.IH [of M E "finsert (f v) D"] show ?thesis by simp
    next
      case out: False
      with False Cons.prems Cons.IH [of M "finsert (f v) E" D] show ?thesis by simp
    qed
    ultimately show ?thesis by blast
  qed
qed auto

lemma omap_result_entry:
  "omap result_entry vs =
    (if list_all (\<lambda>v. \<forall>x. v \<noteq> SnmpVarEndOfMibView x) vs then Ret (map (\<lambda>v. (var_oid v, v)) vs)
     else Throw (EndOfMibView (var_oid (the (find (\<lambda>v. \<exists>x. v = SnmpVarEndOfMibView x) vs)))))"
proof (induction vs)
  case (Cons v vs)
  then show ?case by (cases v) auto
qed simp

lemma rows_loop_Nil [simp]: "rows_loop n row [] = Ret []"
  by (subst rows_loop.simps) simp

lemma rows_loop_Cons:
  assumes "r \<noteq> []"
  shows "rows_loop (length r) row (r @ vs) = obind (rows_loop (length r) (row + 1) vs) (\<lambda>rows. Ret (r # rows))"
  using assms by (subst rows_loop.simps) simp

lemma rows_loop_eq_Ret:
  "rows_loop n row vs = Ret rows \<longleftrightarrow> concat rows = vs \<and> list_all (\<lambda>r. length r = n \<and> r \<noteq> []) rows"
proof (induction n row vs arbitrary: rows rule: rows_loop.induct)
  case (1 n row vs)
  show ?case
  proof
    assume *: "rows_loop n row vs = Ret rows"
    show "concat rows = vs \<and> list_all (\<lambda>r. length r = n \<and> r \<noteq> []) rows"
    proof (cases "vs = []")
      case False
      with * obtain rows' where "rows = take n vs # rows'" "n \<noteq> 0" "n \<le> length vs"
        "rows_loop n (row + 1) (drop n vs) = Ret rows'"
        by (subst (asm) rows_loop.simps) (auto split: if_splits)
      with 1 False show ?thesis by simp
    next
      case True
      with * show ?thesis by auto
    qed
  next
    assume *: "concat rows = vs \<and> list_all (\<lambda>r. length r = n \<and> r \<noteq> []) rows"
    show "rows_loop n row vs = Ret rows"
    proof (cases rows)
      case Nil
      with * show ?thesis by auto
    next
      case (Cons r rs)
      with * have r: "vs = r @ concat rs" "n = length r" "r \<noteq> []"
        "list_all (\<lambda>r. length r = n \<and> r \<noteq> []) rs" by auto
      then have "vs \<noteq> []" "n \<noteq> 0" "\<not> length vs < n" "drop n vs = concat rs" by auto
      with 1 [of rs] r(4) have "rows_loop n (row + 1) (concat rs) = Ret rs" by simp
      then show ?thesis using rows_loop_Cons [OF r(3), of row "concat rs"] r(1,2) Cons by simp
    qed
  qed
qed

lemma rows_loop_well_behaved: "0 < n \<or> vs = [] \<Longrightarrow> well_behaved (rows_loop n row vs)"
proof (induction n row vs rule: rows_loop.induct)
  case (1 n row vs)
  then show ?case
    by (subst rows_loop.simps)
      (auto simp: well_behaved_def obind_eq_Abort obind_eq_Undef obind_eq_Diverge)
qed

end
