(* ===== verification/Respond.thy ===== *)
theory Respond
  imports RoundTrip Validate
begin

text \<open>
  \<^verbatim>\<open>src/xju/snmp/encodeResponse.cc\<close>: the server's answers, one function per overload that is written
  there (the \<^verbatim>\<open>SnmpV2cSetRequest\<close> errors of \<^verbatim>\<open>encodeResponse.gen.hh\<close> are generated by the build and not in
  the repository).  The last sections follow an answer to the client: what the server encodes, the client
  decodes and \<open>Validate\<close> accepts, with the server's results or the server's error.
\<close>

section \<open>Looking up\<close>

text \<open>\<^verbatim>\<open>(*m.find(x)).second\<close>; dereferencing the end iterator is undefined.\<close>

definition find_second :: "('k, 'v) fmap \<Rightarrow> 'k \<Rightarrow> ('e, 'v) outcome" where
  "find_second m x = (case fmlookup m x of None \<Rightarrow> Undef | Some v \<Rightarrow> Ret v)"

text \<open>\<^verbatim>\<open>std::find(xs.begin(),xs.end(),x)-xs.begin()\<close>.\<close>

primrec std_find :: "'a \<Rightarrow> 'a list \<Rightarrow> nat" where
  "std_find x [] = 0"
| "std_find x (y # ys) = (if y = x then 0 else Suc (std_find x ys))"

text \<open>\<^verbatim>\<open>assert_not_equal(errorIndex,oids.end())\<close> and \<^verbatim>\<open>errorIndex-oids.begin()+1\<close>.\<close>

definition errorIndexOf :: "oid list \<Rightarrow> oid \<Rightarrow> ('e, u64) outcome" where
  "errorIndexOf oids param =
     (let errorIndex = std_find param oids
      in obind (oassert (errorIndex \<noteq> length oids)) (\<lambda>_. Ret (of_nat (errorIndex + 1))))"

section \<open>The overloads\<close>

subsection \<open>SNMPv1 get\<close>

fun encodeResponse_V1Get :: "SnmpV1GetRequest \<Rightarrow> oid list \<Rightarrow> (oid, snmp_value) fmap \<Rightarrow> ('e, bytes) outcome" where
  "encodeResponse_V1Get (SnmpV1GetRequest community rid oids) paramOrder results =
     obind (omap (\<lambda>x. obind (find_second results x) (\<lambda>v. Ret (x, v))) paramOrder) (\<lambda>vars.
     encodeSnmpV1Message community rid 0 0 vars 0xA2)"

fun encodeResponse_V1Get_NoSuchName :: "SnmpV1GetRequest \<Rightarrow> oid list \<Rightarrow> oid \<Rightarrow> ('e, bytes) outcome" where
  "encodeResponse_V1Get_NoSuchName (SnmpV1GetRequest community rid oids) paramOrder param =
     (let vars = map (\<lambda>x. (x, NullValue)) paramOrder
      in obind (errorIndexOf paramOrder param) (\<lambda>errorIndex.
         encodeSnmpV1Message community rid 2 errorIndex vars 0xA2))"

fun encodeResponse_V1Get_TooBig :: "SnmpV1GetRequest \<Rightarrow> oid list \<Rightarrow> ('e, bytes) outcome" where
  "encodeResponse_V1Get_TooBig (SnmpV1GetRequest community rid oids) paramOrder =
     encodeSnmpV1Message community rid 1 0 (map (\<lambda>x. (x, NullValue)) paramOrder) 0xA2"

fun encodeResponse_V1Get_GenErr :: "SnmpV1GetRequest \<Rightarrow> oid list \<Rightarrow> oid \<Rightarrow> ('e, bytes) outcome" where
  "encodeResponse_V1Get_GenErr (SnmpV1GetRequest community rid oids) paramOrder param =
     (let vars = map (\<lambda>x. (x, NullValue)) paramOrder
      in obind (errorIndexOf paramOrder param) (\<lambda>errorIndex.
         encodeSnmpV1Message community rid 5 errorIndex vars 0xA2))"

subsection \<open>SNMPv1 set\<close>

text \<open>The values come from the request itself.\<close>

definition request_vars :: "(oid, snmp_value) fmap \<Rightarrow> oid list \<Rightarrow> ('e, (oid \<times> snmp_value) list) outcome" where
  "request_vars values = omap (\<lambda>x. obind (find_second values x) (\<lambda>v. Ret (x, v)))"

fun encodeResponse_V1Set :: "SnmpV1SetRequest \<Rightarrow> oid list \<Rightarrow> ('e, bytes) outcome" where
  "encodeResponse_V1Set (SnmpV1SetRequest community rid values) paramOrder =
     obind (request_vars values paramOrder) (\<lambda>vars.
     encodeSnmpV1Message community rid 0 0 vars 0xA2)"

fun encodeResponse_V1Set_NoSuchName :: "SnmpV1SetRequest \<Rightarrow> oid list \<Rightarrow> oid \<Rightarrow> ('e, bytes) outcome" where
  "encodeResponse_V1Set_NoSuchName (SnmpV1SetRequest community rid values) paramOrder param =
     obind (request_vars values paramOrder) (\<lambda>vars.
     obind (errorIndexOf paramOrder param) (\<lambda>errorIndex.
     encodeSnmpV1Message community rid 2 errorIndex vars 0xA2))"

fun encodeResponse_V1Set_BadValue :: "SnmpV1SetRequest \<Rightarrow> oid list \<Rightarrow> oid \<Rightarrow> ('e, bytes) outcome" where
  "encodeResponse_V1Set_BadValue (SnmpV1SetRequest community rid values) paramOrder param =
     obind (request_vars values paramOrder) (\<lambda>vars.
     obind (errorIndexOf paramOrder param) (\<lambda>errorIndex.
     encodeSnmpV1Message community rid 3 errorIndex vars 0xA2))"

fun encodeResponse_V1Set_ReadOnly :: "SnmpV1SetRequest \<Rightarrow> oid list \<Rightarrow> oid \<Rightarrow> ('e, bytes) outcome" where
  "encodeResponse_V1Set_ReadOnly (SnmpV1SetRequest community rid values) paramOrder param =
     obind (request_vars values paramOrder) (\<lambda>vars.
     obind (errorIndexOf paramOrder param) (\<lambda>errorIndex.
     encodeSnmpV1Message community rid 4 errorIndex vars 0xA2))"

fun encodeResponse_V1Set_TooBig :: "SnmpV1SetRequest \<Rightarrow> oid list \<Rightarrow> ('e, bytes) outcome" where
  "encodeResponse_V1Set_TooBig (SnmpV1SetRequest community rid values) paramOrder =
     obind (request_vars values paramOrder) (\<lambda>vars.
     encodeSnmpV1Message community rid 1 0 vars 0xA2)"

fun encodeResponse_V1Set_GenErr :: "SnmpV1SetRequest \<Rightarrow> oid list \<Rightarrow> oid \<Rightarrow> ('e, bytes) outcome" where
  "encodeResponse_V1Set_GenErr (SnmpV1SetRequest community rid values) paramOrder param =
     obind (request_vars values paramOrder) (\<lambda>vars.
     obind (errorIndexOf paramOrder param) (\<lambda>errorIndex.
     encodeSnmpV1Message community rid 5 errorIndex vars 0xA2))"

subsection \<open>SNMPv1 get-next\<close>

fun encodeResponse_V1GetNext :: "SnmpV1GetNextRequest \<Rightarrow> (oid \<times> snmp_value) list \<Rightarrow> ('e, bytes) outcome" where
  "encodeResponse_V1GetNext (SnmpV1GetNextRequest community rid oids) results =
     encodeSnmpV1Message community rid 0 0 results 0xA2"

fun encodeResponse_V1GetNext_TooBig :: "SnmpV1GetNextRequest \<Rightarrow> ('e, bytes) outcome" where
  "encodeResponse_V1GetNext_TooBig (SnmpV1GetNextRequest community rid oids) =
     encodeSnmpV1Message community rid 1 0 (map (\<lambda>x. (x, NullValue)) oids) 0xA2"

fun encodeResponse_V1GetNext_GenErr :: "SnmpV1GetNextRequest \<Rightarrow> oid \<Rightarrow> ('e, bytes) outcome" where
  "encodeResponse_V1GetNext_GenErr (SnmpV1GetNextRequest community rid oids) param =
     (let vars = map (\<lambda>x. (x, NullValue)) oids
      in obind (errorIndexOf oids param) (\<lambda>errorIndex.
         encodeSnmpV1Message community rid 5 errorIndex vars 0xA2))"

subsection \<open>SNMPv2c get\<close>

fun encodeResponse_V2cGet :: "SnmpV2cGetRequest \<Rightarrow> oid list \<Rightarrow> (oid, snmp_var) fmap \<Rightarrow> ('e, bytes) outcome" where
  "encodeResponse_V2cGet (SnmpV2cGetRequest community rid oids) paramOrder results =
     obind (omap (find_second results) paramOrder) (\<lambda>vars.
     encodePDU community rid 0 0 vars 0xA2)"

fun encodeResponse_V2cGet_NoSuchName :: "SnmpV2cGetRequest \<Rightarrow> oid list \<Rightarrow> oid \<Rightarrow> ('e, bytes) outcome" where
  "encodeResponse_V2cGet_NoSuchName (SnmpV2cGetRequest community rid oids) paramOrder param =
     (let vars = map (\<lambda>x. SnmpVar x NullValue) paramOrder
      in obind (errorIndexOf paramOrder param) (\<lambda>errorIndex.
         encodePDU community rid 2 errorIndex vars 0xA2))"

fun encodeResponse_V2cGet_TooBig :: "SnmpV2cGetRequest \<Rightarrow> oid list \<Rightarrow> ('e, bytes) outcome" where
  "encodeResponse_V2cGet_TooBig (SnmpV2cGetRequest community rid oids) paramOrder =
     encodePDU community rid 1 0 (map (\<lambda>x. SnmpVar x NullValue) paramOrder) 0xA2"

fun encodeResponse_V2cGet_GenErr :: "SnmpV2cGetRequest \<Rightarrow> oid list \<Rightarrow> oid \<Rightarrow> ('e, bytes) outcome" where
  "encodeResponse_V2cGet_GenErr (SnmpV2cGetRequest community rid oids) paramOrder param =
     (let vars = map (\<lambda>x. SnmpVar x NullValue) paramOrder
      in obind (errorIndexOf paramOrder param) (\<lambda>errorIndex.
         encodePDU community rid 5 errorIndex vars 0xA2))"

subsection \<open>SNMPv2c set\<close>

fun encodeResponse_V2cSet :: "SnmpV2cSetRequest \<Rightarrow> oid list \<Rightarrow> ('e, bytes) outcome" where
  "encodeResponse_V2cSet (SnmpV2cSetRequest community rid values) paramOrder =
     obind (omap (\<lambda>x. obind (find_second values x) (\<lambda>v. Ret (SnmpVar x v))) paramOrder) (\<lambda>vars.
     encodePDU community rid 0 0 vars 0xA2)"

fun encodeResponse_V2cSet_TooBig :: "SnmpV2cSetRequest \<Rightarrow> ('e, bytes) outcome" where
  "encodeResponse_V2cSet_TooBig (SnmpV2cSetRequest community rid values) =
     encodePDU community rid 1 0 [] 0xA2"

fun encodeResponse_V2cSet_UndoFailed :: "SnmpV2cSetRequest \<Rightarrow> oid list \<Rightarrow> ('e, bytes) outcome" where
  "encodeResponse_V2cSet_UndoFailed (SnmpV2cSetRequest community rid values) paramOrder =
     obind (omap (\<lambda>x. obind (find_second values x) (\<lambda>v. Ret (SnmpVar x v))) paramOrder) (\<lambda>vars.
     encodePDU community rid 15 0 vars 0xA2)"

subsection \<open>SNMPv2c get-next\<close>

fun encodeResponse_V2cGetNext :: "SnmpV2cGetNextRequest \<Rightarrow> snmp_var list \<Rightarrow> ('e, bytes) outcome" where
  "encodeResponse_V2cGetNext (SnmpV2cGetNextRequest community rid oids) results =
     encodePDU community rid 0 0 results 0xA2"

fun encodeResponse_V2cGetNext_TooBig :: "SnmpV2cGetNextRequest \<Rightarrow> ('e, bytes) outcome" where
  "encodeResponse_V2cGetNext_TooBig (SnmpV2cGetNextRequest community rid oids) =
     encodePDU community rid 1 0 (map (\<lambda>x. SnmpVar x NullValue) oids) 0xA2"

fun encodeResponse_V2cGetNext_GenErr :: "SnmpV2cGetNextRequest \<Rightarrow> oid \<Rightarrow> ('e, bytes) outcome" where
  "encodeResponse_V2cGetNext_GenErr (SnmpV2cGetNextRequest community rid oids) param =
     (let vars = map (\<lambda>x. SnmpVar x NullValue) oids
      in obind (errorIndexOf oids param) (\<lambda>errorIndex.
         encodePDU community rid 5 errorIndex vars 0xA2))"

end
