(* ===== verification/Dialogue.thy ===== *)
theory Dialogue
  imports Respond
begin

text \<open>
  The client's and the server's side together: what \<open>Respond\<close> encodes, \<open>DecodeMessages\<close> decodes and
  \<open>Validate\<close> accepts.  A successful answer gives the client the server's results, an error answer makes
  \<^verbatim>\<open>validateResponse\<close> throw the server's error about the server's variable.
\<close>

section \<open>The position of a variable\<close>

lemma std_find_le: "std_find x xs \<le> length xs"
  by (induction xs) auto

lemma std_find_eq_length [simp]: "std_find x xs = length xs \<longleftrightarrow> x \<notin> set xs"
  by (induction xs) (auto dest: Suc_inject)

lemma std_find_less: "x \<in> set xs \<Longrightarrow> std_find x xs < length xs"
  using std_find_le [of x xs] std_find_eq_length [of x xs] by linarith

lemma nth_std_find: "x \<in> set xs \<Longrightarrow> xs ! std_find x xs = x"
  by (induction xs) auto

lemma errorIndexOf_eq:
  "errorIndexOf oids param =
    (if param \<in> set oids then Ret (of_nat (std_find param oids + 1)) else Abort)"
  by (simp add: errorIndexOf_def Let_def)

lemma unat_position:
  assumes "x \<in> set xs" and "length xs < 2 ^ 31"
  shows "unat (of_nat (std_find x xs + 1) :: u64) = std_find x xs + 1"
  using std_find_less [OF assms(1)] assms(2) by (intro unat_of_nat_u64) simp

lemma getErrorOid_position:
  assumes "x \<in> set xs" and "length xs < 2 ^ 31" and "x |\<in>| oids"
  shows "getErrorOid (of_nat (std_find x xs + 1)) xs oids = Ret x"
  unfolding getErrorOid_eq_Ret unat_position [OF assms(1,2)]
  using assms std_find_less [OF assms(1)] nth_std_find [OF assms(1)] by simp

section \<open>Answers arrive\<close>

lemma length_concat_ge: "(\<And>x. x \<in> set xs \<Longrightarrow> f x \<noteq> []) \<Longrightarrow> length xs \<le> length (concat (map f xs))"
proof (induction xs)
  case (Cons x xs)
  then have "Suc 0 \<le> length (f x)" "length xs \<le> length (concat (map f xs))"
    by (simp_all add: Suc_le_eq)
  then show ?case by simp
qed simp

lemma length_ber_octets_ge: "length xs \<le> length (ber_octets t xs)"
  by (simp add: ber_octets_def)

lemma length_ber_message_ge:
  "length vars \<le> length (ber_message version community t (ber_pdu_content rid a b vars))"
proof -
  have "length vars \<le> length (ber_octets 0x30 vars)" by (rule length_ber_octets_ge)
  also have "\<dots> \<le> length (ber_pdu_content rid a b vars)" by (simp add: ber_pdu_content_def)
  also have "\<dots> \<le> length (ber_octets t (ber_pdu_content rid a b vars))" by (rule length_ber_octets_ge)
  also have "\<dots> \<le> length (ber_int 2 version @ ber_octets 4 community @ ber_octets t (ber_pdu_content rid a b vars))"
    by simp
  also have "\<dots> \<le> length (ber_message version community t (ber_pdu_content rid a b vars))"
    unfolding ber_message_def by (rule length_ber_octets_ge)
  finally show ?thesis .
qed

lemma V1_answer:
  assumes d: "encodeSnmpV1Message community rid (scast error) ei vars 0xA2 = Ret d"
    and len: "length d < 2 ^ 31" and ok: "list_all decodable_varbind vars" and error: "error \<le> 0x7fffffff"
  shows "decodeSnmpV1Response d = Ret (SnmpV1Response 0xA2 community rid error ei vars)"
    and "length vars < 2 ^ 31"
proof -
  show "decodeSnmpV1Response d = Ret (SnmpV1Response 0xA2 community rid error ei vars)"
    using SnmpV1Response_decodes [OF _ len ok error] d by (metis encode_SnmpV1Response.simps)
  have "length vars \<le> length (concat (map ber_varbind vars))"
    by (rule length_concat_ge) simp
  also have "\<dots> \<le> length d"
    using d length_ber_message_ge by (auto simp: encodeSnmpV1Message_eq split: if_splits)
  finally show "length vars < 2 ^ 31" using len by simp
qed

lemma V2c_answer:
  assumes d: "encodePDU community rid (scast error) ei vars 0xA2 = Ret d"
    and len: "length d < 2 ^ 31" and ok: "list_all decodable_var vars" and error: "error \<le> 0x7fffffff"
  shows "decodeSnmpV2cResponse d = Ret (SnmpV2cResponse 0xA2 community rid error ei vars)"
    and "length vars < 2 ^ 31"
proof -
  show "decodeSnmpV2cResponse d = Ret (SnmpV2cResponse 0xA2 community rid error ei vars)"
    using SnmpV2cResponse_decodes [OF _ len ok error] d by (metis encode_SnmpV2cResponse.simps)
  have "length vars \<le> length (concat (map ber_var vars))"
    by (rule length_concat_ge) simp
  also have "\<dots> \<le> length d"
    using d length_ber_message_ge by (auto simp: encodePDU_eq split: if_splits)
  finally show "length vars < 2 ^ 31" using len by simp
qed

lemma error_words [simp]:
  "scast (1 :: u32) = (1 :: u64)" "scast (2 :: u32) = (2 :: u64)" "scast (3 :: u32) = (3 :: u64)"
  "scast (4 :: u32) = (4 :: u64)" "scast (5 :: u32) = (5 :: u64)" "scast (15 :: u32) = (15 :: u64)"
  by simp_all

lemma V1_error_answer:
  assumes d: "obind (errorIndexOf oids param) (\<lambda>ei. encodeSnmpV1Message community rid (scast error) ei vars 0xA2)
      = (Ret d :: ('e, bytes) outcome)"
    and len: "length d < 2 ^ 31" and ok: "list_all decodable_varbind vars" and error: "error \<le> 0x7fffffff"
    and oids: "map fst vars = oids"
  obtains ei where "decodeSnmpV1Response d = Ret (SnmpV1Response 0xA2 community rid error ei vars)"
    and "param \<in> set oids" and "ei = of_nat (std_find param oids + 1)" and "length oids < 2 ^ 31"
proof -
  let ?ei = "of_nat (std_find param oids + 1) :: u64"
  from d have *: "param \<in> set oids" "encodeSnmpV1Message community rid (scast error) ?ei vars 0xA2 = (Ret d :: ('e, bytes) outcome)"
    by (auto simp: errorIndexOf_eq split: if_splits)
  from oids have "length oids = length vars" by auto
  with V1_answer [OF *(2) len ok error] *(1) show thesis by (intro that) simp_all
qed

lemma V2c_error_answer:
  assumes d: "obind (errorIndexOf oids param) (\<lambda>ei. encodePDU community rid (scast error) ei vars 0xA2)
      = (Ret d :: ('e, bytes) outcome)"
    and len: "length d < 2 ^ 31" and ok: "list_all decodable_var vars" and error: "error \<le> 0x7fffffff"
    and oids: "map var_oid vars = oids"
  obtains ei where "decodeSnmpV2cResponse d = Ret (SnmpV2cResponse 0xA2 community rid error ei vars)"
    and "param \<in> set oids" and "ei = of_nat (std_find param oids + 1)" and "length oids < 2 ^ 31"
proof -
  let ?ei = "of_nat (std_find param oids + 1) :: u64"
  from d have *: "param \<in> set oids" "encodePDU community rid (scast error) ?ei vars 0xA2 = (Ret d :: ('e, bytes) outcome)"
    by (auto simp: errorIndexOf_eq split: if_splits)
  from oids have "length oids = length vars" by auto
  with V2c_answer [OF *(2) len ok error] *(1) show thesis by (intro that) simp_all
qed

section \<open>The variables of an answer\<close>

definition entries :: "('k, 'v) fmap \<Rightarrow> 'k list \<Rightarrow> ('k \<times> 'v) list" where
  "entries m xs = map (\<lambda>x. (x, the (fmlookup m x))) xs"

lemma find_second_eq:
  "find_second m x = (if x |\<in>| fmdom m then Ret (the (fmlookup m x)) else Undef)"
  by (auto simp: find_second_def fmdom_notD split: option.split)

lemma omap_find_second:
  "omap (\<lambda>x. obind (find_second m x) (\<lambda>v. Ret (f x v))) xs =
    (if set xs \<subseteq> fset (fmdom m) then Ret (map (\<lambda>(x, v). f x v) (entries m xs)) else Undef)"
  by (induction xs) (auto simp: entries_def find_second_eq)

lemma request_vars_eq:
  "request_vars m xs = (if set xs \<subseteq> fset (fmdom m) then Ret (entries m xs) else Undef)"
  unfolding request_vars_def omap_find_second by simp

lemma entries_fst [simp]: "map fst (entries m xs) = xs"
  by (simp add: entries_def comp_def)

lemma fmap_of_entries:
  assumes "set xs \<subseteq> fset (fmdom m)"
  shows "fmap_of_list (entries m xs) = fmrestrict_fset (fset_of_list xs) m"
proof (rule fmap_ext)
  fix x
  show "fmlookup (fmap_of_list (entries m xs)) x = fmlookup (fmrestrict_fset (fset_of_list xs) m) x"
  proof (cases "x \<in> set xs")
    case True
    with assms obtain v where v: "fmlookup m x = Some v" by (meson fmdomE subsetD)
    have "map_of (entries m xs) x = Some (the (fmlookup m x))"
      using True by (induction xs) (auto simp: entries_def)
    with True v show ?thesis by (simp add: fmlookup_of_list fset_of_list_elem)
  next
    case False
    then have "map_of (entries m xs) x = None"
      by (simp add: map_of_eq_None_iff image_iff entries_def)
    with False show ?thesis by (simp add: fmlookup_of_list fset_of_list_elem)
  qed
qed

lemma decodable_entries:
  assumes "fmpred (\<lambda>x v. decodable_varbind (x, v)) m" and "set xs \<subseteq> fset (fmdom m)"
  shows "list_all decodable_varbind (entries m xs)"
  using assms by (fastforce simp: list_all_iff entries_def fmpred_iff fmlookup_dom_iff)

section \<open>SNMPv1\<close>

lemma decodable_nulls:
  assumes "encodeSnmpV1Message community rid e ei (map (\<lambda>x. (x, NullValue)) oids) t = Ret d"
  shows "list_all decodable_varbind (map (\<lambda>x. (x, NullValue)) oids)"
  using assms by (auto simp: encodeSnmpV1Message_eq list_all_iff decodable_varbind_def split: if_splits)

lemma decodable_null_results:
  assumes "encodePDU community rid e ei (map (\<lambda>x. SnmpVar x NullValue) oids) t = Ret d"
  shows "list_all decodable_var (map (\<lambda>x. SnmpVar x NullValue) oids)"
  using assms by (auto simp: encodePDU_eq list_all_iff split: if_splits)

text \<open>The client's side of an answer: decode, then validate.\<close>

definition receives ::
    "(snmp_error, 'r) outcome \<Rightarrow> ('r \<Rightarrow> (validate_error, 'a) outcome) \<Rightarrow> (validate_error, 'a) outcome \<Rightarrow> bool" where
  "receives m validate result \<longleftrightarrow> (\<exists>r. m = Ret r \<and> validate r = result)"

lemma receives_Ret [simp]: "receives (Ret r) validate result \<longleftrightarrow> validate r = result"
  by (simp add: receives_def)

lemma V1Get_answered:
  assumes "encodeResponse_V1Get (SnmpV1GetRequest community rid oids) po results = (Ret d :: ('e, bytes) outcome)"
    and len: "length d < 2 ^ 31" and po: "fset_of_list po = oids"
    and ok: "fmpred (\<lambda>x v. decodable_varbind (x, v)) results"
  shows "receives (decodeSnmpV1Response d) (validate_SnmpV1GetRequest (SnmpV1GetRequest community rid oids))
    (Ret (fmrestrict_fset oids results))"
proof -
  from assms(1) have sub: "set po \<subseteq> fset (fmdom results)"
    and "encodeSnmpV1Message community rid (scast (0 :: u32)) 0 (entries results po) 0xA2 = (Ret d :: ('e, bytes) outcome)"
    by (auto simp: omap_find_second split: if_splits)
  from V1_answer(1) [OF this(2) len decodable_entries [OF ok sub]]
  have "decodeSnmpV1Response d = Ret (SnmpV1Response 0xA2 community rid 0 0 (entries results po))" by simp
  moreover have "oids |-| fmdom (fmrestrict_fset oids results) = {||}"
    using sub po by (fastforce simp: fset_of_list_elem fmlookup_dom_iff)
  ultimately show ?thesis
    by (simp add: fmap_of_entries [OF sub] po)
qed

lemma V1Get_error_answered:
  assumes "obind (errorIndexOf po param) (\<lambda>ei. encodeSnmpV1Message community rid (scast error) ei
      (map (\<lambda>x. (x, NullValue)) po) 0xA2) = (Ret d :: ('e, bytes) outcome)"
    and len: "length d < 2 ^ 31" and po: "fset_of_list po = oids" and error: "error \<le> 0x7fffffff"
  obtains ei where "decodeSnmpV1Response d =
      Ret (SnmpV1Response 0xA2 community rid error ei (map (\<lambda>x. (x, NullValue)) po))"
    and "getErrorOid ei po oids = Ret param"
proof -
  from assms(1) have "list_all decodable_varbind (map (\<lambda>x. (x, NullValue)) po)"
    by (auto intro: decodable_nulls)
  from V1_error_answer [OF assms(1) len this error] obtain ei where ei:
    "decodeSnmpV1Response d = Ret (SnmpV1Response 0xA2 community rid error ei (map (\<lambda>x. (x, NullValue)) po))"
    "param \<in> set po" "ei = of_nat (std_find param po + 1)" "length po < 2 ^ 31"
    by (auto simp: comp_def)
  from getErrorOid_position [OF ei(2,4)] ei(2) po
  have "getErrorOid ei po oids = Ret param" by (auto simp: ei(3) fset_of_list_elem)
  with ei(1) that show thesis by blast
qed

lemma V1Get_NoSuchName_answered:
  assumes "encodeResponse_V1Get_NoSuchName (SnmpV1GetRequest community rid oids) po param = (Ret d :: ('e, bytes) outcome)"
    and len: "length d < 2 ^ 31" and po: "fset_of_list po = oids"
  shows "receives (decodeSnmpV1Response d) (validate_SnmpV1GetRequest (SnmpV1GetRequest community rid oids))
    (Throw (NoSuchName param))"
  by (rule V1Get_error_answered [where error = 2, OF _ len po]) (use assms(1) in \<open>auto simp: throw_about_Throw comp_def\<close>)

lemma V1Get_GenErr_answered:
  assumes "encodeResponse_V1Get_GenErr (SnmpV1GetRequest community rid oids) po param = (Ret d :: ('e, bytes) outcome)"
    and len: "length d < 2 ^ 31" and po: "fset_of_list po = oids"
  shows "receives (decodeSnmpV1Response d) (validate_SnmpV1GetRequest (SnmpV1GetRequest community rid oids))
    (Throw (GenErr param))"
  by (rule V1Get_error_answered [where error = 5, OF _ len po]) (use assms(1) in \<open>auto simp: throw_about_Throw comp_def\<close>)

lemma V1Get_TooBig_answered:
  assumes "encodeResponse_V1Get_TooBig (SnmpV1GetRequest community rid oids) po = (Ret d :: ('e, bytes) outcome)"
    and len: "length d < 2 ^ 31"
  shows "receives (decodeSnmpV1Response d) (validate_SnmpV1GetRequest (SnmpV1GetRequest community rid oids))
    (Throw TooBig)"
proof -
  have d: "encodeSnmpV1Message community rid (scast (1 :: u32)) 0 (map (\<lambda>x. (x, NullValue)) po) 0xA2 = (Ret d :: ('e, bytes) outcome)"
    using assms(1) by simp
  from V1_answer(1) [OF d len decodable_nulls [OF d]] show ?thesis by simp
qed

text \<open>Set requests.\<close>

lemma V1Set_answered:
  assumes "encodeResponse_V1Set (SnmpV1SetRequest community rid values) po = (Ret d :: ('e, bytes) outcome)"
    and len: "length d < 2 ^ 31" and po: "fset_of_list po = fmdom values"
    and ok: "fmpred (\<lambda>x v. decodable_varbind (x, v)) values"
  shows "receives (decodeSnmpV1Response d) (validate_SnmpV1SetRequest (SnmpV1SetRequest community rid values))
    (Ret ())"
proof -
  from assms(1) have sub: "set po \<subseteq> fset (fmdom values)"
    and "encodeSnmpV1Message community rid (scast (0 :: u32)) 0 (entries values po) 0xA2 = (Ret d :: ('e, bytes) outcome)"
    by (auto simp: request_vars_eq split: if_splits)
  from V1_answer(1) [OF this(2) len decodable_entries [OF ok sub]] po show ?thesis by simp
qed

lemma V1Set_error_answered:
  assumes "obind (request_vars values po) (\<lambda>vars. obind (errorIndexOf po param) (\<lambda>ei.
      encodeSnmpV1Message community rid (scast error) ei vars 0xA2)) = (Ret d :: ('e, bytes) outcome)"
    and len: "length d < 2 ^ 31" and po: "fset_of_list po = fmdom values" and error: "error \<le> 0x7fffffff"
    and ok: "fmpred (\<lambda>x v. decodable_varbind (x, v)) values"
  obtains ei where "decodeSnmpV1Response d = Ret (SnmpV1Response 0xA2 community rid error ei (entries values po))"
    and "getErrorOid ei po (fmdom values) = Ret param"
proof -
  from assms(1) have sub: "set po \<subseteq> fset (fmdom values)"
    and d: "obind (errorIndexOf po param) (\<lambda>ei.
      encodeSnmpV1Message community rid (scast error) ei (entries values po) 0xA2) = (Ret d :: ('e, bytes) outcome)"
    by (auto simp: request_vars_eq split: if_splits)
  from V1_error_answer [OF d len decodable_entries [OF ok sub] error] obtain ei where ei:
    "decodeSnmpV1Response d = Ret (SnmpV1Response 0xA2 community rid error ei (entries values po))"
    "param \<in> set po" "ei = of_nat (std_find param po + 1)" "length po < 2 ^ 31"
    by auto
  from getErrorOid_position [OF ei(2,4)] ei(2) sub
  have "getErrorOid ei po (fmdom values) = Ret param" by (auto simp: ei(3))
  with ei(1) that show thesis by blast
qed

lemma V1Set_errors_answered:
  assumes len: "length d < 2 ^ 31" and po: "fset_of_list po = fmdom values"
    and ok: "fmpred (\<lambda>x v. decodable_varbind (x, v)) values"
    and req: "req = SnmpV1SetRequest community rid values"
  shows "encodeResponse_V1Set_NoSuchName req po param = (Ret d :: ('e, bytes) outcome) \<Longrightarrow>
      receives (decodeSnmpV1Response d) (validate_SnmpV1SetRequest req) (Throw (NoSuchName param))"
    and "encodeResponse_V1Set_BadValue req po param = (Ret d :: ('e, bytes) outcome) \<Longrightarrow>
      receives (decodeSnmpV1Response d) (validate_SnmpV1SetRequest req) (Throw (BadValue param))"
    and "encodeResponse_V1Set_ReadOnly req po param = (Ret d :: ('e, bytes) outcome) \<Longrightarrow>
      receives (decodeSnmpV1Response d) (validate_SnmpV1SetRequest req) (Throw (ReadOnly param))"
    and "encodeResponse_V1Set_GenErr req po param = (Ret d :: ('e, bytes) outcome) \<Longrightarrow>
      receives (decodeSnmpV1Response d) (validate_SnmpV1SetRequest req) (Throw (GenErr param))"
    and "encodeResponse_V1Set_TooBig req po = (Ret d :: ('e, bytes) outcome) \<Longrightarrow>
      receives (decodeSnmpV1Response d) (validate_SnmpV1SetRequest req) (Throw TooBig)"
proof -
  note answer = V1Set_error_answered [OF _ len po _ ok, of param community rid]
  show "receives (decodeSnmpV1Response d) (validate_SnmpV1SetRequest req) (Throw (NoSuchName param))"
    if "encodeResponse_V1Set_NoSuchName req po param = (Ret d :: ('e, bytes) outcome)"
    by (rule answer [where error = 2]) (use that in \<open>auto simp: req throw_about_Throw\<close>)
  show "receives (decodeSnmpV1Response d) (validate_SnmpV1SetRequest req) (Throw (BadValue param))"
    if "encodeResponse_V1Set_BadValue req po param = (Ret d :: ('e, bytes) outcome)"
    by (rule answer [where error = 3]) (use that in \<open>auto simp: req throw_about_Throw\<close>)
  show "receives (decodeSnmpV1Response d) (validate_SnmpV1SetRequest req) (Throw (ReadOnly param))"
    if "encodeResponse_V1Set_ReadOnly req po param = (Ret d :: ('e, bytes) outcome)"
    by (rule answer [where error = 4]) (use that in \<open>auto simp: req throw_about_Throw\<close>)
  show "receives (decodeSnmpV1Response d) (validate_SnmpV1SetRequest req) (Throw (GenErr param))"
    if "encodeResponse_V1Set_GenErr req po param = (Ret d :: ('e, bytes) outcome)"
    by (rule answer [where error = 5]) (use that in \<open>auto simp: req throw_about_Throw\<close>)
  show "receives (decodeSnmpV1Response d) (validate_SnmpV1SetRequest req) (Throw TooBig)"
    if "encodeResponse_V1Set_TooBig req po = (Ret d :: ('e, bytes) outcome)"
  proof -
    from that have sub: "set po \<subseteq> fset (fmdom values)"
      and d: "encodeSnmpV1Message community rid (scast (1 :: u32)) 0 (entries values po) 0xA2 = (Ret d :: ('e, bytes) outcome)"
      by (auto simp: req request_vars_eq split: if_splits)
    from V1_answer(1) [OF d len decodable_entries [OF ok sub]] show ?thesis by (simp add: req)
  qed
qed

text \<open>Get-next requests: one result for each identifier.\<close>

lemma V1GetNext_answered:
  assumes "encodeResponse_V1GetNext (SnmpV1GetNextRequest community rid oids) results = (Ret d :: ('e, bytes) outcome)"
    and len: "length d < 2 ^ 31" and ok: "list_all decodable_varbind results" and n: "length results = length oids"
  shows "receives (decodeSnmpV1Response d) (validate_SnmpV1GetNextRequest (SnmpV1GetNextRequest community rid oids))
    (Ret results)"
proof -
  have d: "encodeSnmpV1Message community rid (scast (0 :: u32)) 0 results 0xA2 = (Ret d :: ('e, bytes) outcome)" using assms(1) by simp
  from V1_answer(1) [OF d len ok] n show ?thesis by simp
qed

lemma V1GetNext_TooBig_answered:
  assumes "encodeResponse_V1GetNext_TooBig (SnmpV1GetNextRequest community rid oids) = (Ret d :: ('e, bytes) outcome)"
    and len: "length d < 2 ^ 31"
  shows "receives (decodeSnmpV1Response d) (validate_SnmpV1GetNextRequest (SnmpV1GetNextRequest community rid oids))
    (Throw TooBig)"
proof -
  have d: "encodeSnmpV1Message community rid (scast (1 :: u32)) 0 (map (\<lambda>x. (x, NullValue)) oids) 0xA2 = (Ret d :: ('e, bytes) outcome)"
    using assms(1) by simp
  from V1_answer(1) [OF d len decodable_nulls [OF d]] show ?thesis by simp
qed

lemma V1GetNext_GenErr_answered:
  assumes "encodeResponse_V1GetNext_GenErr (SnmpV1GetNextRequest community rid oids) param = (Ret d :: ('e, bytes) outcome)"
    and len: "length d < 2 ^ 31"
  shows "receives (decodeSnmpV1Response d) (validate_SnmpV1GetNextRequest (SnmpV1GetNextRequest community rid oids))
    (Throw (GenErr param))"
proof (rule V1Get_error_answered [where error = 5, OF _ len refl])
  show "obind (errorIndexOf oids param) (\<lambda>ei. encodeSnmpV1Message community rid (scast (5 :: u32)) ei
      (map (\<lambda>x. (x, NullValue)) oids) 0xA2) = (Ret d :: ('e, bytes) outcome)"
    using assms(1) by simp
next
  fix ei
  assume d: "decodeSnmpV1Response d =
      Ret (SnmpV1Response 0xA2 community rid 5 ei (map (\<lambda>x. (x, NullValue)) oids))"
    and ei: "getErrorOid ei oids (fset_of_list oids) = Ret param"
  from ei have "ei \<noteq> 0" "unat (ei - 1) < length oids" "oids ! unat (ei - 1) = param"
    by (auto simp: getErrorOid_def Let_def split: if_splits)
  with d show ?thesis by (simp add: Let_def)
qed simp

section \<open>SNMPv2c\<close>

lemma V2cGet_answered:
  assumes "encodeResponse_V2cGet (SnmpV2cGetRequest community rid oids) po results = (Ret d :: ('e, bytes) outcome)"
    and len: "length d < 2 ^ 31" and po: "fset_of_list po = oids" "distinct po"
    and ok: "fmpred (\<lambda>x v. decodable_var v \<and> var_oid v = x \<and> (\<forall>y. v \<noteq> SnmpVarEndOfMibView y)) results"
  shows "receives (decodeSnmpV2cResponse d) (validate_SnmpV2cGetRequest (SnmpV2cGetRequest community rid oids))
    (Ret (fmrestrict_fset oids results))"
proof -
  let ?vars = "map snd (entries results po)"
  have find: "omap (find_second results) po = omap (\<lambda>x. obind (find_second results x) (\<lambda>v. Ret v)) po" by simp
  from assms(1) have sub: "set po \<subseteq> fset (fmdom results)"
    and d: "encodePDU community rid (scast (0 :: u32)) 0 ?vars 0xA2 = (Ret d :: ('e, bytes) outcome)"
    unfolding encodeResponse_V2cGet.simps find omap_find_second
    by (auto simp: case_prod_unfold comp_def split: if_splits)
  have v: "fmlookup results x = Some (the (fmlookup results x)) \<and> decodable_var (the (fmlookup results x)) \<and>
      var_oid (the (fmlookup results x)) = x \<and> (\<forall>y. the (fmlookup results x) \<noteq> SnmpVarEndOfMibView y)"
    if "x \<in> set po" for x
    using that sub ok by (fastforce simp: fmlookup_dom_iff fmpred_iff)
  then have vars: "list_all decodable_var ?vars" "map var_oid ?vars = po"
    "list_all (\<lambda>v. \<forall>x. v \<noteq> SnmpVarEndOfMibView x) ?vars" "map (\<lambda>v. (var_oid v, v)) ?vars = entries results po"
    by (simp_all add: list_all_iff entries_def comp_def map_idI)
  from V2c_answer(1) [OF d len vars(1)]
  have dec: "decodeSnmpV2cResponse d = Ret (SnmpV2cResponse 0xA2 community rid 0 0 ?vars)" by simp
  obtain M E D where fold: "fold (\<lambda>v. tick_off oids (var_oid v)) ?vars (oids, {||}, {||}) = (M, E, D)"
    by (metis prod_cases3)
  from tick_off_fold [OF fold, unfolded vars(2)] po have "M = {||}" "E = {||}" "D = {||}" by simp_all
  with fold show ?thesis
    by (simp add: dec omap_result_entry vars(3,4) fmap_of_entries [OF sub] po(1) del: map_map)
qed

lemma V2c_null_error_answered:
  assumes "obind (errorIndexOf po param) (\<lambda>ei. encodePDU community rid (scast error) ei
      (map (\<lambda>x. SnmpVar x NullValue) po) 0xA2) = (Ret d :: ('e, bytes) outcome)"
    and len: "length d < 2 ^ 31" and po: "fset_of_list po = oids" and error: "error \<le> 0x7fffffff"
  obtains ei where "decodeSnmpV2cResponse d =
      Ret (SnmpV2cResponse 0xA2 community rid error ei (map (\<lambda>x. SnmpVar x NullValue) po))"
    and "getErrorOid ei po oids = Ret param"
proof -
  from assms(1) have "list_all decodable_var (map (\<lambda>x. SnmpVar x NullValue) po)"
    by (auto intro: decodable_null_results)
  from V2c_error_answer [OF assms(1) len this error] obtain ei where ei:
    "decodeSnmpV2cResponse d = Ret (SnmpV2cResponse 0xA2 community rid error ei (map (\<lambda>x. SnmpVar x NullValue) po))"
    "param \<in> set po" "ei = of_nat (std_find param po + 1)" "length po < 2 ^ 31"
    by (auto simp: comp_def)
  from getErrorOid_position [OF ei(2,4)] ei(2) po
  have "getErrorOid ei po oids = Ret param" by (auto simp: ei(3) fset_of_list_elem)
  with ei(1) that show thesis by blast
qed

lemma V2c_TooBig_answer:
  assumes "encodePDU community rid 1 0 (map (\<lambda>x. SnmpVar x NullValue) po) 0xA2 = (Ret d :: ('e, bytes) outcome)"
    and len: "length d < 2 ^ 31"
  shows "decodeSnmpV2cResponse d = Ret (SnmpV2cResponse 0xA2 community rid 1 0 (map (\<lambda>x. SnmpVar x NullValue) po))"
proof -
  have d: "encodePDU community rid (scast (1 :: u32)) 0 (map (\<lambda>x. SnmpVar x NullValue) po) 0xA2 = (Ret d :: ('e, bytes) outcome)"
    using assms(1) by simp
  from V2c_answer(1) [OF d len decodable_null_results [OF d]] show ?thesis by simp
qed

lemma V2cGet_errors_answered:
  assumes len: "length d < 2 ^ 31" and po: "fset_of_list po = oids"
    and req: "req = SnmpV2cGetRequest community rid oids"
  shows "encodeResponse_V2cGet_NoSuchName req po param = (Ret d :: ('e, bytes) outcome) \<Longrightarrow>
      receives (decodeSnmpV2cResponse d) (validate_SnmpV2cGetRequest req) (Throw (NoSuchName param))"
    and "encodeResponse_V2cGet_GenErr req po param = (Ret d :: ('e, bytes) outcome) \<Longrightarrow>
      receives (decodeSnmpV2cResponse d) (validate_SnmpV2cGetRequest req) (Throw (GenErr param))"
    and "encodeResponse_V2cGet_TooBig req po = (Ret d :: ('e, bytes) outcome) \<Longrightarrow>
      receives (decodeSnmpV2cResponse d) (validate_SnmpV2cGetRequest req) (Throw TooBig)"
proof -
  note answer = V2c_null_error_answered [OF _ len po, of param community rid]
  show "receives (decodeSnmpV2cResponse d) (validate_SnmpV2cGetRequest req) (Throw (NoSuchName param))"
    if "encodeResponse_V2cGet_NoSuchName req po param = (Ret d :: ('e, bytes) outcome)"
    by (rule answer [where error = 2]) (use that in \<open>auto simp: req throw_about_Throw comp_def\<close>)
  show "receives (decodeSnmpV2cResponse d) (validate_SnmpV2cGetRequest req) (Throw (GenErr param))"
    if "encodeResponse_V2cGet_GenErr req po param = (Ret d :: ('e, bytes) outcome)"
    by (rule answer [where error = 5]) (use that in \<open>auto simp: req throw_about_Throw comp_def\<close>)
  show "receives (decodeSnmpV2cResponse d) (validate_SnmpV2cGetRequest req) (Throw TooBig)"
    if "encodeResponse_V2cGet_TooBig req po = (Ret d :: ('e, bytes) outcome)"
  proof -
    from that have d: "encodePDU community rid 1 0 (map (\<lambda>x. SnmpVar x NullValue) po) 0xA2 = (Ret d :: ('e, bytes) outcome)"
      by (simp add: req)
    from V2c_TooBig_answer [OF d len] show ?thesis by (simp add: req)
  qed
qed

lemma var_entries:
  assumes "fmpred (\<lambda>x v. decodable_varbind (x, v)) values" and "set po \<subseteq> fset (fmdom values)"
  shows "list_all decodable_var (map (\<lambda>(x, v). SnmpVar x v) (entries values po))"
    and "map var_oid (map (\<lambda>(x, v). SnmpVar x v) (entries values po)) = po"
  using decodable_entries [OF assms]
  by (simp_all add: list_all_iff case_prod_unfold decodable_varbind_def comp_def)

lemma V2cSet_answered:
  assumes "encodeResponse_V2cSet (SnmpV2cSetRequest community rid values) po = (Ret d :: ('e, bytes) outcome)"
    and len: "length d < 2 ^ 31" and po: "fset_of_list po = fmdom values"
    and ok: "fmpred (\<lambda>x v. decodable_varbind (x, v)) values"
  shows "receives (decodeSnmpV2cResponse d) (validate_SnmpV2cSetRequest (SnmpV2cSetRequest community rid values))
    (Ret ())"
proof -
  let ?vars = "map (\<lambda>(x, v). SnmpVar x v) (entries values po)"
  from assms(1) have sub: "set po \<subseteq> fset (fmdom values)"
    and d: "encodePDU community rid (scast (0 :: u32)) 0 ?vars 0xA2 = (Ret d :: ('e, bytes) outcome)"
    by (auto simp: omap_find_second split: if_splits)
  note vars = var_entries [OF ok sub]
  from V2c_answer(1) [OF d len vars(1)] show ?thesis
    using po vars(2) by (simp del: map_map)
qed

lemma V2cSet_errors_answered:
  assumes len: "length d < 2 ^ 31" and req: "req = SnmpV2cSetRequest community rid values"
  shows "encodeResponse_V2cSet_TooBig req = (Ret d :: ('e, bytes) outcome) \<Longrightarrow>
      receives (decodeSnmpV2cResponse d) (validate_SnmpV2cSetRequest req) (Throw TooBig)"
    and "fmpred (\<lambda>x v. decodable_varbind (x, v)) values \<Longrightarrow> encodeResponse_V2cSet_UndoFailed req po = (Ret d :: ('e, bytes) outcome) \<Longrightarrow>
      receives (decodeSnmpV2cResponse d) (validate_SnmpV2cSetRequest req) (Throw UndoFailed)"
proof -
  show "receives (decodeSnmpV2cResponse d) (validate_SnmpV2cSetRequest req) (Throw TooBig)"
    if "encodeResponse_V2cSet_TooBig req = (Ret d :: ('e, bytes) outcome)"
  proof -
    from that have d: "encodePDU community rid 1 0 (map (\<lambda>x. SnmpVar x NullValue) []) 0xA2 = (Ret d :: ('e, bytes) outcome)"
      by (simp add: req)
    from V2c_TooBig_answer [OF d len] show ?thesis by (simp add: req)
  qed
  show "receives (decodeSnmpV2cResponse d) (validate_SnmpV2cSetRequest req) (Throw UndoFailed)"
    if ok: "fmpred (\<lambda>x v. decodable_varbind (x, v)) values" and "encodeResponse_V2cSet_UndoFailed req po = (Ret d :: ('e, bytes) outcome)"
  proof -
    let ?vars = "map (\<lambda>(x, v). SnmpVar x v) (entries values po)"
    from that(2) have sub: "set po \<subseteq> fset (fmdom values)"
      and d: "encodePDU community rid (scast (15 :: u32)) 0 ?vars 0xA2 = (Ret d :: ('e, bytes) outcome)"
      by (auto simp: req omap_find_second split: if_splits)
    from V2c_answer(1) [OF d len var_entries(1) [OF ok sub]] show ?thesis by (simp add: req)
  qed
qed

lemma V2cGetNext_answered:
  assumes "encodeResponse_V2cGetNext (SnmpV2cGetNextRequest community rid oids) results = (Ret d :: ('e, bytes) outcome)"
    and len: "length d < 2 ^ 31" and ok: "list_all decodable_var results" and n: "length results = length oids"
  shows "receives (decodeSnmpV2cResponse d) (validate_SnmpV2cGetNextRequest (SnmpV2cGetNextRequest community rid oids))
    (Ret results)"
proof -
  have d: "encodePDU community rid (scast (0 :: u32)) 0 results 0xA2 = (Ret d :: ('e, bytes) outcome)" using assms(1) by simp
  from V2c_answer(1) [OF d len ok] n show ?thesis by simp
qed

lemma V2cGetNext_errors_answered:
  assumes len: "length d < 2 ^ 31" and req: "req = SnmpV2cGetNextRequest community rid oids"
  shows "encodeResponse_V2cGetNext_TooBig req = (Ret d :: ('e, bytes) outcome) \<Longrightarrow>
      receives (decodeSnmpV2cResponse d) (validate_SnmpV2cGetNextRequest req) (Throw TooBig)"
    and "encodeResponse_V2cGetNext_GenErr req param = (Ret d :: ('e, bytes) outcome) \<Longrightarrow>
      receives (decodeSnmpV2cResponse d) (validate_SnmpV2cGetNextRequest req) (Throw (GenErr param))"
proof -
  show "receives (decodeSnmpV2cResponse d) (validate_SnmpV2cGetNextRequest req) (Throw TooBig)"
    if "encodeResponse_V2cGetNext_TooBig req = (Ret d :: ('e, bytes) outcome)"
  proof -
    from that have d: "encodePDU community rid 1 0 (map (\<lambda>x. SnmpVar x NullValue) oids) 0xA2 = (Ret d :: ('e, bytes) outcome)"
      by (simp add: req)
    from V2c_TooBig_answer [OF d len] show ?thesis by (simp add: req)
  qed
  show "receives (decodeSnmpV2cResponse d) (validate_SnmpV2cGetNextRequest req) (Throw (GenErr param))"
    if "encodeResponse_V2cGetNext_GenErr req param = (Ret d :: ('e, bytes) outcome)"
    by (rule V2c_null_error_answered [OF _ len refl, of oids param community rid 5])
      (use that in \<open>auto simp: req throw_about_Throw comp_def\<close>)
qed

end
