(* ===== verification/V3Messages.thy ===== *)
theory V3Messages
  imports RoundTrip
begin

text \<open>
  SNMPv3 messages: \<^verbatim>\<open>src/xju/snmp/SnmpV3Message.hcp\<close>, \<^verbatim>\<open>SnmpV3ScopedPDU.hcp\<close>,
  \<^verbatim>\<open>SnmpV3UsmSecurityParameters.hcp\<close>, their encoders in \<^verbatim>\<open>encode.cc\<close> and their decoders
  \<^verbatim>\<open>decodeSnmpV3Message.cc\<close>, \<^verbatim>\<open>decodeSnmpV3ScopedPDU.cc\<close>, \<^verbatim>\<open>decodeSnmpV3UsmSecurityParameters.hcp\<close>.
  As for the other messages, a struct is a datatype with one constructor; the classes \<^verbatim>\<open>Tagged\<close> of byte
  vectors and strings are byte lists, \<^verbatim>\<open>xju::Int<Tag,uint32_t>\<close> is a word of 32 bits.
\<close>

section \<open>The structs\<close>

datatype SnmpV3Message =
  SnmpV3Message (v3_id: u32) (v3_maxSize: u64) (v3_flags: byte) (v3_securityModel: u32)
    (v3_securityParameters: bytes) (v3_scopedPduData: bytes)

datatype SnmpV3ScopedPDU =
  SnmpV3ScopedPDU (contextEngineID: bytes) (contextName: bytes) (scoped_pdu: PDU)

datatype SnmpV3UsmSecurityParameters =
  SnmpV3UsmSecurityParameters (engineID: bytes) (engineBoots: u32) (engineTime: u32) (userName: bytes)

text \<open>\<^verbatim>\<open>SnmpV3Message::auth\<close>, \<^verbatim>\<open>priv\<close> and \<^verbatim>\<open>reportable\<close>.  In C++ \<^verbatim>\<open>==\<close> binds tighter than \<^verbatim>\<open>&\<close>, so the last
  two are \<^verbatim>\<open>flags_ & (AUTH_PRIV == AUTH_PRIV)\<close> and \<^verbatim>\<open>flags_ & (REPORTABLE == REPORTABLE)\<close>.\<close>

definition v3_auth :: "SnmpV3Message \<Rightarrow> bool" where
  "v3_auth x \<longleftrightarrow> v3_flags x AND 0x01 \<noteq> 0"

definition v3_priv :: "SnmpV3Message \<Rightarrow> bool" where
  "v3_priv x \<longleftrightarrow> v3_flags x AND (if (0x03 :: byte) = 0x03 then 1 else 0) \<noteq> 0"

definition v3_reportable :: "SnmpV3Message \<Rightarrow> bool" where
  "v3_reportable x \<longleftrightarrow> v3_flags x AND (if (0x04 :: byte) = 0x04 then 1 else 0) \<noteq> 0"

section \<open>Encoding\<close>

fun v3_message_sequence :: "SnmpV3Message \<Rightarrow> snmp_value" where
  "v3_message_sequence (SnmpV3Message msgID maxSize flags securityModel securityParameters scopedPduData) =
     Sequence
       [IntValue 3,
        Sequence
          [IntValue (ucast msgID), IntValue maxSize, StringValue [flags], IntValue (ucast securityModel)]
          0x30,
        StringValue securityParameters,
        PreEncoded scopedPduData]
       0x30"

definition encode_SnmpV3Message :: "SnmpV3Message \<Rightarrow> ('e, bytes) outcome" where
  "encode_SnmpV3Message x = encode_value (v3_message_sequence x)"

fun encode_SnmpV3ScopedPDU :: "SnmpV3ScopedPDU \<Rightarrow> ('e, bytes) outcome" where
  "encode_SnmpV3ScopedPDU (SnmpV3ScopedPDU eid name pdu) =
     encode_value (Sequence [StringValue eid, StringValue name, makePDUSequence pdu] 0x30)"

fun encode_SnmpV3SecParams ::
    "SnmpV3UsmSecurityParameters \<Rightarrow> bytes \<Rightarrow> bytes \<Rightarrow> ('e, bytes) outcome" where
  "encode_SnmpV3SecParams (SnmpV3UsmSecurityParameters eid boots time user) authParams privParams =
     encode_value
       (Sequence
         [StringValue eid,
          IntValue (ucast boots),
          IntValue (ucast time),
          StringValue user,
          StringValue authParams,
          StringValue privParams]
         0x30)"

section \<open>Decoding\<close>

text \<open>\<^verbatim>\<open>extractRemainder.hcp\<close>\<close>

definition extractRemainder :: "DecodeIterator \<Rightarrow> (snmp_error, bytes) outcome" where
  "extractRemainder at =
     obind
       (owhile
         (\<lambda>(at, result, to). Ret (\<not> atEnd at))
         (\<lambda>(at, result, to).
            obind (deref at) (\<lambda>b.
            obind (incr at) (\<lambda>at.
            obind (put_next b result to) (\<lambda>(result, to).
            Ret (at, result, to)))))
         (at, replicate (remaining at) 0, 0))
       (\<lambda>(at, result, to). Ret result)"

text \<open>The cast \<^verbatim>\<open>(SnmpV3Message::Flags)msgFlags.first[0]\<close>.  The enumeration has no fixed underlying type
  and its largest enumerator is 0x04, so its values are those of 3 bits; the cast of a larger one is
  undefined.\<close>

definition to_flags :: "byte \<Rightarrow> ('e, byte) outcome" where
  "to_flags b = (if b \<le> 0x07 then Ret b else Undef)"

text \<open>The checks of a decoded length against the bytes there are.\<close>

definition length_differs :: "u64 option \<Rightarrow> DecodeIterator \<Rightarrow> bool" where
  "length_differs len i = (case len of None \<Rightarrow> False | Some l \<Rightarrow> remaining i \<noteq> unat l)"

definition length_exceeds :: "u64 option \<Rightarrow> DecodeIterator \<Rightarrow> bool" where
  "length_exceeds len i = (case len of None \<Rightarrow> False | Some l \<Rightarrow> remaining i < unat l)"

text \<open>The offset in the data of a string that ends at \<open>i\<close>: \<^verbatim>\<open>start.remaining()-s.second.remaining()-s.first.size()\<close>.\<close>

definition offset_of_string :: "DecodeIterator \<Rightarrow> DecodeIterator \<Rightarrow> bytes \<Rightarrow> nat" where
  "offset_of_string start i s = remaining start - remaining i - length s"

text \<open>When the header data is not a sequence, the exception reports the type of the outer sequence.\<close>

definition decodeSnmpV3Message :: "bytes \<Rightarrow> (snmp_error, SnmpV3Message \<times> nat) outcome" where
  "decodeSnmpV3Message data =
     obind (decodeSequenceTypeAndLength (start_of data)) (\<lambda>((t, _), i).
     if t \<noteq> 0x30 then Throw (NotSequence t) else
     obind (decodeIntValue i 0x02) (\<lambda>(version, i).
     if version \<noteq> 3 then Throw (SnmpVersionMismatch version 3) else
     obind (decodeSequenceTypeAndLength i) (\<lambda>((t2, _), i).
     if t2 \<noteq> 0x30 then Throw (NotSequence t) else
     obind (decodeIntValue i 0x02) (\<lambda>(msgID, i).
     if msgID > 0xffffffff then Throw (MessageIdTooBig msgID) else
     obind (decodeIntValue i 0x02) (\<lambda>(maxSize, i).
     if maxSize < 484 then Throw (MaxSizeTooSmall maxSize) else
     if maxSize > 0xffffffff then Throw (MaxSizeTooBig maxSize) else
     obind (decodeStringValue i 0x04) (\<lambda>(msgFlags, i).
     if length msgFlags \<noteq> 1 then Throw (FlagsLength (length msgFlags)) else
     obind (decodeIntValue i 0x02) (\<lambda>(securityModel, i).
     if securityModel > 0xffffffff then Throw (SecurityModelTooBig securityModel) else
     obind (decodeStringValue i 0x04) (\<lambda>(securityParameters, i).
     obind (decodeSequenceTypeAndLength i) (\<lambda>((t3, len), j).
     obind (to_flags (msgFlags ! 0)) (\<lambda>flags.
     if flags AND 0x03 \<noteq> 0x03 \<and> t3 \<noteq> 0x30 then Throw (ScopedPduType t3 0x30) else
     if flags AND 0x03 = 0x03 \<and> t3 \<noteq> 0x04 then Throw (ScopedPduType t3 0x04) else
     if length_differs len j then Throw (DataLength (the len) (remaining j)) else
     obind (extractRemainder i) (\<lambda>scopedPDU.
     Ret (SnmpV3Message (ucast msgID) maxSize flags (ucast securityModel) securityParameters scopedPDU,
          offset_of_string (start_of data) i securityParameters))))))))))))"

text \<open>Encryption may have added padding, so data after the sequence is ignored.\<close>

definition decodeSnmpV3ScopedPDU :: "bytes \<Rightarrow> (snmp_error, SnmpV3ScopedPDU) outcome" where
  "decodeSnmpV3ScopedPDU data =
     obind (decodeSequenceTypeAndLength (start_of data)) (\<lambda>((t, len), i).
     if t \<noteq> 0x30 then Throw (NotSequence t) else
     if length_exceeds len i then Throw (DataLength (the len) (remaining i)) else
     obind (decodeStringValue i 0x04) (\<lambda>(eid, i).
     obind (decodeStringValue i 0x04) (\<lambda>(name, i).
     obind (decodePDU i) (\<lambda>(pdu, _).
     Ret (SnmpV3ScopedPDU eid name pdu)))))"

text \<open>The result: the parameters, the MAC, its offset in the data and the privacy data.\<close>

definition decodeSnmpV3UsmSecurityParameters ::
    "bytes \<Rightarrow> (snmp_error, SnmpV3UsmSecurityParameters \<times> bytes \<times> nat \<times> bytes) outcome" where
  "decodeSnmpV3UsmSecurityParameters data =
     obind (decodeSequenceTypeAndLength (start_of data)) (\<lambda>((t, len), i).
     if t \<noteq> 0x30 then Throw (NotSequence t) else
     if length_differs len i then Throw (DataLength (the len) (remaining i)) else
     obind (decodeStringValue i 0x04) (\<lambda>(eid, i).
     obind (decodeIntValue i 0x02) (\<lambda>(boots, i).
     if boots > 0x7fffffff then Throw (EngineBootsTooBig boots) else
     obind (decodeIntValue i 0x02) (\<lambda>(time, i).
     if time > 0x7fffffff then Throw (EngineTimeTooBig time) else
     obind (decodeStringValue i 0x04) (\<lambda>(user, i).
     if length user > 32 then Throw (UserNameTooLong (length user)) else
     obind (decodeStringValue i 0x04) (\<lambda>(authParams, i).
     obind (decodeStringValue i 0x04) (\<lambda>(privParams, j).
     if \<not> atEnd j then obind (extractRemainder j) (\<lambda>remainder. Throw (ExtraData remainder)) else
     Ret (SnmpV3UsmSecurityParameters eid (ucast boots) (ucast time) user,
          authParams, offset_of_string (start_of data) i authParams, privParams))))))))"

section \<open>What the decoders' parts return\<close>

lemma extractRemainder_loop:
  "k \<le> length d \<Longrightarrow> length r = k - k0 \<Longrightarrow> k0 \<le> k \<Longrightarrow>
    owhile
      (\<lambda>(at, result, to). Ret (\<not> atEnd at))
      (\<lambda>(at, result, to).
         obind (deref at) (\<lambda>b. obind (incr at) (\<lambda>at. obind (put_next b result to) (\<lambda>(result, to).
         Ret (at, result, to)))))
      (It d k, r @ replicate (length d - k) 0, k - k0)
    = Ret (It d (length d), r @ drop k d, length d - k0)"
proof (induction "length d - k" arbitrary: k r)
  case 0
  then show ?case by (subst owhile_unfold) (simp add: atEnd_def)
next
  case (Suc n)
  then have k: "k < length d" by simp
  have zeros: "replicate (length d - k) (0 :: byte) = 0 # replicate (length d - Suc k) 0"
    using k by (metis Suc_diff_Suc replicate_Suc)
  have "(r @ 0 # replicate (length d - Suc k) 0)[k - k0 := d ! k] = r @ d ! k # replicate (length d - Suc k) 0"
    using Suc.prems(2) by (metis list_update_length)
  then have put: "put_next (d ! k) (r @ 0 # replicate (length d - Suc k) 0) (k - k0)
      = (Ret (r @ d ! k # replicate (length d - Suc k) 0, Suc k - k0) :: (snmp_error, bytes \<times> nat) outcome)"
    using Suc.prems by (simp add: put_next_def put_def Suc_diff_le)
  have "drop k d = d ! k # drop (Suc k) d" using k by (simp add: Cons_nth_drop_Suc)
  then show ?case
    using Suc.hyps(1) [of "Suc k" "r @ [d ! k]"] Suc.hyps(2) Suc.prems k
    by (subst owhile_unfold) (simp add: atEnd_def zeros put Suc_diff_le del: replicate.simps)
qed

lemma extractRemainder_eq [simp]: "k \<le> length d \<Longrightarrow> extractRemainder (It d k) = Ret (drop k d)"
  using extractRemainder_loop [of k d "[]" k] by (simp add: extractRemainder_def remaining_def)

text \<open>A string that was decoded is in the data, at the offset the decoders compute from its end.\<close>

lemma decodeStringValue_in_data:
  assumes i: "in_range i" and s: "decodeStringValue i t = Ret (s, j)"
  shows "it_data j = it_data i \<and> in_range j \<and> length s \<le> it_at j \<and>
    take (length s) (drop (it_at j - length s) (it_data i)) = s"
proof -
  obtain d k where ik: "i = It d k" by (cases i)
  note r = readsD [OF decodeStringValue_reads [OF i] s]
  from s ik have "k \<noteq> length d" by (auto simp: decodeStringValue_def)
  with i have k: "k < length d" by (simp add: ik)
  then have "plus_int (It d k) 1 = Ret (It d (Suc k))" by simp
  with s k obtain len second where len: "decodeLength (It d (Suc k)) = Ret (len, second)"
    by (auto simp: ik decodeStringValue_def split: if_splits)
  with s k obtain l where l: "len = Some l"
    by (cases len) (auto simp: ik decodeStringValue_def split: if_splits)
  have sec: "it_data second = d" "in_range second"
    using readsD [OF decodeLength_reads len] k by simp_all
  then obtain m where m: "second = It d m" "m \<le> length d" by (cases second) auto
  have "Suc k < length d"
  proof (rule ccontr)
    assume "\<not> Suc k < length d"
    with k have "Suc k = length d" by simp
    with len show False by (simp add: decodeLength_def)
  qed
  from decodeStringValue_spec [OF this len [unfolded l m(1)] m(2) refl, of t] s
  have "s = take (nat (int_of_size l)) (drop m d)" "j = It d (m + nat (int_of_size l))"
    by (auto simp: ik split: if_splits)
  with r show ?thesis by (auto simp: ik)
qed

section \<open>Reading what was written\<close>

text \<open>The suffix of the data from offset \<open>k\<close> on, and one step of reading through it.\<close>

definition rest_at :: "bytes \<Rightarrow> nat \<Rightarrow> bytes \<Rightarrow> bool" where
  "rest_at d k xs \<longleftrightarrow> bytes_at d k xs \<and> k + length xs = length d"

lemma rest_at_whole: "rest_at d 0 d"
  by (simp add: rest_at_def bytes_at_whole)

lemma rest_at_drop: "rest_at d k xs \<Longrightarrow> k \<le> length d \<and> drop k d = xs \<and> k = length d - length xs"
  by (auto simp: rest_at_def bytes_at_drop)

lemma length_octets_eq:
  "length (ber_octets t xs) = Suc (length (ber_length (of_nat (length xs)))) + length xs"
  by (simp add: ber_octets_def)

lemma header_step:
  assumes "rest_at d k (ber_octets t xs @ ys)" and "length d < 2 ^ 31"
  obtains j where "decodeSequenceTypeAndLength (It d k) = Ret ((t, Some (of_nat (length xs))), It d j)"
    and "rest_at d j (xs @ ys)" and "unat (of_nat (length xs) :: u64) = length xs"
proof (rule that)
  let ?j = "Suc k + length (ber_length (of_nat (length xs)))"
  from assms(1) have at: "bytes_at d k (ber_octets t xs)" "bytes_at d (k + length (ber_octets t xs)) ys"
    and stop: "k + length (ber_octets t xs) + length ys = length d"
    by (simp_all add: rest_at_def)
  from at(1) have hd: "bytes_at d k (ber_header (t, Some (of_nat (length xs))))" "bytes_at d ?j xs"
    by (simp_all add: ber_octets_def ber_header_def ber_optional_length_def)
  show "decodeSequenceTypeAndLength (It d k) = Ret ((t, Some (of_nat (length xs))), It d ?j)"
    using header_format.decodes [OF TrueI hd(1) assms(2)] by (simp add: ber_header_def ber_optional_length_def)
  have "?j + length xs = k + length (ber_octets t xs)" by (simp add: length_octets_eq)
  with at(2) hd(2) stop show "rest_at d ?j (xs @ ys)"
    by (simp only: rest_at_def bytes_at_append length_append add.assoc [symmetric] simp_thms)
  show "unat (of_nat (length xs) :: u64) = length xs"
    using bytes_at_length [OF hd(2)] assms(2) by (intro unat_of_nat_u64) simp
qed

lemma int_step:
  assumes "rest_at d k (ber_int t v @ ys)"
  obtains j where "decodeIntValue (It d k) t = Ret (v, It d j)" and "rest_at d j ys"
  by (rule that [of "k + length (ber_int t v)"])
    (use assms decodeIntValue_ber_int [of d k t v] in \<open>simp_all add: rest_at_def\<close>)

lemma string_step:
  assumes "rest_at d k (ber_octets t s @ ys)" and "length d < 2 ^ 31"
  obtains j where "decodeStringValue (It d k) t = Ret (s, It d j)" and "rest_at d j ys"
  by (rule that [of "k + length (ber_octets t s)"])
    (use assms decodeStringValue_ber_octets [of d k t s] in \<open>simp_all add: rest_at_def\<close>)

fun ber_v3_header :: "SnmpV3Message \<Rightarrow> bytes" where
  "ber_v3_header (SnmpV3Message msgID maxSize flags securityModel securityParameters scopedPduData) =
     ber_int 2 (ucast msgID) @ ber_int 2 maxSize @ ber_octets 4 [flags] @ ber_int 2 (ucast securityModel)"

text \<open>The messages that the decoder accepts.\<close>

definition decodable_v3 :: "SnmpV3Message \<Rightarrow> bool" where
  "decodable_v3 x \<longleftrightarrow> 484 \<le> v3_maxSize x \<and> v3_maxSize x \<le> 0xffffffff \<and> v3_flags x \<le> 0x07 \<and>
     (\<exists>xs. v3_scopedPduData x = ber_octets (if v3_flags x AND 0x03 = 0x03 then 0x04 else 0x30) xs)"

lemma encode_SnmpV3Message_eq:
  "encode_SnmpV3Message x = Ret (ber_octets 0x30 (ber_int 2 3 @ ber_octets 0x30 (ber_v3_header x) @
     ber_octets 4 (v3_securityParameters x) @ v3_scopedPduData x))"
  by (cases x) (simp add: encode_SnmpV3Message_def encode_value_eq)

lemma SnmpV3Message_decodes:
  assumes enc: "encode_SnmpV3Message x = Ret d" and len: "length d < 2 ^ 31" and ok: "decodable_v3 x"
  shows "decodeSnmpV3Message d =
    Ret (x, length d - length (v3_scopedPduData x) - length (v3_securityParameters x))"
proof (cases x)
  case (SnmpV3Message msgID maxSize flags securityModel sp scoped)
  let ?tag = "if flags AND 0x03 = 0x03 then 0x04 else 0x30 :: byte"
  from ok obtain xs where xs: "scoped = ber_octets ?tag xs"
    by (auto simp: decodable_v3_def SnmpV3Message)
  let ?rest = "ber_octets 4 sp @ ber_octets ?tag xs"
  have "d = ber_octets 0x30 (ber_int 2 3 @ ber_octets 0x30 (ber_v3_header x) @ ?rest) @ []"
    using enc by (simp add: encode_SnmpV3Message_eq SnmpV3Message xs)
  then have r0: "rest_at d 0 (ber_octets 0x30 (ber_int 2 3 @ ber_octets 0x30 (ber_v3_header x) @ ?rest) @ [])"
    using rest_at_whole [of d] by (simp only:)
  obtain k0 where s0: "decodeSequenceTypeAndLength (It d 0) = Ret ((0x30, Some (of_nat (length
        (ber_int 2 3 @ ber_octets 0x30 (ber_v3_header x) @ ?rest)))), It d k0)"
    and r1: "rest_at d k0 (ber_int 2 3 @ ber_octets 0x30 (ber_v3_header x) @ ?rest)"
    using header_step [OF r0 len] by (metis append_Nil2)
  obtain k1 where s1: "decodeIntValue (It d k0) 2 = Ret (3, It d k1)"
    and r2: "rest_at d k1 (ber_octets 0x30 (ber_v3_header x) @ ?rest)"
    using int_step [OF r1] .
  obtain k2 where s2: "decodeSequenceTypeAndLength (It d k1) =
        Ret ((0x30, Some (of_nat (length (ber_v3_header x)))), It d k2)"
    and r3: "rest_at d k2 (ber_v3_header x @ ?rest)"
    using header_step [OF r2 len] by blast
  from r3 have r3': "rest_at d k2 (ber_int 2 (ucast msgID) @ ber_int 2 maxSize @ ber_octets 4 [flags] @
      ber_int 2 (ucast securityModel) @ ?rest)"
    by (simp add: SnmpV3Message)
  obtain k3 where s3: "decodeIntValue (It d k2) 2 = Ret (ucast msgID, It d k3)"
    and r4: "rest_at d k3 (ber_int 2 maxSize @ ber_octets 4 [flags] @ ber_int 2 (ucast securityModel) @ ?rest)"
    using int_step [OF r3'] .
  obtain k4 where s4: "decodeIntValue (It d k3) 2 = Ret (maxSize, It d k4)"
    and r5: "rest_at d k4 (ber_octets 4 [flags] @ ber_int 2 (ucast securityModel) @ ?rest)"
    using int_step [OF r4] .
  obtain k5 where s5: "decodeStringValue (It d k4) 4 = Ret ([flags], It d k5)"
    and r6: "rest_at d k5 (ber_int 2 (ucast securityModel) @ ?rest)"
    using string_step [OF r5 len] .
  obtain k6 where s6: "decodeIntValue (It d k5) 2 = Ret (ucast securityModel, It d k6)"
    and r7: "rest_at d k6 ?rest"
    using int_step [OF r6] .
  obtain k7 where s7: "decodeStringValue (It d k6) 4 = Ret (sp, It d k7)"
    and r8: "rest_at d k7 (ber_octets ?tag xs @ [])"
    using string_step [OF r7 len] by (metis append_Nil2)
  obtain k8 where s8: "decodeSequenceTypeAndLength (It d k7) = Ret ((?tag, Some (of_nat (length xs))), It d k8)"
    and r9: "rest_at d k8 (xs @ [])" and l: "unat (of_nat (length xs) :: u64) = length xs"
    using header_step [OF r8 len] .
  have rem: "remaining (It d k8) = length xs"
    using r9 by (auto simp: rest_at_def remaining_def)
  have rest: "drop k7 d = scoped" "k7 \<le> length d" "k7 = length d - length scoped"
    using rest_at_drop [OF r8] unfolding xs append_Nil2 by blast+
  have "\<not> (maxSize < 484)" "\<not> (0xffffffff < maxSize)" "flags \<le> 7"
    using ok by (simp_all add: decodable_v3_def SnmpV3Message not_less)
  moreover have "extractRemainder (It d k7) = Ret scoped" using rest by simp
  moreover have "offset_of_string (It d 0) (It d k7) sp = length d - length scoped - length sp"
    using rest by (simp add: offset_of_string_def remaining_def)
  ultimately show ?thesis
    by (simp add: decodeSnmpV3Message_def start_of_def s0 s1 s2 s3 s4 s5 s6 s7 s8 rem l length_differs_def
        to_flags_def SnmpV3Message ucast_u32_bound)
qed

text \<open>A scoped protocol data unit, with any padding after it.\<close>

definition decodable_scoped :: "SnmpV3ScopedPDU \<Rightarrow> bool" where
  "decodable_scoped x \<longleftrightarrow> (case scoped_pdu x of PDU requestId error errorIndex vars t \<Rightarrow>
     list_all decodable_var vars \<and> error \<le> 0x7fffffff)"

lemma pdu_step:
  assumes "rest_at d k (ber (makePDUSequence pdu) @ ys)" and "length d < 2 ^ 31"
    and "pdu = PDU rid error ei vars t" and "list_all decodable_var vars" and "error \<le> 0x7fffffff"
  obtains j where "decodePDU (It d k) = Ret (pdu, It d j)"
  using assms decodePDU_decodes [of d k rid error ei vars t]
  by (simp add: rest_at_def del: makePDUSequence.simps)

lemma SnmpV3ScopedPDU_decodes:
  assumes enc: "encode_SnmpV3ScopedPDU x = Ret c" and len: "length (c @ pad) < 2 ^ 31"
    and ok: "decodable_scoped x"
  shows "decodeSnmpV3ScopedPDU (c @ pad) = Ret x"
proof (cases x)
  case (SnmpV3ScopedPDU eid name pdu)
  let ?d = "c @ pad"
  let ?xs = "ber_octets 4 eid @ ber_octets 4 name @ ber (makePDUSequence pdu)"
  obtain rid error ei vars t where pdu: "pdu = PDU rid error ei vars t" by (cases pdu)
  from enc have "?d = ber_octets 0x30 ?xs @ pad"
    by (auto simp: encode_value_eq SnmpV3ScopedPDU split: if_splits simp del: makePDUSequence.simps)
  then have "rest_at ?d 0 (ber_octets 0x30 ?xs @ pad)" using rest_at_whole [of ?d] by (simp only:)
  from header_step [OF this len] obtain k0 where
    s0: "decodeSequenceTypeAndLength (It ?d 0) = Ret ((0x30, Some (of_nat (length ?xs))), It ?d k0)"
    and r0: "rest_at ?d k0 (?xs @ pad)" and l: "unat (of_nat (length ?xs) :: u64) = length ?xs" by blast
  from r0 have r0': "rest_at ?d k0 (ber_octets 4 eid @ ber_octets 4 name @ ber (makePDUSequence pdu) @ pad)"
    by (simp only: append_assoc)
  from string_step [OF r0' len] obtain k1 where s1: "decodeStringValue (It ?d k0) 4 = Ret (eid, It ?d k1)"
    and r1: "rest_at ?d k1 (ber_octets 4 name @ ber (makePDUSequence pdu) @ pad)" by blast
  from string_step [OF r1 len] obtain k2 where s2: "decodeStringValue (It ?d k1) 4 = Ret (name, It ?d k2)"
    and r2: "rest_at ?d k2 (ber (makePDUSequence pdu) @ pad)" by blast
  from pdu_step [OF r2 len pdu] ok obtain k3 where s3: "decodePDU (It ?d k2) = Ret (pdu, It ?d k3)"
    by (auto simp: decodable_scoped_def SnmpV3ScopedPDU pdu)
  have "length ?xs \<le> remaining (It ?d k0)"
    using r0 by (auto simp: rest_at_def remaining_def)
  then have "\<not> length_exceeds (Some (of_nat (length ?xs))) (It ?d k0)"
    unfolding length_exceeds_def by (simp only: l option.case not_less)
  then show ?thesis
    unfolding decodeSnmpV3ScopedPDU_def start_of_def s0 by (simp add: s1 s2 s3 SnmpV3ScopedPDU)
qed

text \<open>The security parameters: what is before the MAC and what comes after it.\<close>

fun ber_secparams :: "SnmpV3UsmSecurityParameters \<Rightarrow> bytes" where
  "ber_secparams (SnmpV3UsmSecurityParameters eid boots time user) =
     ber_octets 4 eid @ ber_int 2 (ucast boots) @ ber_int 2 (ucast time) @ ber_octets 4 user"

definition decodable_secparams :: "SnmpV3UsmSecurityParameters \<Rightarrow> bool" where
  "decodable_secparams x \<longleftrightarrow>
     engineBoots x \<le> 0x7fffffff \<and> engineTime x \<le> 0x7fffffff \<and> length (userName x) \<le> 32"

lemma encode_SnmpV3SecParams_eq:
  "encode_SnmpV3SecParams x mac priv =
    Ret (ber_octets 0x30 (ber_secparams x @ ber_octets 4 mac @ ber_octets 4 priv))"
  by (cases x) (simp add: encode_value_eq)

lemma ucast_u32_le: "(c :: u32) \<le> 0x7fffffff \<Longrightarrow> \<not> (0x7fffffff :: u64) < ucast c"
  by (simp add: word_less_nat_alt word_le_nat_alt unat_ucast_up)

lemma SnmpV3SecParams_decodes:
  assumes enc: "encode_SnmpV3SecParams x mac priv = Ret d" and len: "length d < 2 ^ 31"
    and ok: "decodable_secparams x"
  shows "decodeSnmpV3UsmSecurityParameters d =
    Ret (x, mac, length d - length (ber_octets 4 priv) - length mac, priv)"
proof (cases x)
  case (SnmpV3UsmSecurityParameters eid boots time user)
  let ?rest = "ber_octets 4 mac @ ber_octets 4 priv"
  let ?xs = "ber_octets 4 eid @ ber_int 2 (ucast boots) @ ber_int 2 (ucast time) @ ber_octets 4 user @ ?rest"
  from enc have "d = ber_octets 0x30 ?xs @ []"
    by (simp add: encode_SnmpV3SecParams_eq SnmpV3UsmSecurityParameters)
  then have "rest_at d 0 (ber_octets 0x30 ?xs @ [])" using rest_at_whole [of d] by (simp only:)
  from header_step [OF this len] obtain k0 where
    s0: "decodeSequenceTypeAndLength (It d 0) = Ret ((0x30, Some (of_nat (length ?xs))), It d k0)"
    and r0: "rest_at d k0 ?xs" and l: "unat (of_nat (length ?xs) :: u64) = length ?xs"
    by (metis append_Nil2)
  from string_step [OF r0 len] obtain k1 where s1: "decodeStringValue (It d k0) 4 = Ret (eid, It d k1)"
    and r1: "rest_at d k1 (ber_int 2 (ucast boots) @ ber_int 2 (ucast time) @ ber_octets 4 user @ ?rest)"
    by blast
  from int_step [OF r1] obtain k2 where s2: "decodeIntValue (It d k1) 2 = Ret (ucast boots, It d k2)"
    and r2: "rest_at d k2 (ber_int 2 (ucast time) @ ber_octets 4 user @ ?rest)" by blast
  from int_step [OF r2] obtain k3 where s3: "decodeIntValue (It d k2) 2 = Ret (ucast time, It d k3)"
    and r3: "rest_at d k3 (ber_octets 4 user @ ?rest)" by blast
  from string_step [OF r3 len] obtain k4 where s4: "decodeStringValue (It d k3) 4 = Ret (user, It d k4)"
    and r4: "rest_at d k4 ?rest" by blast
  from string_step [OF r4 len] obtain k5 where s5: "decodeStringValue (It d k4) 4 = Ret (mac, It d k5)"
    and r5: "rest_at d k5 (ber_octets 4 priv @ [])" by (metis append_Nil2)
  from string_step [OF r5 len] obtain k6 where s6: "decodeStringValue (It d k5) 4 = Ret (priv, It d k6)"
    and r6: "rest_at d k6 []" by blast
  have "remaining (It d k0) = length ?xs"
    using r0 by (auto simp: rest_at_def remaining_def)
  then have "\<not> length_differs (Some (of_nat (length ?xs))) (It d k0)"
    unfolding length_differs_def by (simp only: l option.case simp_thms)
  moreover have "atEnd (It d k6)" using r6 by (simp add: rest_at_def atEnd_def)
  moreover have "offset_of_string (It d 0) (It d k5) mac = length d - length (ber_octets 4 priv) - length mac"
    using rest_at_drop [OF r5] by (auto simp: offset_of_string_def remaining_def)
  moreover have "\<not> 0x7fffffff < (ucast boots :: u64)" "\<not> 0x7fffffff < (ucast time :: u64)" "length user \<le> 32"
    using ok by (simp_all add: decodable_secparams_def SnmpV3UsmSecurityParameters ucast_u32_le)
  ultimately show ?thesis
    unfolding decodeSnmpV3UsmSecurityParameters_def start_of_def s0
    by (simp add: s1 s2 s3 s4 s5 s6 SnmpV3UsmSecurityParameters)
qed

section \<open>What is accepted\<close>

text \<open>Whatever bytes a decoder accepts, the strings it returns are in them, at the offsets it returns.\<close>

definition ensures :: "('a \<Rightarrow> bool) \<Rightarrow> ('e, 'a) outcome \<Rightarrow> bool" where
  "ensures P m \<longleftrightarrow> (\<forall>r. m = Ret r \<longrightarrow> P r)"

lemma ensures_simps [simp]:
  "ensures P (Ret r) \<longleftrightarrow> P r" "ensures P (Throw e)" "ensures P Abort" "ensures P Undef" "ensures P Diverge"
  by (simp_all add: ensures_def)

lemma ensures_if: "(b \<Longrightarrow> ensures P m) \<Longrightarrow> (\<not> b \<Longrightarrow> ensures P n) \<Longrightarrow> ensures P (if b then m else n)"
  by simp

lemma ensures_obind: "(\<And>x. m = Ret x \<Longrightarrow> ensures P (f x)) \<Longrightarrow> ensures P (obind m f)"
  by (cases m) simp_all

lemma ensures_case: "(\<And>x y. ensures P (f x y)) \<Longrightarrow> ensures P (case p of (x, y) \<Rightarrow> f x y)"
  by (cases p) simp

lemma ensures_case_arg: "(\<And>x y. ensures P (f x y j)) \<Longrightarrow> ensures P ((case p of (x, y) \<Rightarrow> f x y) j)"
  by (cases p) simp

lemma ensures_Ret: "P r \<Longrightarrow> ensures P (Ret r)"
  by simp

lemma ensures_read:
  assumes "reads i m"
    and "\<And>x j. m = Ret (x, j) \<Longrightarrow> in_range j \<Longrightarrow> it_data j = it_data i \<Longrightarrow> ensures P (f x j)"
  shows "ensures P (obind m (\<lambda>(x, j). f x j))"
proof (rule ensures_obind)
  fix p
  assume m: "m = Ret p"
  obtain x j where p: "p = (x, j)" by (cases p)
  from readsD [OF assms(1) m [unfolded p]] m p assms(2) show "ensures P (case p of (x, j) \<Rightarrow> f x j)"
    by simp
qed

definition slice_at :: "bytes \<Rightarrow> nat \<Rightarrow> bytes \<Rightarrow> bool" where
  "slice_at d k s \<longleftrightarrow> k + length s \<le> length d \<and> take (length s) (drop k d) = s"

lemma slice_at_offset:
  assumes "decodeStringValue i t = Ret (s, j)" and "in_range i" and "it_data i = d"
  shows "slice_at d (offset_of_string (It d 0) j s) s"
proof -
  note s = decodeStringValue_in_data [OF assms(2,1)]
  then have "offset_of_string (It d 0) j s = it_at j - length s"
    using assms(3) by (auto simp: offset_of_string_def remaining_def in_range_def)
  with s show ?thesis by (auto simp: slice_at_def in_range_def assms(3))
qed

lemma slice_at_slice:
  assumes "slice_at d k s" and "slice_at s m r"
  shows "slice_at d (k + m) r"
proof -
  have r: "length r \<le> length s - m" using assms(2) by (auto simp: slice_at_def)
  have "take (length r) (drop m (take (length s) (drop k d))) = take (length r) (drop (k + m) d)"
    using r by (simp add: drop_take min_def add.commute)
  with assms show ?thesis by (auto simp: slice_at_def)
qed

lemmas ensures_reads =
  ensures_read [OF decodeSequenceTypeAndLength_reads] ensures_read [OF decodeIntValue_reads]
  ensures_read [OF decodeStringValue_reads]

lemmas ensures_rules =
  ensures_reads ensures_if ensures_Ret ensures_simps(2-5) ensures_case_arg ensures_case ensures_obind

lemma SnmpV3Message_in_data:
  assumes "decodeSnmpV3Message d = Ret (x, k)"
  shows "slice_at d k (v3_securityParameters x)"
proof -
  have "ensures (\<lambda>(x, k). slice_at d k (v3_securityParameters x)) (decodeSnmpV3Message d)"
    unfolding decodeSnmpV3Message_def start_of_def
    by (intro ensures_rules;
      (simp; fail)?; (simp, rule slice_at_offset; simp)?)
  with assms show ?thesis by (simp add: ensures_def)
qed

lemma SnmpV3SecParams_in_data:
  assumes "decodeSnmpV3UsmSecurityParameters d = Ret (x, mac, k, priv)"
  shows "slice_at d k mac"
proof -
  have "ensures (\<lambda>(x, mac, k, priv). slice_at d k mac) (decodeSnmpV3UsmSecurityParameters d)"
    unfolding decodeSnmpV3UsmSecurityParameters_def start_of_def
    by (intro ensures_rules;
      (simp; fail)?; (simp, rule slice_at_offset; simp)?)
  with assms show ?thesis by (simp add: ensures_def)
qed

end
