(* ===== verification/Progress.thy ===== *)
theory Progress
  imports V3Messages
begin

text \<open>
  When the decoders end.  A length of \<open>2 ^ 31\<close> or more, which no datagram needs, is what lets a NULL
  value move the iterator backwards (\<open>int_of_size\<close>); in a packet without one every decoder of
  \<open>DecodeMessages\<close> ends, because every item of a list is read forwards.
\<close>

definition small_lengths :: "bytes \<Rightarrow> bool" where
  "small_lengths d \<longleftrightarrow>
     list_all (\<lambda>k. case decodeLength (It d k) of Ret (Some l, j) \<Rightarrow> l < 0x80000000 | _ \<Rightarrow> True) [0..<length d]"

lemma small_lengthsD:
  assumes "small_lengths d" and "decodeLength (It d k) = Ret (Some l, j)" and "k \<le> length d"
  shows "unat l < 2 ^ 31"
proof (cases "k < length d")
  case True
  with assms have "l < 0x80000000" by (force simp: small_lengths_def list_all_iff)
  then show ?thesis by (simp add: word_less_nat_alt)
next
  case False
  with assms(2,3) show ?thesis by (simp add: decodeLength_def)
qed

lemma plus_int_not_Diverge [simp]: "plus_int i n \<noteq> Diverge"
  by (simp add: plus_int_def oassert_def)

lemma reads_plus_int:
  assumes "0 \<le> n" and "it_data j = it_data i" and "it_at i < it_at j"
  shows "reads i (obind (plus_int j n) (\<lambda>e. Ret (v, e)))"
proof (cases "plus_int j n")
  case (Ret e)
  then have "it_data e = it_data i \<and> in_range e \<and> it_at i < it_at e"
    using assms by (auto simp: plus_int_Ret in_range_def)
  with Ret show ?thesis by simp
qed simp_all

lemma decodeNull_reads:
  assumes small: "small_lengths d" and k: "k < length d"
  shows "reads (It d k) (decodeNull (It d k))"
proof (cases "decodeLength (It d (Suc k))")
  case (Ret p)
  obtain len second where p: "p = (len, second)" by (cases p)
  have s: "it_data second = d" "in_range second" "Suc k < it_at second"
    using decodeLength_reads [of "It d (Suc k)"] k Ret p by (auto dest: readsD)
  show ?thesis
  proof (cases len)
    case None
    have "decodeNull (It d k) =
        obind (plus_int (It d k) 2) (\<lambda>j. obind (null_skip j) (\<lambda>j. Ret (NullValue, j)))"
      using Ret p None k by (simp add: decodeNull_def)
    moreover have "plus_int (It d k) 2 = Abort \<or> plus_int (It d k) 2 = Ret (It d (k + 2)) \<and> k + 2 \<le> length d"
      by (simp add: plus_int_def oassert_def nat_add_distrib)
    ultimately show ?thesis by (auto simp: null_skip_throws)
  next
    case (Some l)
    then have "unat l < 2 ^ 31" using small_lengthsD [OF small, of "Suc k"] Ret p k by simp
    then have "0 \<le> int_of_size l" by (simp add: int_of_size_small)
    moreover have "decodeNull (It d k) = obind (plus_int second (int_of_size l)) (\<lambda>e. Ret (NullValue, e))"
      using Ret p Some k by (simp add: decodeNull_def)
    ultimately show ?thesis using s by (simp add: reads_plus_int)
  qed
qed (use k decodeLength_reads [of "It d (Suc k)"] in \<open>simp_all add: decodeNull_def\<close>)

lemma reads_if: "(b \<Longrightarrow> reads i x) \<Longrightarrow> (\<not> b \<Longrightarrow> reads i y) \<Longrightarrow> reads i (if b then x else y)"
  by simp

lemma reads_map:
  "reads i m \<Longrightarrow> reads i (obind m (\<lambda>(v, j). Ret (f v, j)))"
  "reads i m \<Longrightarrow> reads i (obind m (\<lambda>(v, j). if P v then Throw (e v) else Ret (f v, j)))"
  by (rule reads_obind; simp)+

lemma decodeValue_reads:
  assumes small: "small_lengths d" and k: "k \<le> length d"
  shows "reads (It d k) (decodeValue (It d k))"
proof (cases "k = length d")
  case False
  with k have k': "k < length d" by simp
  from k have i: "in_range (It d k)" by simp
  note typed = decodeIntValue_reads [OF i] decodeStringValue_reads [OF i] decodeOidValue_reads [OF i]
    decodeIPv4AddressValue_reads [OF i] decodeNull_reads [OF small k']
  show ?thesis
    unfolding decodeValue_def deref_eq(1) [OF k'] obind.simps
    by (intro reads_if reads_map typed reads_not_Ret)
qed (simp add: decodeValue_def)

text \<open>Two reads one after the other, the second from where the first stopped.\<close>

lemma reads_then:
  assumes "reads i m" and "\<And>x j. m = Ret (x, j) \<Longrightarrow> it_data j = it_data i \<Longrightarrow> in_range j \<Longrightarrow> reads j (f x j)"
  shows "reads i (obind m (\<lambda>(x, j). f x j))"
proof (rule reads_obind [OF assms(1)])
  fix x j
  assume m: "m = Ret (x, j)" and j: "in_range j"
  then have "reads j (f x j)" using assms readsD [OF assms(1) m] by blast
  then show "reads j (case (x, j) of (x, j) \<Rightarrow> f x j) \<or> (\<exists>y. (case (x, j) of (x, j) \<Rightarrow> f x j) = Ret (y, j))" by simp
qed

lemma reads_skip:
  assumes "reads i m"
  shows "reads i (obind m (\<lambda>(x, e). obind (if b then plus_int e 2 else Ret e) (\<lambda>j. Ret (g x, j))))"
proof (cases m)
  case (Ret p)
  obtain x e where p: "p = (x, e)" by (cases p)
  from readsD [OF assms Ret [unfolded p]] show ?thesis
    using reads_plus_int [of 2 e i "g x"] by (simp add: Ret p)
qed (use assms in simp_all)

lemma decodeVarBind_reads:
  assumes small: "small_lengths d" and k: "k \<le> length d"
  shows "reads (It d k) (decodeVarBind (It d k))"
proof -
  have "reads (It d k) (obind (decodeSequenceTypeAndLength (It d k)) (\<lambda>(x, i).
      obind (decodeOidValue i) (\<lambda>(oid, j). obind (decodeValue j) (\<lambda>(value, e).
      obind (if snd x = None then plus_int e 2 else Ret e) (\<lambda>at. Ret ((oid, value), at))))))"
  proof (rule reads_then)
    show "reads (It d k) (decodeSequenceTypeAndLength (It d k))"
      using k by (intro decodeSequenceTypeAndLength_reads) simp
    fix x :: "byte \<times> u64 option" and i
    assume i: "it_data i = it_data (It d k)" "in_range i"
    show "reads i (obind (decodeOidValue i) (\<lambda>(oid, j). obind (decodeValue j) (\<lambda>(value, e).
        obind (if snd x = None then plus_int e 2 else Ret e) (\<lambda>at. Ret ((oid, value), at)))))"
    proof (rule reads_then [OF decodeOidValue_reads [OF i(2)]])
      fix oid j
      assume "it_data j = it_data i" "in_range j"
      then obtain n where n: "j = It d n" "n \<le> length d" using i by (cases j) auto
      show "reads j (obind (decodeValue j) (\<lambda>(value, e).
          obind (if snd x = None then plus_int e 2 else Ret e) (\<lambda>at. Ret ((oid, value), at))))"
        using reads_skip [OF decodeValue_reads [OF small n(2)], where g = "Pair oid"] by (simp only: n)
    qed
  qed
  then show ?thesis by (simp add: decodeVarBind_def case_prod_unfold)
qed

text \<open>An exception's end is computed from the length of its binding.\<close>

definition exception_at :: "DecodeIterator \<Rightarrow> snmp_var \<Rightarrow> snmp_var decoded" where
  "exception_at at v =
     obind (plus_int at 1) (\<lambda>i. obind (decodeLength i) (\<lambda>(n, second).
       case n of None \<Rightarrow> Throw IndefiniteException
       | Some l \<Rightarrow> obind (plus_int second (int_of_size l)) (\<lambda>e. Ret (v, e))))"

lemma exception_reads:
  assumes small: "small_lengths d" and k: "k \<le> length d"
  shows "reads (It d k) (exception_at (It d k) v)"
proof (cases "k < length d")
  case True
  show ?thesis
  proof (cases "decodeLength (It d (Suc k))")
    case (Ret p)
    obtain n second where p: "p = (n, second)" by (cases p)
    have s: "it_data second = d" "k < it_at second"
      using readsD [OF decodeLength_reads Ret [unfolded p]] True by simp_all
    show ?thesis
    proof (cases n)
      case (Some l)
      then have "unat l < 2 ^ 31" using small_lengthsD [OF small, of "Suc k"] Ret p True by simp
      then have "0 \<le> int_of_size l" by (simp add: int_of_size_small)
      with s reads_plus_int [of "int_of_size l" second "It d k" v] show ?thesis
        using True by (simp add: exception_at_def Ret p Some)
    qed (use True in \<open>simp add: exception_at_def Ret p\<close>)
  qed (use True decodeLength_reads [of "It d (Suc k)"] in \<open>simp_all add: exception_at_def\<close>)
qed (use k in \<open>simp add: exception_at_def plus_int_def\<close>)

lemma decodeSnmpVar_eq:
  "decodeSnmpVar at =
     obind (decodeSequenceTypeAndLength at) (\<lambda>(x, i).
     obind (decodeOidValue i) (\<lambda>(oid, j).
     obind (deref j) (\<lambda>b.
       if b = 0x80 then exception_at at (SnmpVarNoSuchObject oid)
       else if b = 0x81 then exception_at at (SnmpVarNoSuchInstance oid)
       else if b = 0x82 then exception_at at (SnmpVarEndOfMibView oid)
       else obind (decodeValue j) (\<lambda>(value, e).
         obind (if snd x = None then plus_int e 2 else Ret e) (\<lambda>at. Ret (SnmpVar oid value, at))))))"
  unfolding decodeSnmpVar_def exception_at_def
  by (intro arg_cong2 [of _ _ _ _ obind] refl ext) (auto intro!: arg_cong2 [of _ _ _ _ obind] ext)

lemma decodeSnmpVar_reads:
  assumes small: "small_lengths d" and k: "k \<le> length d"
  shows "reads (It d k) (decodeSnmpVar (It d k))"
proof (cases "decodeSequenceTypeAndLength (It d k)")
  case (Ret p)
  obtain x i where p: "p = (x, i)" by (cases p)
  have i: "it_data i = d" "in_range i" "k < it_at i"
    using readsD [OF decodeSequenceTypeAndLength_reads Ret [unfolded p]] k by simp_all
  show ?thesis
  proof (cases "decodeOidValue i")
    case oid: (Ret q)
    obtain oid j where q: "q = (oid, j)" by (cases q)
    have j: "it_data j = d" "in_range j" "k < it_at j"
      using readsD [OF decodeOidValue_reads [OF i(2)] oid [unfolded q]] i by simp_all
    then obtain n where n: "j = It d n" "n \<le> length d" "k < n" by (cases j) auto
    have "reads (It d k) (obind (decodeValue j) (\<lambda>(value, e).
        obind (if snd x = None then plus_int e 2 else Ret e) (\<lambda>at. Ret (SnmpVar oid value, at))))"
      using reads_skip [OF decodeValue_reads [OF small n(2)], where g = "SnmpVar oid"]
      unfolding n(1) by (rule reads_later) (simp_all add: n(3))
    note rest = this
    show ?thesis
    proof (cases "deref j")
      case b: (Ret b)
      show ?thesis
        unfolding decodeSnmpVar_eq Ret p oid q b obind.simps prod.case
        by (intro reads_if exception_reads [OF small k] rest)
    qed (simp_all add: decodeSnmpVar_eq Ret p oid q, simp add: deref_def split: if_splits)
  qed (use decodeOidValue_reads [OF i(2)] in \<open>simp_all add: decodeSnmpVar_eq Ret p\<close>)
qed (use decodeSequenceTypeAndLength_reads [of "It d k"] k in \<open>simp_all add: decodeSnmpVar_eq\<close>)

lemma decodeMessageHeader_reads: "reads (It d 0) (decodeMessageHeader e v d)"
proof -
  have "reads (It d 0) (obind (decodeSequenceTypeAndLength (It d 0)) (\<lambda>(x, s1).
      if fst x \<noteq> 0x30 then Throw (NotSequence (fst x))
      else obind (decodeIntValue s1 0x02) (\<lambda>(version, i).
        if version \<noteq> v then Throw (e version)
        else obind (decodeStringValue i 0x04) (\<lambda>(community, i).
          obind (decodeSequenceTypeAndLength i) (\<lambda>(y, i). Ret ((community, fst y), i))))))"
    by (intro reads_then reads_if reads_not_Ret reads_map decodeSequenceTypeAndLength_reads decodeIntValue_reads
        decodeStringValue_reads) simp_all
  then show ?thesis by (simp add: decodeMessageHeader_def start_of_def case_prod_unfold cong: if_cong)
qed

lemma decodeThreeInts_reads: "in_range i \<Longrightarrow> reads i (decodeThreeInts i)"
  unfolding decodeThreeInts_def by (intro reads_then reads_map decodeIntValue_reads)
lemma decode_items_end:
  assumes item: "\<And>k. k \<le> length d \<Longrightarrow> reads (It d k) (item (It d k))" and k: "in_range i" "it_data i = d"
  shows "decode_items item i \<noteq> Diverge"
proof (cases "decodeSequenceTypeAndLength i")
  case (Ret p)
  obtain t len second where p: "p = ((t, len), second)" by (cases p) auto
  from readsD [OF decodeSequenceTypeAndLength_reads [OF k(1)] Ret [unfolded p]] k
  obtain j where "second = It d j" "j \<le> length d"
    by (cases second) auto
  then show ?thesis
    using items_loop_terminates [of d item j len second "[]"] item
    by (simp add: decode_items_def Ret p)
next
  case Diverge
  then show ?thesis using decodeSequenceTypeAndLength_reads [OF k(1)] by (simp add: reads_def)
qed (simp_all add: decode_items_def)

definition ends :: "('e, 'a) outcome \<Rightarrow> bool" where
  "ends m \<longleftrightarrow> m \<noteq> Diverge"

lemma ends_simps [simp]: "ends (Ret x)" "ends (Throw e)" "ends Abort" "ends Undef" "\<not> ends Diverge"
  by (simp_all add: ends_def)

text \<open>A read from an iterator of the packet, then the rest from where it stopped.\<close>

lemma reads_ends:
  assumes "reads i m"
    and "\<And>x j. in_range j \<Longrightarrow> it_data j = it_data i \<Longrightarrow> ends (f x j)"
  shows "ends (obind m (\<lambda>(x, j). f x j))"
  using assms by (cases m) (auto simp: reads_def)

lemma items_ends:
  assumes "in_range i"
    and "\<And>k. k \<le> length (it_data i) \<Longrightarrow> reads (It (it_data i) k) (item (It (it_data i) k))"
    and "\<And>x j. ends (f x j)"
  shows "ends (obind (decode_items item i) (\<lambda>(x, j). f x j))"
  using decode_items_end [OF assms(2,1) refl] assms(3) by (cases "decode_items item i") auto

lemma ends_if: "ends x \<Longrightarrow> ends y \<Longrightarrow> ends (if b then x else y)"
  by simp

lemma ends_case_prod: "(\<And>x y. ends (f x y j)) \<Longrightarrow> ends ((case p of (x, y) \<Rightarrow> f x y) j)"
  by (simp split: prod.split)

lemma ends_case: "(\<And>x y. ends (f x y)) \<Longrightarrow> ends (case p of (x, y) \<Rightarrow> f x y)"
  by (simp split: prod.split)

lemma value_or_ends: "ends m \<Longrightarrow> ends (value_or e m)"
  by (cases m) (simp_all add: value_or_def)

lemma timeTicksValue_ends: "ends (timeTicksValue v)"
  by (cases v) simp_all

lemma oidValue_ends: "ends (oidValue v)"
  by (cases v) simp_all

lemma ends_obind: "ends m \<Longrightarrow> (\<And>x. ends (f x)) \<Longrightarrow> ends (obind m f)"
  by (cases m) simp_all

lemma trap_vars_ends: "ends (trap_vars vs)"
  unfolding trap_vars_def
  by (intro ends_if ends_obind value_or_ends timeTicksValue_ends oidValue_ends ends_simps)

lemmas end_rules =
  ends_if ends_case_prod ends_case ends_simps
  reads_ends [OF decodeMessageHeader_reads] reads_ends [OF decodeThreeInts_reads]
  reads_ends [OF decodeOidValue_reads] reads_ends [OF decodeIPv4AddressValue_reads]
  reads_ends [OF decodeIntValue_reads] items_ends

lemma request_decoders_end:
  assumes "small_lengths d"
  shows "ends (decodeSnmpV1GetRequest d)" and "ends (decodeSnmpV1SetRequest d)"
    and "ends (decodeSnmpV1GetNextRequest d)" and "ends (decodeSnmpV2cGetRequest d)"
    and "ends (decodeSnmpV2cGetNextRequest d)" and "ends (decodeSnmpV2cGetBulkRequest d)"
    and "ends (decodeSnmpV2cSetRequest d)"
  unfolding decodeSnmpV1GetRequest_def decodeSnmpV1SetRequest_def decodeSnmpV1GetNextRequest_def
    decodeSnmpV2cGetRequest_def decodeSnmpV2cGetNextRequest_def decodeSnmpV2cGetBulkRequest_def
    decodeSnmpV2cSetRequest_def Let_def
  by (intro end_rules; simp add: decodeVarBind_reads assms)+

lemma decodeTimeTicksValue_reads: "in_range i \<Longrightarrow> reads i (decodeTimeTicksValue i)"
  unfolding decodeTimeTicksValue_int by (intro reads_map decodeIntValue_reads)

lemma other_decoders_end:
  assumes "small_lengths d"
  shows "ends (decodeSnmpV1Response d)" and "ends (decodeSnmpV1Trap d)" and "ends (decodeSnmpV2cTrap d)"
    and "ends (decodeSnmpV2cResponse d)"
  unfolding decodeSnmpV1Response_def decodeSnmpV1Trap_def decodeSnmpV2cTrap_def decodeSnmpV2cResponse_def
  by (intro end_rules reads_ends [OF decodeTimeTicksValue_reads] ends_obind [OF trap_vars_ends];
      simp add: decodeVarBind_reads decodeSnmpVar_reads assms)+

lemma decodePDU_ends:
  assumes "small_lengths d" and "k \<le> length d"
  shows "ends (decodePDU (It d k))"
  unfolding decodePDU_def
  by (intro end_rules reads_ends [OF decodeSequenceTypeAndLength_reads]; simp add: decodeSnmpVar_reads assms)

text \<open>The decoders of SNMPv3: only the protocol data unit has a list.\<close>

lemma extractRemainder_ends: "in_range i \<Longrightarrow> ends (extractRemainder i)"
  by (cases i) (simp add: in_range_def)

lemma to_flags_ends: "ends (to_flags b)"
  by (simp add: to_flags_def)

lemmas v3_end_rules =
  end_rules reads_ends [OF decodeSequenceTypeAndLength_reads] reads_ends [OF decodeStringValue_reads]
  ends_obind [OF extractRemainder_ends] ends_obind [OF to_flags_ends]

lemma decodeSnmpV3Message_ends: "ends (decodeSnmpV3Message d)"
  unfolding decodeSnmpV3Message_def start_of_def by (intro v3_end_rules; simp add: in_range_def)

lemma decodeSnmpV3UsmSecurityParameters_ends: "ends (decodeSnmpV3UsmSecurityParameters d)"
  unfolding decodeSnmpV3UsmSecurityParameters_def start_of_def by (intro v3_end_rules; simp add: in_range_def)

lemma decodePDU_ends_at:
  assumes "small_lengths d" and "in_range i" and "it_data i = d"
  shows "ends (decodePDU i)"
  using decodePDU_ends [OF assms(1), of "it_at i"] assms by (cases i) (simp add: in_range_def)

lemma decodeSnmpV3ScopedPDU_ends:
  assumes "small_lengths d"
  shows "ends (decodeSnmpV3ScopedPDU d)"
  unfolding decodeSnmpV3ScopedPDU_def start_of_def
  by (intro v3_end_rules ends_obind [OF decodePDU_ends_at]; simp add: in_range_def assms)

end
