(* ===== verification/Tables.thy ===== *)
theory Tables
  imports Value "HOL-Library.FSet" "HOL-Library.Finite_Map"
begin

text \<open>
  \<^verbatim>\<open>src/xju/snmp/SnmpV1Table.cc\<close> and \<^verbatim>\<open>SnmpV2cTable.cc\<close>: the tables a get-next client fills row by row.  The two
  classes differ in the type of a cell, in how a cell's identifier is read and in the end-of-MIB
  marker only SNMPv2c has, so the operations take these two as arguments; the definitions of each class
  follow.  The functions are declared \<^verbatim>\<open>throw()\<close> and raise no exception.

  \<open>represents\<close> is the abstract view: a table is the list of rows that were added to it.
\<close>

record 'c table =
  tbl_cols :: "oid fset"
  tbl_data :: "(oid, 'c list) fmap"
  tbl_atEnd :: bool

definition new_table :: "oid fset \<Rightarrow> 'c table" where
  "new_table cols =
     \<lparr>tbl_cols = cols, tbl_data = fmap_of_list (map (\<lambda>x. (x, [])) (sorted_list_of_fset cols)), tbl_atEnd = False\<rparr>"

text \<open>\<^verbatim>\<open>operator[]\<close>\<close>

definition column :: "'c table \<Rightarrow> oid \<Rightarrow> ('e, 'c list) outcome" where
  "column t col = (case fmlookup (tbl_data t) col of None \<Rightarrow> Abort | Some cells \<Rightarrow> Ret cells)"

text \<open>\<^verbatim>\<open>data_.begin()\<close> of a table without columns and \<^verbatim>\<open>rbegin()\<close> of an empty column must not be
  dereferenced.\<close>

definition last_oid :: "('c \<Rightarrow> oid) \<Rightarrow> 'c list \<Rightarrow> ('e, oid) outcome" where
  "last_oid oid_of cells = (if cells = [] then Undef else Ret (oid_of (last cells)))"

definition nextOids :: "('c \<Rightarrow> oid) \<Rightarrow> 'c table \<Rightarrow> ('e, oid list) outcome" where
  "nextOids oid_of t =
     (let data = sorted_list_of_fmap (tbl_data t)
      in if data = [] then Undef
         else if snd (hd data) = [] then Ret (sorted_list_of_fset (tbl_cols t))
         else
           obind (omap (\<lambda>x. last_oid oid_of (snd x)) data) (\<lambda>result.
           obind (oassert (length result = fcard (tbl_cols t))) (\<lambda>_.
           Ret result)))"

text \<open>\<^verbatim>\<open>data_[col].push_back(x)\<close>\<close>

definition push_back :: "oid \<times> 'c \<Rightarrow> (oid, 'c list) fmap \<Rightarrow> (oid, 'c list) fmap" where
  "push_back = (\<lambda>(col, x) data. fmupd col ((case fmlookup data col of None \<Rightarrow> [] | Some cells \<Rightarrow> cells) @ [x]) data)"

definition add_row :: "('c \<Rightarrow> oid) \<Rightarrow> ('c \<Rightarrow> bool) \<Rightarrow> 'c list \<Rightarrow> 'c table \<Rightarrow> ('e, 'c table) outcome" where
  "add_row oid_of ends row t =
     obind (oassert (length row = fcard (tbl_cols t))) (\<lambda>_.
       let cells = zip (sorted_list_of_fset (tbl_cols t)) row
       in if list_ex (\<lambda>(col, x). \<not> oid_contains col (oid_of x) \<or> ends x) cells
          then Ret (t\<lparr>tbl_atEnd := True\<rparr>)
          else Ret (t\<lparr>tbl_data := fold push_back cells (tbl_data t)\<rparr>))"

section \<open>The two classes\<close>

type_synonym SnmpV1Table = "(oid \<times> snmp_value) table"
type_synonym SnmpV2cTable = "snmp_var table"

definition is_end :: "snmp_var \<Rightarrow> bool" where
  "is_end v = (case v of SnmpVarEndOfMibView _ \<Rightarrow> True | _ \<Rightarrow> False)"

definition SnmpV1Table_nextOids :: "SnmpV1Table \<Rightarrow> ('e, oid list) outcome" where
  "SnmpV1Table_nextOids = nextOids fst"

definition SnmpV1Table_add :: "(oid \<times> snmp_value) list \<Rightarrow> SnmpV1Table \<Rightarrow> ('e, SnmpV1Table) outcome" where
  "SnmpV1Table_add = add_row fst (\<lambda>_. False)"

definition SnmpV2cTable_nextOids :: "SnmpV2cTable \<Rightarrow> ('e, oid list) outcome" where
  "SnmpV2cTable_nextOids = nextOids var_oid"

definition SnmpV2cTable_add :: "snmp_var list \<Rightarrow> SnmpV2cTable \<Rightarrow> ('e, SnmpV2cTable) outcome" where
  "SnmpV2cTable_add = add_row var_oid is_end"

section \<open>A table is its rows\<close>

definition cell_of :: "oid fset \<Rightarrow> 'c list \<Rightarrow> oid \<Rightarrow> 'c" where
  "cell_of cols row col = the (map_of (zip (sorted_list_of_fset cols) row) col)"

definition represents :: "'c table \<Rightarrow> 'c list list \<Rightarrow> bool" where
  "represents t rows \<longleftrightarrow>
     (\<forall>row\<in>set rows. length row = fcard (tbl_cols t)) \<and>
     (\<forall>col. fmlookup (tbl_data t) col =
       (if col |\<in>| tbl_cols t then Some (map (\<lambda>row. cell_of (tbl_cols t) row col) rows) else None))"

lemma distinct_cols [simp]: "distinct (sorted_list_of_fset xs)"
  by (simp add: sorted_list_of_fset.rep_eq)

lemma length_cols [simp]: "length (sorted_list_of_fset xs) = fcard xs"
  by (simp add: sorted_list_of_fset.rep_eq fcard.rep_eq)

lemma set_cols [simp]: "set (sorted_list_of_fset xs) = fset xs"
  by (simp add: sorted_list_of_fset.rep_eq)

lemma map_cell_of: "length row = fcard cols \<Longrightarrow> map (cell_of cols row) (sorted_list_of_fset cols) = row"
  unfolding cell_of_def using distinct_cols [of cols] length_cols [of cols]
  by (intro nth_equalityI) (simp_all add: map_of_zip_nth)

lemma represents_new: "represents (new_table cols) []"
  by (auto simp: represents_def new_table_def fmlookup_of_list map_of_map_restrict restrict_map_def)

lemma represents_column:
  "represents t rows \<Longrightarrow>
    column t col = (if col |\<in>| tbl_cols t then Ret (map (\<lambda>row. cell_of (tbl_cols t) row col) rows) else Abort)"
  by (simp add: represents_def column_def)

lemma represents_data:
  assumes "represents t rows"
  shows "sorted_list_of_fmap (tbl_data t) =
    map (\<lambda>col. (col, map (\<lambda>row. cell_of (tbl_cols t) row col) rows)) (sorted_list_of_fset (tbl_cols t))"
proof -
  have "fmdom (tbl_data t) = tbl_cols t"
    using assms by (auto simp: represents_def fmlookup_dom_iff split: if_splits)
  then show ?thesis
    using assms by (simp add: sorted_list_of_fmap_def represents_def)
qed

lemma omap_last_oid:
  "rows \<noteq> [] \<Longrightarrow>
    omap (\<lambda>x. last_oid oid_of (snd x)) (map (\<lambda>col. (col, map (\<lambda>row. g row col) rows)) cols)
      = Ret (map oid_of (map (g (last rows)) cols))"
  by (induction cols) (simp_all add: last_oid_def last_map)

lemma nextOids_represents:
  assumes rep: "represents t rows" and cols: "tbl_cols t \<noteq> {||}"
  shows "nextOids oid_of t =
    Ret (if rows = [] then sorted_list_of_fset (tbl_cols t) else map oid_of (last rows))"
proof -
  let ?cols = "sorted_list_of_fset (tbl_cols t)"
  have ne: "?cols \<noteq> []"
    using cols by (metis length_cols list.size(3) fcard_0_eq)
  note data = represents_data [OF rep]
  show ?thesis
  proof (cases "rows = []")
    case True
    then show ?thesis by (simp add: nextOids_def data ne hd_map)
  next
    case False
    with rep have len: "length (last rows) = fcard (tbl_cols t)" by (simp add: represents_def)
    from False show ?thesis
      unfolding nextOids_def data Let_def omap_last_oid [OF False] map_cell_of [OF len]
      by (simp add: ne hd_map len)
  qed
qed

lemma fold_push_back:
  assumes "distinct (map fst cells)"
  shows "fmlookup (fold push_back cells data) col =
    (case map_of cells col of None \<Rightarrow> fmlookup data col
     | Some x \<Rightarrow> Some ((case fmlookup data col of None \<Rightarrow> [] | Some xs \<Rightarrow> xs) @ [x]))"
  using assms
proof (induction cells arbitrary: data)
  case (Cons cell cells)
  then show ?case
    by (cases cell) (auto simp: push_back_def map_of_eq_None_iff [THEN iffD2] split: option.split)
qed simp

lemma add_row_eq:
  "add_row oid_of ends row t =
    (if length row \<noteq> fcard (tbl_cols t) then Abort
     else if list_all2 (\<lambda>col x. oid_contains col (oid_of x) \<and> \<not> ends x) (sorted_list_of_fset (tbl_cols t)) row
     then Ret (t\<lparr>tbl_data := fold push_back (zip (sorted_list_of_fset (tbl_cols t)) row) (tbl_data t)\<rparr>)
     else Ret (t\<lparr>tbl_atEnd := True\<rparr>))"
  by (auto simp: add_row_def Let_def list_all2_iff list_ex_iff outcome_simps)

lemma represents_add_end:
  assumes "represents t rows"
  shows "represents (t\<lparr>tbl_atEnd := b\<rparr>) rows"
  using assms by (simp add: represents_def)

lemma represents_add:
  assumes rep: "represents t rows" and len: "length row = fcard (tbl_cols t)"
  shows "represents (t\<lparr>tbl_data := fold push_back (zip (sorted_list_of_fset (tbl_cols t)) row) (tbl_data t)\<rparr>)
    (rows @ [row])"
proof -
  let ?cells = "zip (sorted_list_of_fset (tbl_cols t)) row"
  have "distinct (map fst ?cells)" using len by simp
  note look = fold_push_back [OF this, of "tbl_data t"]
  have "map_of ?cells col = (if col |\<in>| tbl_cols t then Some (cell_of (tbl_cols t) row col) else None)" for col
  proof -
    have "col \<in> fst ` set ?cells \<longleftrightarrow> col |\<in>| tbl_cols t"
      using len by (metis length_cols list.set_map map_fst_zip set_cols)
    then show ?thesis by (auto simp: cell_of_def map_of_eq_None_iff dom_map_of_conv_image_fst domIff)
  qed
  with rep len show ?thesis by (auto simp: represents_def look)
qed

end
