(* ===== verification/Walk.thy ===== *)
theory Walk
  imports Tables Validate
begin

text \<open>
  The get-next client of \<^verbatim>\<open>src/xju/snmp.hh\<close> (the use of the tables that its comment describes): while
  the table is not at its end, ask for \<^verbatim>\<open>nextOids()\<close> and \<^verbatim>\<open>add\<close> the row that comes back.  The agent that
  answers is the environment: a MIB in ascending order, each answer the next entry after the identifier
  asked for, as SNMP defines get-next.

  \<open>table_walk\<close> is the contract of one version's cells and answers; both versions meet it.
\<close>

section \<open>The agent\<close>

type_synonym mib = "(oid \<times> snmp_value) list"

definition next_entry :: "mib \<Rightarrow> oid \<Rightarrow> (oid \<times> snmp_value) option" where
  "next_entry mib x = find (\<lambda>e. x < fst e) mib"

definition v2c_agent :: "mib \<Rightarrow> oid list \<Rightarrow> ('e, snmp_var list) outcome" where
  "v2c_agent mib oids = Ret (map (\<lambda>x.
     case next_entry mib x of None \<Rightarrow> SnmpVarEndOfMibView x | Some (y, v) \<Rightarrow> SnmpVar y v) oids)"

text \<open>An SNMPv1 agent answers a request that runs past the end of the MIB with the error noSuchName,
  which \<open>validate_SnmpV1GetNextRequest\<close> turns into a row of \<open>end_oid\<close>s.\<close>

definition v1_agent :: "mib \<Rightarrow> oid list \<Rightarrow> ('e, (oid \<times> snmp_value) list) outcome" where
  "v1_agent mib oids =
     (if list_all (\<lambda>x. next_entry mib x \<noteq> None) oids
      then Ret (map (\<lambda>x. the (next_entry mib x)) oids)
      else Ret (map (\<lambda>x. (end_oid, NullValue)) oids))"

section \<open>The client\<close>

definition walk ::
    "('c table \<Rightarrow> ('e, oid list) outcome) \<Rightarrow> ('c list \<Rightarrow> 'c table \<Rightarrow> ('e, 'c table) outcome) \<Rightarrow>
      (oid list \<Rightarrow> ('e, 'c list) outcome) \<Rightarrow> 'c table \<Rightarrow> ('e, 'c table) outcome" where
  "walk next_oids add fetch t =
     owhile (\<lambda>t. Ret (\<not> tbl_atEnd t))
       (\<lambda>t. obind (next_oids t) (\<lambda>oids. obind (fetch oids) (\<lambda>row. add row t))) t"

section \<open>Entries below a column\<close>

definition below :: "mib \<Rightarrow> oid \<Rightarrow> mib" where
  "below mib c = filter (\<lambda>e. c < fst e \<and> oid_contains c (fst e)) mib"

text \<open>The number of rows: the entries of the shortest column.\<close>

definition shortest :: "mib \<Rightarrow> oid fset \<Rightarrow> nat" where
  "shortest mib cols = Min ((\<lambda>c. length (below mib c)) ` fset cols)"

lemma find_filter: "find P xs = (case filter P xs of [] \<Rightarrow> None | x # _ \<Rightarrow> Some x)"
  by (induction xs) simp_all

text \<open>The first entry after \<open>x\<close> is the first one after \<open>x\<close> in an interval that \<open>x\<close> is below or in, if the
  interval has any.\<close>

lemma next_in_interval:
  assumes "sorted_wrt (<) (map fst mib)"
    and "\<And>y z. x < y \<Longrightarrow> y \<le> z \<Longrightarrow> P z \<Longrightarrow> P y"
  shows "case filter (\<lambda>e. x < fst e \<and> P (fst e)) mib of
      [] \<Rightarrow> (\<forall>e. next_entry mib x = Some e \<longrightarrow> \<not> P (fst e))
    | e # _ \<Rightarrow> next_entry mib x = Some e"
proof -
  let ?l = "filter (\<lambda>e. x < fst e) mib"
  have l: "filter (\<lambda>e. x < fst e \<and> P (fst e)) mib = filter (\<lambda>e. P (fst e)) ?l"
    by (simp add: conj_commute)
  have nxt: "next_entry mib x = (case ?l of [] \<Rightarrow> None | e # _ \<Rightarrow> Some e)"
    by (simp add: next_entry_def find_filter)
  have sorted: "sorted_wrt (\<lambda>e f. fst e < fst f) ?l"
    using assms(1) by (intro sorted_wrt_filter) (simp add: sorted_wrt_map)
  show ?thesis
  proof (cases ?l)
    case (Cons e es)
    then have "e \<in> set ?l" by simp
    then have x: "x < fst e" by simp
    show ?thesis
    proof (cases "P (fst e)")
      case False
      have "\<not> P (fst f)" if "f \<in> set es" for f
        using that sorted Cons assms(2) [OF x, of "fst f"] False by (auto simp: less_imp_le)
      then have "filter (\<lambda>e. P (fst e)) ?l = []" using Cons False by (simp add: filter_empty_conv)
      then show ?thesis unfolding l nxt Cons using False by simp
    qed (simp add: l nxt Cons)
  qed (simp add: l nxt)
qed

lemma filter_greater:
  assumes "sorted_wrt (\<lambda>e f. fst e < (fst f :: 'a :: linorder)) (xs @ x # ys)"
  shows "filter (\<lambda>e. fst x < fst e) (xs @ x # ys) = ys"
proof -
  from assms have "\<forall>e\<in>set xs. fst e < fst x" "\<forall>e\<in>set ys. fst x < fst e"
    by (simp_all add: sorted_wrt_append)
  then show ?thesis by (auto simp: filter_empty_conv filter_id_conv)
qed

lemma filter_greater_nth:
  assumes "sorted_wrt (<) (map fst es)" and "k < length es"
  shows "filter (\<lambda>e. fst (es ! k) < (fst e :: 'a :: linorder)) es = drop (Suc k) es"
proof -
  note es = id_take_nth_drop [OF assms(2)]
  have "sorted_wrt (\<lambda>e f. fst e < fst f) (take k es @ es ! k # drop (Suc k) es)"
    using assms(1) unfolding es [symmetric] by (simp add: sorted_wrt_map)
  from filter_greater [OF this] show ?thesis unfolding es [symmetric] .
qed

text \<open>Where the client stands in a column after \<open>k\<close> rows.\<close>

definition pos :: "mib \<Rightarrow> nat \<Rightarrow> oid \<Rightarrow> oid" where
  "pos mib k c = (if k = 0 then c else fst (below mib c ! (k - 1)))"

lemma next_pos:
  assumes "sorted_wrt (<) (map fst mib)" and "k \<le> length (below mib c)"
  shows "if k < length (below mib c) then next_entry mib (pos mib k c) = Some (below mib c ! k)
    else \<forall>e. next_entry mib (pos mib k c) = Some e \<longrightarrow> \<not> oid_contains c (fst e)"
proof -
  let ?x = "pos mib k c"
  have s: "sorted_wrt (<) (map fst (below mib c))"
    using assms(1) unfolding below_def sorted_wrt_map by (rule sorted_wrt_filter)
  have e: "c < fst e \<and> oid_contains c (fst e)" if "e \<in> set (below mib c)" for e
    using that by (simp add: below_def)
  have x: "c \<le> ?x" "oid_contains c ?x"
    using e [OF nth_mem, of "k - 1"] assms(2) by (auto simp: pos_def less_imp_le oid_contains_prefix)
  have "filter (\<lambda>e. ?x < fst e \<and> oid_contains c (fst e)) mib = drop k (below mib c)"
  proof (cases k)
    case (Suc j)
    have "filter (\<lambda>e. ?x < fst e) (below mib c) = drop (Suc j) (below mib c)"
      using filter_greater_nth [OF s, of j] assms(2) Suc by (simp add: pos_def)
    moreover have "filter (\<lambda>e. ?x < fst e) (below mib c) = filter (\<lambda>e. ?x < fst e \<and> oid_contains c (fst e)) mib"
      unfolding below_def filter_filter using x(1) by (intro filter_cong) auto
    ultimately show ?thesis by (simp add: Suc)
  qed (simp add: pos_def below_def)
  moreover have "oid_contains c y" if "?x < y" "y \<le> z" "oid_contains c z" for y z
    using that x(2) prefix_between [of "components c" "components ?x" "components z" "components y"]
    by (simp add: oid_contains_prefix less_oid less_eq_oid)
  ultimately show ?thesis
    using next_in_interval [OF assms(1), of ?x "oid_contains c"]
    by (auto split: list.splits simp: drop_eq_Nil Cons_nth_drop_Suc [symmetric])
qed

section \<open>The walk\<close>

lemma map_take_nth: "n \<le> length xs \<Longrightarrow> map f (take n xs) = map (\<lambda>j. f (xs ! j)) [0..<n]"
  by (rule nth_equalityI) simp_all

lemma not_list_all2: "i < length cs \<Longrightarrow> length cs = length row \<Longrightarrow> \<not> P (cs ! i) (row ! i) \<Longrightarrow> \<not> list_all2 P cs row"
  by (auto simp: list_all2_conv_all_nth)

text \<open>The cell of an entry, and answers: a row of cells as long as every entry is there, and otherwise
  a row that no columns accept.\<close>

locale table_walk =
  fixes oid_of :: "'c \<Rightarrow> oid" and marks_end :: "'c \<Rightarrow> bool"
    and cell :: "oid \<times> snmp_value \<Rightarrow> 'c" and agent :: "mib \<Rightarrow> oid list \<Rightarrow> ('e, 'c list) outcome"
    and column_ok :: "oid \<Rightarrow> bool"
  assumes cell_oid: "oid_of (cell e) = fst e"
    and cell_no_end: "\<not> marks_end (cell e)"
    and found: "\<forall>x\<in>set oids. next_entry mib x \<noteq> None \<Longrightarrow>
      agent mib oids = Ret (map (\<lambda>x. cell (the (next_entry mib x))) oids)"
    and past_end: "\<exists>x\<in>set oids. next_entry mib x = None \<Longrightarrow> \<forall>c\<in>set cs. column_ok c \<Longrightarrow>
      length cs = length oids \<Longrightarrow> \<exists>row. agent mib oids = Ret row \<and> length row = length oids \<and>
        \<not> list_all2 (\<lambda>c x. oid_contains c (oid_of x) \<and> \<not> marks_end x) cs row"
begin

definition rows_of :: "mib \<Rightarrow> oid list \<Rightarrow> nat \<Rightarrow> 'c list list" where
  "rows_of mib cs k = map (\<lambda>j. map (\<lambda>c. cell (below mib c ! j)) cs) [0..<k]"

lemma next_row:
  assumes "sorted_wrt (<) (map fst mib)" and "\<forall>c\<in>set cs. k < length (below mib c)"
  shows "agent mib (map (pos mib k) cs) = Ret (map (\<lambda>c. cell (below mib c ! k)) cs)"
    and "list_all2 (\<lambda>c x. oid_contains c (oid_of x) \<and> \<not> marks_end x) cs (map (\<lambda>c. cell (below mib c ! k)) cs)"
proof -
  have nxt: "next_entry mib (pos mib k c) = Some (below mib c ! k)" if "c \<in> set cs" for c
    using next_pos [OF assms(1), of k c] assms(2) that by (auto simp: less_imp_le)
  then have "\<forall>x\<in>set (map (pos mib k) cs). next_entry mib x \<noteq> None" by simp
  from found [OF this] nxt show "agent mib (map (pos mib k) cs) = Ret (map (\<lambda>c. cell (below mib c ! k)) cs)"
    by simp
  have "oid_contains c (fst (below mib c ! k))" if "c \<in> set cs" for c
    using assms(2) that nth_mem [of k "below mib c"] by (auto simp: below_def)
  then show "list_all2 (\<lambda>c x. oid_contains c (oid_of x) \<and> \<not> marks_end x) cs
      (map (\<lambda>c. cell (below mib c ! k)) cs)"
    by (auto simp: list_all2_conv_all_nth cell_oid cell_no_end)
qed

lemma last_row:
  assumes "sorted_wrt (<) (map fst mib)" and "\<forall>c\<in>set cs. k \<le> length (below mib c)"
    and "c0 \<in> set cs" and "k = length (below mib c0)" and "\<forall>c\<in>set cs. column_ok c"
  shows "\<exists>row. agent mib (map (pos mib k) cs) = Ret row \<and> length row = length cs \<and>
    \<not> list_all2 (\<lambda>c x. oid_contains c (oid_of x) \<and> \<not> marks_end x) cs row"
proof (cases "\<exists>x\<in>set (map (pos mib k) cs). next_entry mib x = None")
  case True
  from past_end [OF True assms(5)] show ?thesis by simp
next
  case False
  then have all: "\<forall>x\<in>set (map (pos mib k) cs). next_entry mib x \<noteq> None" by simp
  let ?row = "map (\<lambda>c. cell (the (next_entry mib (pos mib k c)))) cs"
  have "agent mib (map (pos mib k) cs) = Ret ?row" using found [OF all] by (simp add: comp_def)
  moreover obtain e where e: "next_entry mib (pos mib k c0) = Some e" using all assms(3) by auto
  then have "\<not> oid_contains c0 (fst e)" using next_pos [OF assms(1), of k c0] assms(4) by simp
  then have "\<not> list_all2 (\<lambda>c x. oid_contains c (oid_of x) \<and> \<not> marks_end x) cs ?row"
    using assms(3) e by (auto simp: list_all2_map2 list_all2_same cell_oid cell_no_end intro!: bexI [of _ c0])
  ultimately show ?thesis by auto
qed

abbreviation client :: "mib \<Rightarrow> 'c table \<Rightarrow> ('e, 'c table) outcome" where
  "client mib \<equiv> walk (nextOids oid_of) (add_row oid_of marks_end) (agent mib)"

lemma last_rows_of: "0 < k \<Longrightarrow> map oid_of (last (rows_of mib cs k)) = map (pos mib k) cs"
  by (cases k) (simp_all add: rows_of_def pos_def cell_oid)

lemma rows_of_Suc: "rows_of mib cs (Suc k) = rows_of mib cs k @ [map (\<lambda>c. cell (below mib c ! k)) cs]"
  by (simp add: rows_of_def)

lemma asks:
  assumes "represents t (rows_of mib (sorted_list_of_fset (tbl_cols t)) k)" and "tbl_cols t \<noteq> {||}"
  shows "nextOids oid_of t = Ret (map (pos mib k) (sorted_list_of_fset (tbl_cols t)))"
proof (cases k)
  case 0
  then show ?thesis by (simp add: nextOids_represents [OF assms] rows_of_def pos_def map_idI)
next
  case (Suc j)
  then have "rows_of mib (sorted_list_of_fset (tbl_cols t)) k \<noteq> []" by (simp add: rows_of_def)
  with Suc show ?thesis by (simp add: nextOids_represents [OF assms] last_rows_of)
qed

lemma client_from:
  assumes sorted: "sorted_wrt (<) (map fst mib)"
    and all: "\<forall>c |\<in>| tbl_cols t. n \<le> length (below mib c) \<and> column_ok c"
    and c0: "c0 |\<in>| tbl_cols t" "n = length (below mib c0)"
    and k: "k \<le> n" and t: "represents t (rows_of mib (sorted_list_of_fset (tbl_cols t)) k)" "\<not> tbl_atEnd t"
  shows "\<exists>t'. client mib t = Ret t' \<and> tbl_atEnd t' \<and> tbl_cols t' = tbl_cols t \<and>
    represents t' (rows_of mib (sorted_list_of_fset (tbl_cols t)) n)"
  using k t all c0
proof (induction "n - k" arbitrary: k t)
  case 0
  let ?cs = "sorted_list_of_fset (tbl_cols t)"
  from 0 have "n = k" by simp
  with 0 obtain row where row: "agent mib (map (pos mib k) ?cs) = Ret row" "length row = length ?cs"
    "\<not> list_all2 (\<lambda>c x. oid_contains c (oid_of x) \<and> \<not> marks_end x) ?cs row"
    using last_row [OF sorted, of ?cs k c0] by auto
  have ne: "tbl_cols t \<noteq> {||}" using 0 by auto
  have "add_row oid_of marks_end row t = (Ret (t\<lparr>tbl_atEnd := True\<rparr>) :: ('e, 'c table) outcome)"
    using row by (simp add: add_row_eq)
  moreover have "client mib (t\<lparr>tbl_atEnd := True\<rparr>) = Ret (t\<lparr>tbl_atEnd := True\<rparr>)"
    unfolding walk_def by (subst owhile_unfold) simp
  ultimately have "client mib t = Ret (t\<lparr>tbl_atEnd := True\<rparr>)"
    unfolding walk_def using 0 row
    by (subst owhile_unfold) (simp add: asks [OF _ ne])
  with 0 \<open>n = k\<close> show ?case by (simp add: represents_add_end)
next
  case (Suc m)
  let ?cs = "sorted_list_of_fset (tbl_cols t)"
  let ?row = "map (\<lambda>c. cell (below mib c ! k)) ?cs"
  let ?t = "t\<lparr>tbl_data := fold push_back (zip ?cs ?row) (tbl_data t)\<rparr>"
  have ne: "tbl_cols t \<noteq> {||}" using Suc by auto
  have k: "\<forall>c\<in>set ?cs. k < length (below mib c)" using Suc by fastforce
  note row = next_row [OF sorted k]
  have "add_row oid_of marks_end ?row t = (Ret ?t :: ('e, 'c table) outcome)"
    using row by (simp add: add_row_eq)
  then have step: "client mib t = client mib ?t"
    unfolding walk_def using Suc row
    by (subst owhile_unfold) (simp add: asks [OF _ ne])
  have "represents ?t (rows_of mib ?cs (Suc k))"
    unfolding rows_of_Suc using Suc by (intro represents_add) simp_all
  then show ?case
    unfolding step using Suc.hyps(1) [of "Suc k" ?t] Suc.hyps(2) Suc.prems by simp
qed

lemma collects:
  assumes "sorted_wrt (<) (map fst mib)" and "cols \<noteq> {||}" and "\<forall>c |\<in>| cols. column_ok c"
  shows "\<exists>t. client mib (new_table cols) = Ret t \<and> tbl_atEnd t \<and>
    (\<forall>c |\<in>| cols. column t c = Ret (map cell (take (shortest mib cols) (below mib c))))"
proof -
  let ?n = "shortest mib cols" and ?t = "new_table cols :: 'c table"
  have cols: "tbl_cols ?t = cols" "\<not> tbl_atEnd ?t" by (simp_all add: new_table_def)
  have fin: "finite ((\<lambda>c. length (below mib c)) ` fset cols)" "(\<lambda>c. length (below mib c)) ` fset cols \<noteq> {}"
    using assms(2) by auto
  obtain c0 where c0: "c0 |\<in>| cols" "?n = length (below mib c0)"
    using Min_in [OF fin] by (auto simp: shortest_def)
  have le: "\<forall>c |\<in>| cols. ?n \<le> length (below mib c)"
    using Min_le [OF fin(1)] by (auto simp: shortest_def)
  have "represents ?t (rows_of mib (sorted_list_of_fset (tbl_cols ?t)) 0)"
    using represents_new [of cols] by (simp add: rows_of_def)
  from client_from [OF assms(1) _ _ _ _ this cols(2), of ?n c0] c0 le assms(3)
  obtain t where t: "client mib ?t = Ret t" "tbl_atEnd t" "tbl_cols t = cols"
    "represents t (rows_of mib (sorted_list_of_fset cols) ?n)"
    unfolding cols(1) by auto
  have "column t c = Ret (map cell (take ?n (below mib c)))" if "c |\<in>| cols" for c
  proof -
    have "cell_of cols (map (\<lambda>c. cell (below mib c ! j)) (sorted_list_of_fset cols)) c = cell (below mib c ! j)" for j
      using that by (simp add: cell_of_def map_of_zip_map)
    then show ?thesis
      using that le t(3) by (simp add: represents_column [OF t(4)] rows_of_def comp_def map_take_nth)
  qed
  with t show ?thesis by blast
qed

end

interpretation v2c: table_walk var_oid is_end "\<lambda>e. SnmpVar (fst e) (snd e)" v2c_agent "\<lambda>_. True"
proof
  fix oids mib and cs :: "oid list"
  assume "\<exists>x\<in>set oids. next_entry mib x = None" and "length cs = length oids"
  then obtain i where "i < length cs" "length cs = length oids" "next_entry mib (oids ! i) = None"
    by (auto simp: in_set_conv_nth)
  then have "\<not> list_all2 (\<lambda>c x. oid_contains c (var_oid x) \<and> \<not> is_end x) cs (map (\<lambda>x.
      case next_entry mib x of None \<Rightarrow> SnmpVarEndOfMibView x | Some (y, v) \<Rightarrow> SnmpVar y v) oids)"
    by (intro not_list_all2 [of i]) (simp_all add: is_end_def)
  then show "\<exists>row. v2c_agent mib oids = Ret row \<and> length row = length oids \<and>
      \<not> list_all2 (\<lambda>c x. oid_contains c (var_oid x) \<and> \<not> is_end x) cs row"
    by (simp add: v2c_agent_def)
next
  fix oids mib
  assume "\<forall>x\<in>set oids. next_entry mib x \<noteq> None"
  then show "v2c_agent mib oids = Ret (map (\<lambda>x. SnmpVar (fst (the (next_entry mib x))) (snd (the (next_entry mib x)))) oids)"
    by (auto simp: v2c_agent_def)
qed (simp_all add: is_end_def)

interpretation v1: table_walk fst "\<lambda>_. False" "\<lambda>e. e" v1_agent "\<lambda>c. \<not> oid_contains c end_oid"
proof
  fix oids mib and cs :: "oid list"
  assume x: "\<exists>x\<in>set oids. next_entry mib x = None" and cs: "\<forall>c\<in>set cs. \<not> oid_contains c end_oid"
    and len: "length cs = length oids"
  from x len have i: "0 < length cs" by (auto simp: in_set_conv_nth)
  from x have "\<not> list_all (\<lambda>x. next_entry mib x \<noteq> None) oids"
    by (auto simp: list_all_iff simp del: not_None_eq)
  moreover have "\<not> list_all2 (\<lambda>c x. oid_contains c (fst x) \<and> \<not> False) cs (map (\<lambda>x. (end_oid, NullValue)) oids)"
    using i cs len by (intro not_list_all2 [OF i]) simp_all
  ultimately show "\<exists>row. v1_agent mib oids = Ret row \<and> length row = length oids \<and>
      \<not> list_all2 (\<lambda>c x. oid_contains c (fst x) \<and> \<not> False) cs row"
    by (simp add: v1_agent_def)
next
  fix oids mib
  assume "\<forall>x\<in>set oids. next_entry mib x \<noteq> None"
  then show "v1_agent mib oids = Ret (map (\<lambda>x. the (next_entry mib x)) oids)"
    by (simp add: v1_agent_def list_all_iff)
qed simp_all

text \<open>The condition on the columns is needed: for a column that contains .1.3 itself the row that stands
  for noSuchName is a row like any other, and the next request starts again from .1.3.\<close>

definition root_row :: "(oid \<times> snmp_value) list" where
  "root_row = [(end_oid, NullValue)]"

definition at_root :: "SnmpV1Table \<Rightarrow> bool" where
  "at_root t \<longleftrightarrow> tbl_cols t = {|end_oid|} \<and> \<not> tbl_atEnd t \<and> (\<exists>n. represents t (replicate n root_row))"

lemma root_columns: "sorted_list_of_fset {|end_oid|} = [end_oid]" "fcard {|end_oid|} = 1"
  by (simp_all add: sorted_list_of_fset.rep_eq fcard.rep_eq)

lemma root_asks: "represents t (replicate n root_row) \<Longrightarrow> tbl_cols t = {|end_oid|} \<Longrightarrow>
    SnmpV1Table_nextOids t = Ret [end_oid]"
  by (cases "n = 0") (simp_all add: SnmpV1Table_nextOids_def nextOids_represents root_columns root_row_def)

definition with_root_row :: "SnmpV1Table \<Rightarrow> SnmpV1Table" where
  "with_root_row t = t\<lparr>tbl_data := fold push_back (zip (sorted_list_of_fset (tbl_cols t)) root_row) (tbl_data t)\<rparr>"

lemma root_adds: "tbl_cols t = {|end_oid|} \<Longrightarrow> SnmpV1Table_add root_row t = Ret (with_root_row t)"
  by (simp add: SnmpV1Table_add_def add_row_eq root_columns root_row_def oid_contains_prefix with_root_row_def)

lemma root_stays:
  assumes "at_root t"
  shows "at_root (with_root_row t)"
proof -
  from assms obtain n where n: "represents t (replicate n root_row)" "tbl_cols t = {|end_oid|}" "\<not> tbl_atEnd t"
    by (auto simp: at_root_def)
  then have "represents (with_root_row t) (replicate n root_row @ [root_row])"
    unfolding with_root_row_def by (intro represents_add) (simp_all add: root_columns root_row_def)
  then have "represents (with_root_row t) (replicate (Suc n) root_row)"
    by (simp add: replicate_append_same)
  then have "\<exists>n. represents (with_root_row t) (replicate n root_row)" by blast
  then show ?thesis using n by (simp add: at_root_def with_root_row_def)
qed

lemma v1_walk_of_root:
  "walk SnmpV1Table_nextOids SnmpV1Table_add (v1_agent []) (new_table {|end_oid|}) = Diverge"
  unfolding walk_def
proof (rule owhile_diverges [where J = at_root])
  have "represents (new_table {|end_oid|}) (replicate 0 root_row)"
    using represents_new by simp
  then show "at_root (new_table {|end_oid|})"
    unfolding at_root_def by (simp add: new_table_def exI [of _ 0])
  fix t
  assume t: "at_root t"
  then obtain n where n: "represents t (replicate n root_row)" "tbl_cols t = {|end_oid|}" "\<not> tbl_atEnd t"
    by (auto simp: at_root_def)
  have "v1_agent [] [end_oid] = Ret root_row"
    by (simp add: v1_agent_def next_entry_def root_row_def)
  then show "Ret (\<not> tbl_atEnd t) = Ret True \<and>
      (\<exists>t'. obind (SnmpV1Table_nextOids t) (\<lambda>oids. obind (v1_agent [] oids) (\<lambda>row. SnmpV1Table_add row t)) = Ret t' \<and>
        at_root t')"
    using root_stays [OF t] n(3)
    by (simp add: root_asks [OF n(1,2)] root_adds [OF n(2)] v1_agent_def next_entry_def root_row_def [symmetric])
qed

end
