(* ===== verification/Dispatch.thy ===== *)
theory Dispatch
  imports DecodeMessages
begin

text \<open>
  How a server tells requests apart: \<^verbatim>\<open>handleRequest\<close>, \<^verbatim>\<open>handleV1Request\<close> and \<^verbatim>\<open>handleV2cRequest\<close> in the
  comment of \<^verbatim>\<open>src/xju/snmp.hh\<close> try one decoder after the other and go on when one raises
  \<^verbatim>\<open>SnmpVersionMismatch\<close> or \<^verbatim>\<open>RequestTypeMismatch\<close>.  That works because a packet that one decoder accepts
  makes every other one raise exactly these.
\<close>

definition accepts :: "(snmp_error, 'a) outcome \<Rightarrow> (snmp_error, unit) outcome" where
  "accepts m = obind m (\<lambda>_. Ret ())"

text \<open>The request decoders of each version, by the type byte they expect.\<close>

definition v1_requests :: "bytes \<Rightarrow> (byte \<times> (snmp_error, unit) outcome) list" where
  "v1_requests d =
     [(0xA0, accepts (decodeSnmpV1GetRequest d)),
      (0xA1, accepts (decodeSnmpV1GetNextRequest d)),
      (0xA3, accepts (decodeSnmpV1SetRequest d))]"

definition v2c_requests :: "bytes \<Rightarrow> (byte \<times> (snmp_error, unit) outcome) list" where
  "v2c_requests d =
     [(0xA0, accepts (decodeSnmpV2cGetRequest d)),
      (0xA1, accepts (decodeSnmpV2cGetNextRequest d)),
      (0xA5, accepts (decodeSnmpV2cGetBulkRequest d)),
      (0xA3, accepts (decodeSnmpV2cSetRequest d))]"

lemma header_other_version:
  assumes "decodeMessageHeader e v d = Ret r" and "v \<noteq> w"
  shows "decodeMessageHeader f w d = Throw (f v)"
  using assms by (auto simp: decodeMessageHeader_def split: if_splits)

text \<open>Every request decoder is its header's check followed by the check of the type.\<close>

definition checked_request ::
    "u64 \<Rightarrow> byte \<Rightarrow> bytes \<Rightarrow> (community \<times> byte \<Rightarrow> DecodeIterator \<Rightarrow> (snmp_error, unit) outcome) \<Rightarrow> (snmp_error, unit) outcome"
where
  "checked_request v t d f =
     obind (decodeMessageHeader (\<lambda>x. SnmpVersionMismatch x v) v d) (\<lambda>(h, i).
       if snd h \<noteq> t then Throw (RequestTypeMismatch (snd h) t) else f h i)"

lemma accepts_obind: "accepts (obind m f) = obind m (\<lambda>x. accepts (f x))"
  by (simp add: accepts_def obind_assoc)

lemma accepts_checked:
  "accepts (obind (decodeMessageHeader (\<lambda>x. SnmpVersionMismatch x v) v d) (\<lambda>((c, t'), i).
     if t' \<noteq> t then Throw (RequestTypeMismatch t' t) else f c t' i))
   = checked_request v t d (\<lambda>h i. accepts (f (fst h) (snd h) i))"
  unfolding checked_request_def accepts_obind
  by (intro arg_cong2 [of _ _ _ _ obind] refl ext) (simp add: accepts_def split: prod.split)

lemma requests_checked:
  "\<exists>f. accepts (decodeSnmpV1GetRequest d) = checked_request 0 0xA0 d f"
  "\<exists>f. accepts (decodeSnmpV1GetNextRequest d) = checked_request 0 0xA1 d f"
  "\<exists>f. accepts (decodeSnmpV1SetRequest d) = checked_request 0 0xA3 d f"
  "\<exists>f. accepts (decodeSnmpV2cGetRequest d) = checked_request 1 0xA0 d f"
  "\<exists>f. accepts (decodeSnmpV2cGetNextRequest d) = checked_request 1 0xA1 d f"
  "\<exists>f. accepts (decodeSnmpV2cGetBulkRequest d) = checked_request 1 0xA5 d f"
  "\<exists>f. accepts (decodeSnmpV2cSetRequest d) = checked_request 1 0xA3 d f"
  unfolding decodeSnmpV1GetRequest_def decodeSnmpV1GetNextRequest_def decodeSnmpV1SetRequest_def
    decodeSnmpV2cGetRequest_def decodeSnmpV2cGetNextRequest_def decodeSnmpV2cGetBulkRequest_def
    decodeSnmpV2cSetRequest_def accepts_checked
  by blast+

lemma requests_are_checked:
  "(t, m) \<in> set (v1_requests d) \<Longrightarrow> \<exists>f. m = checked_request 0 t d f"
  "(t, m) \<in> set (v2c_requests d) \<Longrightarrow> \<exists>f. m = checked_request 1 t d f"
  using requests_checked [of d] by (auto simp: v1_requests_def v2c_requests_def)

lemma checked_request_accepts:
  assumes "checked_request v t d f = Ret u"
  shows "t' \<noteq> t \<Longrightarrow> checked_request v t' d g = Throw (RequestTypeMismatch t t')"
    and "w \<noteq> v \<Longrightarrow> checked_request w t' d g = Throw (SnmpVersionMismatch v w)"
proof -
  from assms obtain h i where h: "decodeMessageHeader (\<lambda>x. SnmpVersionMismatch x v) v d = Ret (h, i)" "snd h = t"
    by (auto simp: checked_request_def split: if_splits)
  then show "checked_request v t' d g = Throw (RequestTypeMismatch t t')" if "t' \<noteq> t"
    using that by (simp add: checked_request_def)
  show "checked_request w t' d g = Throw (SnmpVersionMismatch v w)" if "w \<noteq> v"
    using header_other_version [OF h(1), of w] that by (simp add: checked_request_def)
qed

lemma v1_request_dispatch:
  assumes "(t, Ret ()) \<in> set (v1_requests d)"
  shows "\<forall>(u, m) \<in> set (v1_requests d). u \<noteq> t \<longrightarrow> m = Throw (RequestTypeMismatch t u)"
    and "\<forall>(u, m) \<in> set (v2c_requests d). m = Throw (SnmpVersionMismatch 0 1)"
proof -
  from requests_are_checked(1) [OF assms] obtain f where f: "checked_request 0 t d f = Ret ()" by metis
  show "\<forall>(u, m) \<in> set (v1_requests d). u \<noteq> t \<longrightarrow> m = Throw (RequestTypeMismatch t u)"
    using requests_are_checked(1) checked_request_accepts(1) [OF f] by fast
  show "\<forall>(u, m) \<in> set (v2c_requests d). m = Throw (SnmpVersionMismatch 0 1)"
    using requests_are_checked(2) checked_request_accepts(2) [OF f, of 1] by fastforce
qed

lemma v2c_request_dispatch:
  assumes "(t, Ret ()) \<in> set (v2c_requests d)"
  shows "\<forall>(u, m) \<in> set (v2c_requests d). u \<noteq> t \<longrightarrow> m = Throw (RequestTypeMismatch t u)"
    and "\<forall>(u, m) \<in> set (v1_requests d). m = Throw (SnmpVersionMismatch 1 0)"
proof -
  from requests_are_checked(2) [OF assms] obtain f where f: "checked_request 1 t d f = Ret ()" by metis
  show "\<forall>(u, m) \<in> set (v2c_requests d). u \<noteq> t \<longrightarrow> m = Throw (RequestTypeMismatch t u)"
    using requests_are_checked(2) checked_request_accepts(1) [OF f] by fast
  show "\<forall>(u, m) \<in> set (v1_requests d). m = Throw (SnmpVersionMismatch 1 0)"
    using requests_are_checked(1) checked_request_accepts(2) [OF f, of 0] by fastforce
qed

end
