(* ===== verification/Usm.thy ===== *)
theory Usm
  imports V3Messages
begin

text \<open>
  The user-based security model of SNMPv3: \<^verbatim>\<open>src/xju/snmp/encodeSnmpV3UsmMessage.hcp\<close>,
  \<^verbatim>\<open>decodeSnmpV3UsmMessage.hcp\<close>, the encrypters and decrypters \<^verbatim>\<open>NoPriv...\<close>, \<^verbatim>\<open>AES128cfb...\<close> and
  \<^verbatim>\<open>DEScbc...\<close>, their initialisation vectors and \<^verbatim>\<open>localiseSnmpV3UsmPassword.hcp\<close>.

  The ciphers and digests are calls of libgcrypt: they are arguments of the definitions.  What is
  assumed of a cipher is \<open>inverse_ciphers\<close>: decryption undoes encryption under the same key and
  vector and keeps the number of bytes; nothing is assumed of a digest.
\<close>

section \<open>Interfaces of the C++ classes\<close>

text \<open>\<^verbatim>\<open>SnmpV3UsmEncrypter::encryptScopedPduData(user,boots,time,data)\<close> on an object in state \<open>'s\<close>: the
  privacy parameters, the data to send and the object's next state.
  \<^verbatim>\<open>SnmpV3UsmDecrypter::decryptScopedPduData(user,boots,time,privData,data)\<close>.
  A \<^verbatim>\<open>MacCalculator\<close>: constructed from a key, then applied to a message.\<close>

type_synonym 's encrypter =
  "bytes \<Rightarrow> u32 \<Rightarrow> u32 \<Rightarrow> bytes \<Rightarrow> 's \<Rightarrow> (snmp_error, (bytes \<times> bytes) \<times> 's) outcome"
type_synonym decrypter = "bytes \<Rightarrow> u32 \<Rightarrow> u32 \<Rightarrow> bytes \<Rightarrow> bytes \<Rightarrow> (snmp_error, bytes) outcome"
type_synonym mac_calculator = "bytes \<Rightarrow> (snmp_error, bytes \<Rightarrow> (snmp_error, bytes) outcome) outcome"

text \<open>A call of a libgcrypt cipher: key, initialisation vector, data.\<close>

type_synonym cipher = "bytes \<Rightarrow> bytes \<Rightarrow> bytes \<Rightarrow> (snmp_error, bytes) outcome"

section \<open>Messages\<close>

datatype SnmpV3UsmMessage =
  SnmpV3UsmMessage (usm_id: u32) (usm_maxSize: u64) (usm_flags: byte)
    (usm_securityParameters: SnmpV3UsmSecurityParameters) (usm_scopedPDU: SnmpV3ScopedPDU)

text \<open>\<^verbatim>\<open>std::vector::resize\<close>\<close>

definition resize :: "nat \<Rightarrow> bytes \<Rightarrow> bytes" where
  "resize n xs = take n xs @ replicate (n - length xs) 0"

definition NoAuthMacCalculator :: mac_calculator where
  "NoAuthMacCalculator key = Ret (\<lambda>message. Ret [])"

definition encodeSnmpV3UsmMessage ::
    "mac_calculator \<Rightarrow> nat \<Rightarrow> SnmpV3UsmMessage \<Rightarrow> bytes \<Rightarrow> 's encrypter \<Rightarrow> 's \<Rightarrow> (snmp_error, bytes \<times> 's) outcome"
where
  "encodeSnmpV3UsmMessage mac truncateMacTo x authKey encrypt s =
     (let params = usm_securityParameters x;
          message = (\<lambda>securityParameters data.
            SnmpV3Message (usm_id x) (usm_maxSize x) (usm_flags x) 3 securityParameters data)
      in nothrow
       (obind (mac authKey) (\<lambda>calculateMac.
        obind (encode_SnmpV3ScopedPDU (usm_scopedPDU x)) (\<lambda>plain.
        obind (encrypt (userName params) (engineBoots params) (engineTime params) plain s) (\<lambda>((priv, data), s).
        obind (encode_SnmpV3SecParams params (replicate truncateMacTo 0) priv) (\<lambda>zeroMac.
        obind (encode_SnmpV3Message (message zeroMac data)) (\<lambda>wholeMessage.
        obind (calculateMac wholeMessage) (\<lambda>m.
        obind (encode_SnmpV3SecParams params (resize truncateMacTo m) priv) (\<lambda>withMac.
        obind (encode_SnmpV3Message (message withMac data)) (\<lambda>result.
        Ret (result, s)))))))))))"

text \<open>The range \<^verbatim>\<open>data.begin()+at\<close> to \<^verbatim>\<open>data.begin()+at+n\<close>, copied and zeroed: outside the vector the
  iterators are undefined.\<close>

definition copy_range :: "bytes \<Rightarrow> nat \<Rightarrow> nat \<Rightarrow> ('e, bytes) outcome" where
  "copy_range data at n = (if at + n \<le> length data then Ret (take n (drop at data)) else Undef)"

definition fill_zero :: "bytes \<Rightarrow> nat \<Rightarrow> nat \<Rightarrow> ('e, bytes) outcome" where
  "fill_zero data at n =
     (if at + n \<le> length data then Ret (take at data @ replicate n 0 @ drop (at + n) data) else Undef)"

definition decodeSnmpV3UsmMessage ::
    "mac_calculator \<Rightarrow> nat \<Rightarrow> bytes \<Rightarrow> bytes \<Rightarrow> decrypter \<Rightarrow> (snmp_error, SnmpV3UsmMessage) outcome" where
  "decodeSnmpV3UsmMessage mac truncateMacTo data authKey decrypt =
     obind (decodeSnmpV3Message data) (\<lambda>(x, offset).
     obind (decodeSnmpV3UsmSecurityParameters (v3_securityParameters x)) (\<lambda>(params, receivedMac, macOffset, priv).
     obind (mac authKey) (\<lambda>calculateMac.
     if length receivedMac \<noteq> truncateMacTo then Throw (MacLength truncateMacTo (length receivedMac)) else
     obind (decrypt (userName params) (engineBoots params) (engineTime params) priv (v3_scopedPduData x))
       (\<lambda>plain.
     obind (decodeSnmpV3ScopedPDU plain) (\<lambda>scopedPDU.
     obind (copy_range data (offset + macOffset) truncateMacTo) (\<lambda>inData.
     obind (oassert (inData = receivedMac)) (\<lambda>_.
     obind (fill_zero data (offset + macOffset) truncateMacTo) (\<lambda>zeroed.
     obind (calculateMac zeroed) (\<lambda>m.
     if receivedMac \<noteq> resize truncateMacTo m then Throw (WrongMac (resize truncateMacTo m) receivedMac) else
     Ret (SnmpV3UsmMessage (v3_id x) (v3_maxSize x) (v3_flags x) params scopedPDU))))))))))"

section \<open>Privacy\<close>

definition NoPriv_encrypt :: "unit encrypter" where
  "NoPriv_encrypt user boots time data s = Ret (([], data), s)"

definition NoPriv_decrypt :: decrypter where
  "NoPriv_decrypt user boots time priv data = Ret data"

text \<open>\<^verbatim>\<open>(uint8_t)((v >> k) & 0xff)\<close>\<close>

definition byte_of :: "nat \<Rightarrow> 'a::len word \<Rightarrow> byte" where
  "byte_of k v = ucast (drop_bit k v AND 0xff)"

definition u32_bytes :: "u32 \<Rightarrow> bytes" where
  "u32_bytes v = [byte_of 24 v, byte_of 16 v, byte_of 8 v, byte_of 0 v]"

definition u64_bytes :: "u64 \<Rightarrow> bytes" where
  "u64_bytes v =
     [byte_of 56 v, byte_of 48 v, byte_of 40 v, byte_of 32 v, byte_of 24 v, byte_of 16 v, byte_of 8 v, byte_of 0 v]"

definition makeAES128cfbIV :: "u32 \<Rightarrow> u32 \<Rightarrow> u64 \<Rightarrow> bytes" where
  "makeAES128cfbIV boots time salt = u32_bytes boots @ u32_bytes time @ u64_bytes salt"

definition makeDEScbcPrivData :: "u32 \<Rightarrow> u32 \<Rightarrow> bytes" where
  "makeDEScbcPrivData boots salt = u32_bytes boots @ u32_bytes salt"

definition makeDEScbcIV :: "bytes \<Rightarrow> bytes \<Rightarrow> ('e, bytes) outcome" where
  "makeDEScbcIV preIV privData =
     obind (oassert (length preIV = 8)) (\<lambda>_.
     obind (oassert (length privData = 8)) (\<lambda>_.
     Ret (map2 (XOR) privData preIV)))"

text \<open>\<^verbatim>\<open>AES128cfbCipher\<close> and \<^verbatim>\<open>DEScbcCipher\<close>: the assertions of \<^verbatim>\<open>makeCipher\<close>, then libgcrypt.\<close>

definition checked_cipher :: "nat \<Rightarrow> nat \<Rightarrow> cipher \<Rightarrow> cipher" where
  "checked_cipher keySize ivSize gcry key iv data =
     obind (oassert (length key = keySize)) (\<lambda>_.
     obind (oassert (length iv = ivSize)) (\<lambda>_.
     gcry key iv data))"

text \<open>The objects: the AES encrypter holds its key and the next salt, the DES encrypter the first half
  of the key, the second half and the next salt.  The constructors check the size of the key.\<close>

definition AES_new :: "bytes \<Rightarrow> u64 \<Rightarrow> ('e, bytes \<times> u64) outcome" where
  "AES_new privKey random = obind (oassert (length privKey = 16)) (\<lambda>_. Ret (privKey, random))"

fun AES_encrypt :: "cipher \<Rightarrow> (bytes \<times> u64) encrypter" where
  "AES_encrypt gcry user boots time data (privKey, salt) =
     obind (checked_cipher 16 16 gcry privKey (makeAES128cfbIV boots time salt) data) (\<lambda>encrypted.
     obind (encode_value (StringValue encrypted)) (\<lambda>v.
     Ret ((u64_bytes salt, v), (privKey, salt + 1))))"

definition AES_decrypt :: "cipher \<Rightarrow> bytes \<Rightarrow> decrypter" where
  "AES_decrypt gcry privKey user boots time privData data =
     (if length privData \<noteq> 8 then Throw (PrivDataLength (length privData)) else
      let salt = push_bit 56 (ucast (privData ! 0)) + push_bit 48 (ucast (privData ! 1)) +
            push_bit 40 (ucast (privData ! 2)) + push_bit 32 (ucast (privData ! 3)) +
            push_bit 24 (ucast (privData ! 4)) + push_bit 16 (ucast (privData ! 5)) +
            push_bit 8 (ucast (privData ! 6)) + push_bit 0 (ucast (privData ! 7));
          iv = makeAES128cfbIV boots time salt
      in obind (decodeStringValue (start_of data) 0x04) (\<lambda>(s, _).
         checked_cipher 16 16 gcry privKey iv s))"

definition DES_new :: "bytes \<Rightarrow> u32 \<Rightarrow> ('e, bytes \<times> bytes \<times> u32) outcome" where
  "DES_new privKey random =
     obind (oassert (length privKey = 16)) (\<lambda>_. Ret (resize 8 privKey, take 8 (drop 8 privKey), random))"

definition pad_to_8 :: "bytes \<Rightarrow> bytes" where
  "pad_to_8 xs =
     (if length xs mod 8 \<noteq> 0 then resize (length xs + 8 - length xs mod 8) xs else xs)"

fun DES_encrypt :: "cipher \<Rightarrow> (bytes \<times> bytes \<times> u32) encrypter" where
  "DES_encrypt gcry user boots time data (desKey, preIV, salt) =
     (let privData = makeDEScbcPrivData boots salt
      in obind (makeDEScbcIV preIV privData) (\<lambda>iv.
         obind (oassert (length (pad_to_8 data) mod 8 = 0)) (\<lambda>_.
         obind (checked_cipher 8 8 gcry desKey iv (pad_to_8 data)) (\<lambda>encrypted.
         obind (encode_value (StringValue encrypted)) (\<lambda>v.
         Ret ((privData, v), (desKey, preIV, salt + 1)))))))"

definition DES_decrypt :: "cipher \<Rightarrow> bytes \<times> bytes \<Rightarrow> decrypter" where
  "DES_decrypt gcry obj user boots time privData data =
     (if length privData \<noteq> 8 then Throw (PrivDataLength (length privData)) else
      obind (makeDEScbcIV (snd obj) privData) (\<lambda>iv.
      obind (decodeStringValue (start_of data) 0x04) (\<lambda>(s, _).
      checked_cipher 8 8 gcry (fst obj) iv s)))"

section \<open>The MAC in the message\<close>

lemma slice_at_app: "slice_at (xs @ ys @ zs) (length xs) ys"
  by (simp add: slice_at_def)

lemma length_resize [simp]: "length (resize n xs) = n"
  by (simp add: resize_def)

lemma resize_le: "n \<le> length xs \<Longrightarrow> resize n xs = take n xs"
  by (simp add: resize_def)

text \<open>Only the MAC depends on the MAC, and only through its length does the rest.\<close>

definition hole_head :: "byte \<Rightarrow> bytes \<Rightarrow> byte \<Rightarrow> nat \<Rightarrow> bytes \<Rightarrow> bytes" where
  "hole_head t xs u n ys =
     t # ber_length (of_nat (length xs + (Suc (length (ber_length (of_nat n))) + n) + length ys)) @
     xs @ u # ber_length (of_nat n)"

lemma octets_hole: "ber_octets t (xs @ ber_octets u z @ ys) = hole_head t xs u (length z) ys @ z @ ys"
  by (simp add: ber_octets_def [of t] hole_head_def length_octets_eq add.assoc, simp add: ber_octets_def)

lemma secparams_hole:
  assumes "encode_SnmpV3SecParams x z p = Ret d" and "encode_SnmpV3SecParams x r p = Ret d'"
    and "length z = length r"
  shows "\<exists>h. d = h @ z @ ber_octets 4 p \<and> d' = h @ r @ ber_octets 4 p"
  using assms unfolding encode_SnmpV3SecParams_eq octets_hole by auto

lemma encode_message_hole:
  "encode_SnmpV3Message (SnmpV3Message a b f m w c) = Ret (hole_head 0x30
     (ber_int 2 3 @ ber_octets 0x30 (ber_int 2 (ucast a) @ ber_int 2 b @ ber_octets 4 [f] @ ber_int 2 (ucast m)))
     4 (length w) c @ w @ c)"
  using octets_hole [of "0x30" "ber_int 2 3 @ ber_octets 0x30 (ber_int 2 (ucast a) @ ber_int 2 b @
      ber_octets 4 [f] @ ber_int 2 (ucast m))" 4 w c]
  by (simp add: encode_SnmpV3Message_eq)

lemma message_hole:
  assumes "encode_SnmpV3Message (SnmpV3Message a b f m z c) = Ret d"
    and "encode_SnmpV3Message (SnmpV3Message a b f m r c) = Ret d'" and "length z = length r"
  shows "\<exists>h. d = h @ z @ c \<and> d' = h @ r @ c"
  using assms unfolding encode_message_hole by auto

lemma range_of_slice:
  assumes "slice_at d k s"
  shows "copy_range d k (length s) = Ret s"
    and "fill_zero d k (length s) = Ret (take k d @ replicate (length s) 0 @ drop (k + length s) d)"
  using assms by (simp_all add: slice_at_def copy_range_def fill_zero_def)

text \<open>Whatever was decoded, the MAC is at the sum of the two offsets: the assertion can not fail, and
  no byte outside the data is read or zeroed.\<close>

lemma mac_in_message:
  assumes "decodeSnmpV3Message d = Ret (x, k)"
    and "decodeSnmpV3UsmSecurityParameters (v3_securityParameters x) = Ret (params, mac, m, priv)"
  shows "slice_at d (k + m) mac"
  by (rule slice_at_slice [OF SnmpV3Message_in_data [OF assms(1)] SnmpV3SecParams_in_data [OF assms(2)]])

text \<open>An accepted message carries the MAC of the message with zeros in place of the MAC.\<close>

lemma accepted_is_authentic:
  assumes "decodeSnmpV3UsmMessage mac n d key decrypt = Ret y"
  shows "\<exists>calculateMac k m. mac key = Ret calculateMac \<and> k + n \<le> length d \<and>
    calculateMac (take k d @ replicate n 0 @ drop (k + n) d) = Ret m \<and> take n (drop k d) = resize n m"
proof -
  from assms have "\<exists>x k params received j priv calculateMac zeroed m.
      decodeSnmpV3Message d = Ret (x, k) \<and>
      decodeSnmpV3UsmSecurityParameters (v3_securityParameters x) = Ret (params, received, j, priv) \<and>
      mac key = Ret calculateMac \<and> length received = n \<and>
      fill_zero d (k + j) n = (Ret zeroed :: (snmp_error, bytes) outcome) \<and> calculateMac zeroed = Ret m \<and>
      received = resize n m"
    by (force simp: decodeSnmpV3UsmMessage_def split: if_splits)
  then obtain x k params received j priv calculateMac zeroed m where
    x: "decodeSnmpV3Message d = Ret (x, k)"
    and params: "decodeSnmpV3UsmSecurityParameters (v3_securityParameters x) = Ret (params, received, j, priv)"
    and c: "mac key = Ret calculateMac" and n: "length received = n"
    and z: "fill_zero d (k + j) n = (Ret zeroed :: (snmp_error, bytes) outcome)"
    and m: "calculateMac zeroed = Ret m" "received = resize n m" by blast
  from mac_in_message [OF x params] have s: "slice_at d (k + j) received" .
  have "fill_zero d (k + j) n =
      (Ret (take (k + j) d @ replicate n 0 @ drop (k + j + n) d) :: (snmp_error, bytes) outcome)"
    using range_of_slice(2) [OF s] n by simp
  with z have "zeroed = take (k + j) d @ replicate n 0 @ drop (k + j + n) d" by simp
  with s c m n show ?thesis
    by (intro exI [of _ calculateMac] exI [of _ "k + j"] exI [of _ m]) (simp add: slice_at_def)
qed

section \<open>The contract of encrypters and decrypters\<close>

text \<open>A decrypter returns what was encrypted, perhaps padded, and not more bytes than were sent; an
  encrypter that wraps sends an octet string, one that does not sends the data as it is.\<close>

locale privacy =
  fixes encrypt :: "'s encrypter" and decrypt :: decrypter and wraps :: bool and valid :: "'s \<Rightarrow> bool"
  assumes decrypts: "valid s \<Longrightarrow> encrypt user boots time data s = Ret ((priv, c), s') \<Longrightarrow> length c < 2 ^ 31 \<Longrightarrow>
      \<exists>pad. decrypt user boots time priv c = Ret (data @ pad) \<and> length (data @ pad) \<le> length c"
    and sends: "valid s \<Longrightarrow> encrypt user boots time data s = Ret ((priv, c), s') \<Longrightarrow>
      (if wraps then \<exists>e. c = ber_octets 0x04 e else c = data)"
    and stays_valid: "valid s \<Longrightarrow> encrypt user boots time data s = Ret (r, s') \<Longrightarrow> valid s'"

definition decodable_usm :: "SnmpV3UsmMessage \<Rightarrow> bool" where
  "decodable_usm x \<longleftrightarrow> 484 \<le> usm_maxSize x \<and> usm_maxSize x \<le> 0xffffffff \<and> usm_flags x \<le> 0x07 \<and>
     decodable_secparams (usm_securityParameters x) \<and> decodable_scoped (usm_scopedPDU x)"

lemma scoped_is_sequence: "encode_SnmpV3ScopedPDU x = Ret c \<Longrightarrow> \<exists>xs. c = ber_octets 0x30 xs"
  by (cases x) (auto simp: encode_value_eq split: if_splits)

context privacy
begin

lemma usm_decodes:
  assumes enc: "encodeSnmpV3UsmMessage mac n x key encrypt s = Ret (d, s')" and len: "length d < 2 ^ 31"
    and ok: "decodable_usm x" and flags: "usm_flags x AND 0x03 = 0x03 \<longleftrightarrow> wraps" and s: "valid s"
  shows "decodeSnmpV3UsmMessage mac n d key decrypt = Ret x"
proof -
  let ?p = "usm_securityParameters x"
  let ?msg = "SnmpV3Message (usm_id x) (usm_maxSize x) (usm_flags x) 3"
  from enc have "\<exists>calculateMac plain priv c sec0 whole m sec.
      mac key = Ret calculateMac \<and>
      encode_SnmpV3ScopedPDU (usm_scopedPDU x) = (Ret plain :: (snmp_error, bytes) outcome) \<and>
      encrypt (userName ?p) (engineBoots ?p) (engineTime ?p) plain s = Ret ((priv, c), s') \<and>
      encode_SnmpV3SecParams ?p (replicate n 0) priv = (Ret sec0 :: (snmp_error, bytes) outcome) \<and>
      encode_SnmpV3Message (?msg sec0 c) = (Ret whole :: (snmp_error, bytes) outcome) \<and>
      calculateMac whole = Ret m \<and>
      encode_SnmpV3SecParams ?p (resize n m) priv = (Ret sec :: (snmp_error, bytes) outcome) \<and>
      encode_SnmpV3Message (?msg sec c) = (Ret d :: (snmp_error, bytes) outcome)"
    by (force simp: encodeSnmpV3UsmMessage_def Let_def)
  then obtain calculateMac plain priv c sec0 whole m sec where
    mac: "mac key = Ret calculateMac" and plain: "encode_SnmpV3ScopedPDU (usm_scopedPDU x) = (Ret plain :: (snmp_error, bytes) outcome)"
    and c: "encrypt (userName ?p) (engineBoots ?p) (engineTime ?p) plain s = Ret ((priv, c), s')"
    and sec0: "encode_SnmpV3SecParams ?p (replicate n 0) priv = (Ret sec0 :: (snmp_error, bytes) outcome)"
    and whole: "encode_SnmpV3Message (?msg sec0 c) = (Ret whole :: (snmp_error, bytes) outcome)" and m: "calculateMac whole = Ret m"
    and sec: "encode_SnmpV3SecParams ?p (resize n m) priv = (Ret sec :: (snmp_error, bytes) outcome)"
    and d: "encode_SnmpV3Message (?msg sec c) = (Ret d :: (snmp_error, bytes) outcome)" by blast
  obtain h where h: "sec0 = h @ replicate n 0 @ ber_octets 4 priv" "sec = h @ resize n m @ ber_octets 4 priv"
    using secparams_hole [OF sec0 sec] by auto
  then have "length sec0 = length sec" by simp
  then obtain g where g: "whole = g @ sec0 @ c" "d = g @ sec @ c"
    using message_hole [OF whole d] by auto
  from g h len have small: "length sec < 2 ^ 31" "length c < 2 ^ 31" by simp_all
  have "\<exists>xs. c = ber_octets (if wraps then 0x04 else 0x30) xs"
    using sends [OF s c] scoped_is_sequence [OF plain] by (simp split: if_splits)
  then have "decodable_v3 (?msg sec c)"
    using ok flags by (simp add: decodable_usm_def decodable_v3_def)
  note v3 = SnmpV3Message_decodes [OF d len this]
  note params = SnmpV3SecParams_decodes [OF sec small(1)]
  obtain pad where pad: "decrypt (userName ?p) (engineBoots ?p) (engineTime ?p) priv c = Ret (plain @ pad)"
    "length (plain @ pad) \<le> length c" using decrypts [OF s c small(2)] by blast
  have scoped: "decodeSnmpV3ScopedPDU (plain @ pad) = Ret (usm_scopedPDU x)"
    using ok pad(2) small(2) by (intro SnmpV3ScopedPDU_decodes [OF plain]) (simp_all add: decodable_usm_def)
  have at: "length d - (length c + length sec) + (length sec - (length (ber_octets 4 priv) + n)) = length (g @ h)"
    by (simp add: g h)
  have d': "d = (g @ h) @ resize n m @ ber_octets 4 priv @ c" by (simp add: g h)
  have slice: "slice_at d (length (g @ h)) (resize n m)" unfolding d' by (rule slice_at_app)
  have "take (length (g @ h)) d @ replicate n 0 @ drop (length (g @ h) + n) d = whole"
    unfolding g(1) h(1) d' by simp
  with range_of_slice [OF slice] have
    "copy_range d (length (g @ h)) n = (Ret (resize n m) :: (snmp_error, bytes) outcome)"
    "fill_zero d (length (g @ h)) n = (Ret whole :: (snmp_error, bytes) outcome)" by simp_all
  with ok show ?thesis
    unfolding decodeSnmpV3UsmMessage_def v3
    by (simp add: params decodable_usm_def at mac pad(1) scoped m del: length_append)
qed

end

interpretation NoPriv: privacy NoPriv_encrypt NoPriv_decrypt False "\<lambda>_. True"
  by standard (auto simp: NoPriv_encrypt_def NoPriv_decrypt_def)

section \<open>AES and DES\<close>

definition inverse_ciphers :: "cipher \<Rightarrow> cipher \<Rightarrow> bool" where
  "inverse_ciphers enc dec \<longleftrightarrow>
     (\<forall>key iv data c. enc key iv data = Ret c \<longrightarrow> dec key iv c = Ret data \<and> length c = length data)"

lemma checked_cipher_inverse:
  "inverse_ciphers enc dec \<Longrightarrow> checked_cipher m n enc key iv data = Ret c \<Longrightarrow>
    checked_cipher m n dec key iv c = Ret data \<and> length c = length data"
  by (auto simp: checked_cipher_def inverse_ciphers_def)

lemma disjoint_plus_u64: "(\<And>n. n < 64 \<Longrightarrow> \<not> bit a n \<or> \<not> bit b n) \<Longrightarrow> (a :: u64) + b = a OR b"
  by (rule disjunctive_add) (use bit_imp_le_length in fastforce)

lemma bit_byte_of: "bit (byte_of k v) n \<longleftrightarrow> n < 8 \<and> bit v (k + n)"
proof -
  have "(0xff :: 'a word) = mask 8" by (simp add: mask_eq_decr_exp)
  then have "byte_of k v = ucast (drop_bit k v AND mask 8)" by (simp only: byte_of_def)
  then show ?thesis by (auto simp: bit_simps add.commute dest: bit_imp_le_length)
qed

text \<open>The salt that the AES decrypter computes is the one the encrypter sent: byte by byte from the top.\<close>

lemma top_bits:
  "(v :: u64) AND NOT (mask k) = (v AND NOT (mask (k + 8))) + push_bit k (ucast (byte_of k v))"
proof -
  have bits: "bit (push_bit k (ucast (byte_of k v)) :: u64) n \<longleftrightarrow> k \<le> n \<and> n < k + 8 \<and> bit v n" for n
    by (auto simp: bit_simps bit_byte_of dest: bit_imp_le_length)
  have "(v AND NOT (mask (k + 8))) + push_bit k (ucast (byte_of k v)) =
      (v AND NOT (mask (k + 8))) OR push_bit k (ucast (byte_of k v))"
    by (rule disjoint_plus_u64) (auto simp only: bits bit_and_iff bit_not_iff bit_mask_iff)
  moreover have "v AND NOT (mask k) = (v AND NOT (mask (k + 8))) OR push_bit k (ucast (byte_of k v))"
    by (rule bit_word_eqI) (auto simp: bits bit_and_iff bit_or_iff bit_not_iff bit_mask_iff)
  ultimately show ?thesis by (simp only:)
qed

lemma salt_of_bytes:
  "push_bit 56 (ucast (byte_of 56 v)) + push_bit 48 (ucast (byte_of 48 v)) + push_bit 40 (ucast (byte_of 40 v)) +
   push_bit 32 (ucast (byte_of 32 v)) + push_bit 24 (ucast (byte_of 24 v)) + push_bit 16 (ucast (byte_of 16 v)) +
   push_bit 8 (ucast (byte_of 8 v)) + ucast (byte_of 0 v) = (v :: u64)"
proof -
  have "v AND NOT (mask 64) = 0"
    by (rule bit_word_eqI) (simp add: bit_simps)
  then show ?thesis
    using top_bits [of v 0] top_bits [of v 8] top_bits [of v 16] top_bits [of v 24] top_bits [of v 32]
      top_bits [of v 40] top_bits [of v 48] top_bits [of v 56]
    by simp
qed

lemma wrapped_string: "length (ber_octets 4 e) < 2 ^ 31 \<Longrightarrow>
    decodeStringValue (start_of (ber_octets 4 e)) 4 = Ret (e, It (ber_octets 4 e) (length (ber_octets 4 e)))"
  using decodeStringValue_ber_octets [OF bytes_at_whole] by (simp add: start_of_def)

lemma length_wrapped: "length e \<le> length (ber_octets 4 e)"
  by (simp add: ber_octets_def)

lemma AES_decrypts:
  assumes "inverse_ciphers enc dec" and "AES_encrypt enc user boots time data (key, salt) = Ret ((priv, c), s')"
    and "length c < 2 ^ 31"
  shows "AES_decrypt dec key user boots time priv c = Ret data \<and> length data \<le> length c"
proof -
  from assms(2) obtain e where
    e: "checked_cipher 16 16 enc key (makeAES128cfbIV boots time salt) data = Ret e"
    and c: "priv = u64_bytes salt" "c = ber_octets 4 e"
    by (auto simp: encode_value_eq)
  note wrapped_string [OF assms(3) [unfolded c(2)]]
  then show ?thesis
    using checked_cipher_inverse [OF assms(1) e] length_wrapped [of e]
    by (simp add: AES_decrypt_def c u64_bytes_def salt_of_bytes)
qed

lemma AES_privacy:
  assumes "inverse_ciphers enc dec"
  shows "privacy (AES_encrypt enc) (AES_decrypt dec key) True (\<lambda>s. fst s = key)"
proof
  fix s user boots time data priv c s'
  assume s: "fst s = key" and enc: "AES_encrypt enc user boots time data s = Ret ((priv, c), s')"
  from s obtain salt where salt: "s = (key, salt)" by (cases s) simp
  show "if True then \<exists>e. c = ber_octets 4 e else c = data"
    using enc by (auto simp: salt encode_value_eq)
  assume "length c < 2 ^ 31"
  from AES_decrypts [OF assms enc [unfolded salt] this]
  show "\<exists>pad. AES_decrypt dec key user boots time priv c = Ret (data @ pad) \<and> length (data @ pad) \<le> length c"
    by (intro exI [of _ "[]"]) simp
next
  fix s user boots time data r s'
  assume "fst s = key" and "AES_encrypt enc user boots time data s = Ret (r, s')"
  then show "fst s' = key" by (cases s) auto
qed

lemma pad_to_8_eq: "\<exists>pad. pad_to_8 xs = xs @ pad"
  by (auto simp: pad_to_8_def resize_def)

lemma pad_to_8_mod: "length (pad_to_8 xs) mod 8 = 0"
proof -
  have "(n + 8 - n mod 8) mod 8 = 0" for n :: nat by presburger
  then show ?thesis by (simp add: pad_to_8_def)
qed

lemma DES_decrypts:
  assumes "inverse_ciphers enc dec"
    and "DES_encrypt enc user boots time data (key, preIV, salt) = Ret ((priv, c), s')"
    and "length c < 2 ^ 31"
  shows "DES_decrypt dec (key, preIV) user boots time priv c = Ret (pad_to_8 data) \<and>
    length (pad_to_8 data) \<le> length c"
proof -
  let ?priv = "makeDEScbcPrivData boots salt"
  from assms(2) have "\<exists>iv e. makeDEScbcIV preIV ?priv = (Ret iv :: (snmp_error, bytes) outcome) \<and>
      checked_cipher 8 8 enc key iv (pad_to_8 data) = Ret e \<and> priv = ?priv \<and> c = ber_octets 4 e"
    by (force simp: Let_def encode_value_eq)
  then obtain iv e where iv: "makeDEScbcIV preIV ?priv = (Ret iv :: (snmp_error, bytes) outcome)"
    and e: "checked_cipher 8 8 enc key iv (pad_to_8 data) = Ret e"
    and c: "priv = ?priv" "c = ber_octets 4 e" by blast
  have "length ?priv = 8" by (simp add: makeDEScbcPrivData_def u32_bytes_def)
  with wrapped_string [OF assms(3) [unfolded c(2)]] show ?thesis
    using checked_cipher_inverse [OF assms(1) e] length_wrapped [of e]
    by (simp add: DES_decrypt_def c iv)
qed

lemma DES_privacy:
  assumes "inverse_ciphers enc dec"
  shows "privacy (DES_encrypt enc) (DES_decrypt dec (key, preIV)) True (\<lambda>s. \<exists>salt. s = (key, preIV, salt))"
proof
  fix s user boots time data priv c s'
  assume s: "\<exists>salt. s = (key, preIV, salt)" and enc: "DES_encrypt enc user boots time data s = Ret ((priv, c), s')"
  from s obtain salt where salt: "s = (key, preIV, salt)" by blast
  show "if True then \<exists>e. c = ber_octets 4 e else c = data"
    using enc by (auto simp: salt encode_value_eq Let_def)
  assume "length c < 2 ^ 31"
  from DES_decrypts [OF assms enc [unfolded salt] this] pad_to_8_eq [of data]
  show "\<exists>pad. DES_decrypt dec (key, preIV) user boots time priv c = Ret (data @ pad) \<and>
      length (data @ pad) \<le> length c" by auto
next
  fix s user boots time data r s'
  assume "\<exists>salt. s = (key, preIV, salt)" and "DES_encrypt enc user boots time data s = Ret (r, s')"
  then show "\<exists>salt. s' = (key, preIV, salt)" by (auto simp: Let_def)
qed

text \<open>On an object that its constructor made no assertion of encryption can fail.\<close>

lemma AES_new_encrypts:
  assumes "AES_new privKey random = (Ret (key, salt) :: (snmp_error, bytes \<times> u64) outcome)"
  shows "AES_encrypt gcry user boots time data (key, salt) =
    obind (gcry key (makeAES128cfbIV boots time salt) data) (\<lambda>e.
    Ret ((u64_bytes salt, ber_octets 4 e), (key, salt + 1)))"
  using assms
  by (auto simp: AES_new_def checked_cipher_def encode_value_eq makeAES128cfbIV_def u32_bytes_def u64_bytes_def)

lemma DES_new_encrypts:
  assumes "DES_new privKey random = (Ret (key, preIV, salt) :: (snmp_error, bytes \<times> bytes \<times> u32) outcome)"
  shows "DES_encrypt gcry user boots time data (key, preIV, salt) =
    obind (gcry key (map2 (XOR) (makeDEScbcPrivData boots salt) preIV) (pad_to_8 data)) (\<lambda>e.
    Ret ((makeDEScbcPrivData boots salt, ber_octets 4 e), (key, preIV, salt + 1)))"
proof -
  from assms have "length key = 8" "length preIV = 8" by (auto simp: DES_new_def)
  moreover have "length (makeDEScbcPrivData boots salt) = 8"
    by (simp add: makeDEScbcPrivData_def u32_bytes_def)
  ultimately show ?thesis
    by (simp add: Let_def makeDEScbcIV_def checked_cipher_def encode_value_eq pad_to_8_mod)
qed

section \<open>Round trips\<close>

lemma usm_NoPriv_decodes:
  assumes "encodeSnmpV3UsmMessage mac n x authKey NoPriv_encrypt () = Ret (d, s)" and "length d < 2 ^ 31"
    and "decodable_usm x" and "usm_flags x AND 0x03 \<noteq> 0x03"
  shows "decodeSnmpV3UsmMessage mac n d authKey NoPriv_decrypt = Ret x"
  using NoPriv.usm_decodes [OF assms(1-3)] assms(4) by simp

lemma usm_AES_decodes:
  assumes "inverse_ciphers enc dec"
    and "encodeSnmpV3UsmMessage mac n x authKey (AES_encrypt enc) (privKey, salt) = Ret (d, s)"
    and "length d < 2 ^ 31" and "decodable_usm x" and "usm_flags x AND 0x03 = 0x03"
  shows "decodeSnmpV3UsmMessage mac n d authKey (AES_decrypt dec privKey) = Ret x"
  using privacy.usm_decodes [OF AES_privacy [OF assms(1), of privKey] assms(2-4)] assms(5) by simp

lemma usm_DES_decodes:
  assumes "inverse_ciphers enc dec"
    and "encodeSnmpV3UsmMessage mac n x authKey (DES_encrypt enc) (key, preIV, salt) = Ret (d, s)"
    and "length d < 2 ^ 31" and "decodable_usm x" and "usm_flags x AND 0x03 = 0x03"
  shows "decodeSnmpV3UsmMessage mac n d authKey (DES_decrypt dec (key, preIV)) = Ret x"
  using privacy.usm_decodes [OF DES_privacy [OF assms(1), of key preIV] assms(2-4)] assms(5) by auto

section \<open>Localised keys\<close>

text \<open>\<^verbatim>\<open>localiseSnmpV3UsmPassword.hcp\<close>: the password repeated up to \<open>room\<close> bytes (an empty one divides by
  zero), hashed, then hashed again around the identifier of the engine.\<close>

definition extend_password :: "nat \<Rightarrow> bytes \<Rightarrow> (snmp_error, bytes) outcome" where
  "extend_password room password =
     (if length password = 0 then Undef else
      let n = room div length password; r = room mod length password
      in obind
        (owhile
          (\<lambda>(i, extended). Ret (i \<noteq> n))
          (\<lambda>(i, extended).
             obind (copy_to password extended (i * length password)) (\<lambda>(extended, _). Ret (i + 1, extended)))
          (0, replicate room 0)) (\<lambda>(_, extended).
        obind (copy_to (take r password) extended (n * length password)) (\<lambda>(extended, _). Ret extended)))"

definition localiseSnmpV3UsmPassword ::
    "(bytes \<Rightarrow> (snmp_error, bytes) outcome) \<Rightarrow> bytes \<Rightarrow> bytes \<Rightarrow> (snmp_error, bytes) outcome" where
  "localiseSnmpV3UsmPassword hash engineId password =
     obind (extend_password 1048576 password) (\<lambda>extended.
     obind (hash extended) (\<lambda>k.
     hash (k @ engineId @ k)))"

text \<open>The reference: byte \<open>i\<close> is byte \<open>i mod length password\<close> of the password.\<close>

definition cyclic :: "nat \<Rightarrow> bytes \<Rightarrow> bytes" where
  "cyclic room xs = map (\<lambda>i. xs ! (i mod length xs)) [0..<room]"

lemma cyclic_add:
  assumes "r \<le> length xs"
  shows "cyclic (i * length xs + r) xs = cyclic (i * length xs) xs @ take r xs"
proof (rule nth_equalityI)
  show "length (cyclic (i * length xs + r) xs) = length (cyclic (i * length xs) xs @ take r xs)"
    using assms by (simp add: cyclic_def)
  fix k
  assume "k < length (cyclic (i * length xs + r) xs)"
  then have k: "k < i * length xs + r" by (simp add: cyclic_def)
  show "cyclic (i * length xs + r) xs ! k = (cyclic (i * length xs) xs @ take r xs) ! k"
  proof (cases "k < i * length xs")
    case False
    then obtain m where m: "k = i * length xs + m" using le_Suc_ex not_less by blast
    with k assms have "m < r" "m < length xs" by simp_all
    with m k show ?thesis by (simp add: cyclic_def nth_append)
  qed (use k in \<open>simp add: cyclic_def nth_append\<close>)
qed

lemma length_cyclic [simp]: "length (cyclic n xs) = n"
  by (simp add: cyclic_def)

lemma copy_to_cyclic:
  assumes "r \<le> length xs" and "i * length xs + r \<le> n"
  shows "copy_to (take r xs) (cyclic (i * length xs) xs @ replicate (n - i * length xs) 0) (i * length xs)
    = Ret (cyclic (i * length xs + r) xs @ replicate (n - (i * length xs + r)) 0, i * length xs + r)"
proof -
  have r: "length (take r xs) = r" using assms(1) by simp
  have "i * length xs + length (take r xs) \<le> length (cyclic (i * length xs) xs @ replicate (n - i * length xs) 0)"
    using assms(2) unfolding r by simp
  then show ?thesis
    using assms(1) by (subst writesD [OF writes_copy_to]) (simp_all add: overwrite_def cyclic_add min_absorb2)
qed

lemmas copy_all_cyclic = copy_to_cyclic [OF order_refl, unfolded take_all [OF order_refl]]

lemma extend_loop:
  "n \<le> room div length xs \<Longrightarrow> i \<le> n \<Longrightarrow>
    owhile
      (\<lambda>(i, extended). Ret (i \<noteq> n))
      (\<lambda>(i, extended). obind (copy_to xs extended (i * length xs)) (\<lambda>(extended, _). Ret (i + 1, extended)))
      (i, cyclic (i * length xs) xs @ replicate (room - i * length xs) 0)
    = (Ret (n, cyclic (n * length xs) xs @ replicate (room - n * length xs) 0) :: (snmp_error, nat \<times> bytes) outcome)"
proof (induction "n - i" arbitrary: i)
  case 0
  then show ?case by (subst owhile_unfold) simp
next
  case (Suc m)
  have "Suc i \<le> room div length xs" using Suc.hyps(2) Suc.prems by simp
  then have "Suc i * length xs \<le> room"
    by (meson div_times_less_eq_dividend le_trans mult_le_mono1)
  then have fits: "i * length xs + length xs \<le> room" by simp
  have "m = n - Suc i" using Suc.hyps(2) by simp
  from Suc.hyps(1) [OF this] Suc.hyps(2) Suc.prems show ?case
    by (subst owhile_unfold) (simp add: copy_all_cyclic [OF fits] add.commute)
qed

lemma extend_password_cyclic:
  assumes "password \<noteq> []"
  shows "extend_password room password = Ret (cyclic room password)"
proof -
  let ?n = "room div length password"
  have "extend_password room password =
      obind (copy_to (take (room mod length password) password)
        (cyclic (?n * length password) password @ replicate (room - ?n * length password) 0) (?n * length password))
      (\<lambda>(extended, _). Ret extended)"
    using assms extend_loop [of ?n room password 0]
    by (simp add: extend_password_def Let_def cyclic_def [of 0])
  also have "\<dots> = Ret (cyclic room password)"
    using assms by (subst copy_to_cyclic) (simp_all add: less_imp_le)
  finally show ?thesis .
qed

end
