(* ===== verification/HcpAst.thy ===== *)
theory HcpAst
  imports Prelude
begin

text \<open>
  The abstract syntax tree of the C++ parser of \<^verbatim>\<open>src/hcp\<close> (\<^verbatim>\<open>ast.hh\<close>, \<^verbatim>\<open>ast.cc\<close>,
  \<^verbatim>\<open>scopeAt.hcp\<close>), and the text positions it refers to (\<^verbatim>\<open>IteratorAdaptor\<close> of
  \<^verbatim>\<open>src/xju/parse.hh\<close>).

  The text between the two iterators a parse starts from is a list of characters \<open>txt\<close>; the member
  \<^verbatim>\<open>x_\<close> is an index into it (\<open>i_x\<close>) and \<^verbatim>\<open>end_\<close> is its length.  Dereferencing or advancing an iterator at the
  end throws \<^verbatim>\<open>EndOfInput\<close>, which carries the position: the outcome \<open>Throw i\<close>.
\<close>

section \<open>Text positions\<close>

record I =
  i_line :: "32 word"
  i_column :: "32 word"
  i_offset :: nat
  i_x :: nat

definition I_begin :: I where
  "I_begin = \<lparr>i_line = 1, i_column = 1, i_offset = 0, i_x = 0\<rparr>"

definition I_atEnd :: "string \<Rightarrow> I \<Rightarrow> bool" where
  "I_atEnd txt i \<longleftrightarrow> i_x i = length txt"

definition I_deref :: "string \<Rightarrow> I \<Rightarrow> (I, char) outcome" where
  "I_deref txt i = (if I_atEnd txt i then Throw i else Ret (txt ! i_x i))"

definition I_step :: "string \<Rightarrow> I \<Rightarrow> I" where
  "I_step txt i =
     (let newline = txt ! i_x i = CHR 0x0A
      in \<lparr>i_line = (if newline then i_line i + 1 else i_line i),
          i_column = (if newline then 1 else i_column i + 1),
          i_offset = i_offset i + 1,
          i_x = i_x i + 1\<rparr>)"

definition I_incr :: "string \<Rightarrow> I \<Rightarrow> (I, I) outcome" where
  "I_incr txt i = (if I_atEnd txt i then Throw i else Ret (I_step txt i))"

text \<open>The position of the \<open>k\<close>-th character, counted from the start of the text, and the positions
  that advancing from the start reaches: line, column and offset are functions of the index.\<close>

primrec position :: "string \<Rightarrow> nat \<Rightarrow> I" where
  "position txt 0 = I_begin"
| "position txt (Suc k) = I_step txt (position txt k)"

definition at_pos :: "string \<Rightarrow> I \<Rightarrow> bool" where
  "at_pos txt i \<longleftrightarrow> i_x i \<le> length txt \<and> i = position txt (i_x i)"

lemma i_x_I_step [simp]: "i_x (I_step txt i) = Suc (i_x i)"
  by (simp add: I_step_def Let_def)

lemma i_x_position [simp]: "i_x (position txt k) = k"
  by (induction k) (simp_all add: I_begin_def)

lemma at_pos_begin [simp]: "at_pos txt I_begin"
  by (simp add: at_pos_def I_begin_def)

lemma at_pos_position [simp]: "k \<le> length txt \<Longrightarrow> at_pos txt (position txt k)"
  by (simp add: at_pos_def)

lemma at_pos_step: "at_pos txt i \<Longrightarrow> \<not> I_atEnd txt i \<Longrightarrow> at_pos txt (I_step txt i)"
  by (simp add: at_pos_def I_atEnd_def)

lemma at_pos_unique: "at_pos txt i \<Longrightarrow> at_pos txt j \<Longrightarrow> i_x i = i_x j \<Longrightarrow> i = j"
  by (metis at_pos_def)

lemma at_pos_le: "at_pos txt i \<Longrightarrow> i_x i \<le> length txt"
  by (simp add: at_pos_def)

lemma at_pos_less: "at_pos txt i \<Longrightarrow> \<not> I_atEnd txt i \<Longrightarrow> i_x i < length txt"
  by (simp add: at_pos_def I_atEnd_def)

lemma I_deref_Ret: "I_deref txt i = Ret c \<longleftrightarrow> \<not> I_atEnd txt i \<and> c = txt ! i_x i"
  by (auto simp: I_deref_def)

lemma I_incr_Ret: "I_incr txt i = Ret j \<longleftrightarrow> \<not> I_atEnd txt i \<and> j = I_step txt i"
  by (auto simp: I_incr_def)

lemma I_deref_Throw: "I_deref txt i = Throw e \<longleftrightarrow> I_atEnd txt i \<and> e = i"
  by (auto simp: I_deref_def)

lemma I_incr_Throw: "I_incr txt i = Throw e \<longleftrightarrow> I_atEnd txt i \<and> e = i"
  by (auto simp: I_incr_def)

lemma I_not_Abort [simp]:
  "I_deref txt i \<noteq> Abort" "I_deref txt i \<noteq> Undef" "I_deref txt i \<noteq> Diverge"
  "I_incr txt i \<noteq> Abort" "I_incr txt i \<noteq> Undef" "I_incr txt i \<noteq> Diverge"
  by (simp_all add: I_deref_def I_incr_def)

text \<open>The characters between two iterators: \<^verbatim>\<open>std::string(begin.x_, end.x_)\<close>.\<close>

definition slice :: "string \<Rightarrow> I \<Rightarrow> I \<Rightarrow> string" where
  "slice txt b e = take (i_x e - i_x b) (drop (i_x b) txt)"

lemma slice_empty [simp]: "slice txt i i = []"
  by (simp add: slice_def)

lemma slice_append:
  assumes "i_x a \<le> i_x b" "i_x b \<le> i_x c"
  shows "slice txt a b @ slice txt b c = slice txt a c"
proof -
  have len: "i_x c - i_x a = (i_x b - i_x a) + (i_x c - i_x b)" and "i_x b - i_x a + i_x a = i_x b"
    using assms by simp_all
  then show ?thesis by (simp only: slice_def len take_add drop_drop)
qed

lemma length_slice: "i_x b \<le> i_x e \<Longrightarrow> i_x e \<le> length txt \<Longrightarrow> length (slice txt b e) = i_x e - i_x b"
  by (simp add: slice_def)

lemma slice_nth: "k < i_x e - i_x b \<Longrightarrow> i_x e \<le> length txt \<Longrightarrow> slice txt b e ! k = txt ! (i_x b + k)"
  by (simp add: slice_def)

section \<open>Items\<close>

text \<open>The subclasses of \<^verbatim>\<open>Item\<close>.  \<open>ItemTag\<close> is \<^verbatim>\<open>Item\<close> itself, \<open>OtherTag\<close> the \<^verbatim>\<open>TaggedItem\<close> of a tag class that a
  program declares for itself.\<close>

datatype (plugins only: code size) keyword_tag =
    KeywordStatic | KeywordExtern | KeywordFriend | KeywordPublic | KeywordPrivate
  | KeywordProtected | KeywordVirtual | KeywordExplicit | KeywordOverride | KeywordFinal
  | KeywordNoexcept | KeywordThrow | KeywordTry | KeywordCatch

datatype (plugins only: code size) qualifier_tag =
    ConstQual | VolatileQual | MoveQual | RefQual | PointerQual | ElipsesQual

datatype (plugins only: code size) throw_tag =
    EmptyThrow | ThrowList | ThrowListItem | ThrowListItemTypeName | ThrowListTrailingWhite

datatype (plugins only: code size) item_type =
    ItemTag | WhiteSpace | LineComment | BlockComment | Comments | StringLiteral | S_Chars
  | HashInclude | HashIncludeImpl | TargetOfHashInclude | OtherPreprocessor | Attributes
  | Whitespace | Typedef | DefinedType | Using | EnumDef | EnumName | EnumForwardDecl
  | FunctionName | FunctionDecl | BlockOpen | Block | InitList | InitListOpen | FunctionDef
  | FunctionImpl | TemplateFunctionDef | TemplatePreamble | TemplateEmptyPreamble | ClassName
  | ClassDef | BaseSpecifier | ClassMembers | AttrDecl | VarName | Keyword keyword_tag
  | StaticVarDef | GlobalVarDef | ExternVarDef | VarInitialiserOpen | VarInitialiser
  | AccessModifier | TemplateClassDef | ClassForwardDecl | AnonymousNamespace
  | AnonymousNamespaceOpen | NamespaceDef | NamespaceName | NamespaceMembers | EatWhite
  | ReturnType | OperatorName | Param | VarNonFp | ArrayDecl | FunctionQualifiers | TypeRef
  | ScopedName | Qual qualifier_tag | FunctionPostQualifiers | VirtSpecifierSeq | EndOfFile
  | File | Throw_item throw_tag | OtherTag string

text \<open>An item has its children, or, when it has none, the positions \<open>begin_pos\<close> and \<open>end_pos\<close>.\<close>

datatype item = Item (item_tag: item_type) (items: "item list") (begin_pos: I) (end_pos: I)

fun item_begin :: "item \<Rightarrow> I" where
  "item_begin (Item t [] b e) = b"
| "item_begin (Item t (x # xs) b e) = item_begin x"

lemma size_last [termination_simp]: "xs \<noteq> [] \<Longrightarrow> size (last xs) \<le> size_list size xs"
  by (induction xs) auto

fun item_end :: "item \<Rightarrow> I" where
  "item_end (Item t [] b e) = e"
| "item_end (Item t (x # xs) b e) = item_end (last (x # xs))"

definition leaf :: "I \<Rightarrow> I \<Rightarrow> item" where
  "leaf b e = Item ItemTag [] b e"

text \<open>The constructor of a composite item; the children are not empty.\<close>

definition composite :: "item_type \<Rightarrow> item list \<Rightarrow> item" where
  "composite t children = Item t children (item_begin (hd children)) (item_end (last children))"

definition isA :: "item_type \<Rightarrow> item \<Rightarrow> bool" where
  "isA t x \<longleftrightarrow> item_tag x = t"

definition reconstruct :: "string \<Rightarrow> item \<Rightarrow> string" where
  "reconstruct txt x = slice txt (item_begin x) (item_end x)"

definition reconstruct_IRs :: "string \<Rightarrow> item list \<Rightarrow> string" where
  "reconstruct_IRs txt xs = concat (map (reconstruct txt) xs)"

lemma item_begin_leaf [simp]: "item_begin (leaf b e) = b"
  and item_end_leaf [simp]: "item_end (leaf b e) = e"
  by (simp_all add: leaf_def)

lemma item_begin_composite [simp]: "xs \<noteq> [] \<Longrightarrow> item_begin (composite t xs) = item_begin (hd xs)"
  by (cases xs) (simp_all add: composite_def)

lemma item_end_composite [simp]: "xs \<noteq> [] \<Longrightarrow> item_end (composite t xs) = item_end (last xs)"
  by (cases xs) (simp_all add: composite_def)

lemma items_composite [simp]: "items (composite t xs) = xs" "item_tag (composite t xs) = t"
  by (simp_all add: composite_def)

lemma items_leaf [simp]: "items (leaf b e) = []" "item_tag (leaf b e) = ItemTag"
  by (simp_all add: leaf_def)

end
