(* ===== verification/HcpParser.thy ===== *)
theory HcpParser
  imports Oid HcpAst
begin

text \<open>
  The parser combinators of \<^verbatim>\<open>src/hcp/parser.hh\<close> and \<^verbatim>\<open>src/hcp/parser.cc\<close> as data: the subclasses
  of \<^verbatim>\<open>Parser\<close> with their members, what each says it parses (\<^verbatim>\<open>target()\<close>), the causes of failure
  and the operators that build parsers.  What the parsers do is in HcpEngine, the C++ grammar built
  from them in HcpGrammar.

  A \<^verbatim>\<open>PR\<close> is a shared pointer to a parser.  A parser that is held by a static local variable and that
  has a name (a \<^verbatim>\<open>NamedParser\<close>, an \<^verbatim>\<open>AnonParser\<close> or a class of its own) is \<open>Static n\<close>: the pointer
  to that one object, whose contents HcpGrammar gives.  Every other object is identified with its
  contents, which its address stands for while it is alive.
\<close>

section \<open>Characters and text\<close>

definition signed_char :: "char \<Rightarrow> int" where
  "signed_char c = (let n = of_char c in if n < 128 then n else n - 256)"

text \<open>The characters of a \<^verbatim>\<open>std::set<char>\<close> in its order.\<close>

definition std_set :: "string \<Rightarrow> string" where
  "std_set s = sort_key signed_char (remdups s)"

definition quote :: "string \<Rightarrow> string" where
  "quote s = CHR 0x22 # s @ [CHR 0x22]"

definition quote_with :: "string \<Rightarrow> string \<Rightarrow> string" where
  "quote_with q s = q @ s @ q"

definition isprint :: "char \<Rightarrow> bool" where
  "isprint c \<longleftrightarrow> 32 \<le> (of_char c :: nat) \<and> of_char c < (127 :: nat)"

definition octal :: "char \<Rightarrow> string" where
  "octal c = (let n = of_char c in CHR ''0'' # map digit_char [n div 64, n div 8 mod 8, n mod 8])"

definition cEscapeCharCommon :: "char \<Rightarrow> string" where
  "cEscapeCharCommon c =
     (if c = CHR 0x5C then [CHR 0x5C, CHR 0x5C]
      else if c = CHR 0x07 then [CHR 0x5C, CHR ''a'']
      else if c = CHR 0x08 then [CHR 0x5C, CHR ''b'']
      else if c = CHR 0x0C then [CHR 0x5C, CHR ''f'']
      else if c = CHR 0x0A then [CHR 0x5C, CHR ''n'']
      else if c = CHR 0x0D then [CHR 0x5C, CHR ''r'']
      else if c = CHR 0x09 then [CHR 0x5C, CHR ''t'']
      else if c = CHR 0x0B then [CHR 0x5C, CHR ''v'']
      else if isprint c then [c]
      else CHR 0x5C # octal c)"

definition cEscapeChar :: "char \<Rightarrow> string" where
  "cEscapeChar c = (if c = CHR 0x27 then [CHR 0x5C, CHR 0x27] else cEscapeCharCommon c)"

definition cEscapeStringChar :: "char \<Rightarrow> string" where
  "cEscapeStringChar c = (if c = CHR 0x22 then [CHR 0x5C, CHR 0x22] else cEscapeCharCommon c)"

definition cEscapeString :: "string \<Rightarrow> string" where
  "cEscapeString s = concat (map cEscapeStringChar s)"

fun join :: "string list \<Rightarrow> string \<Rightarrow> string" where
  "join [] sep = []"
| "join [s] sep = s"
| "join (s # ss) sep = s @ sep @ join ss sep"

definition str_I :: "I \<Rightarrow> string" where
  "str_I i = ''line '' @ decimal (unat (i_line i)) @ '' column '' @ decimal (unat (i_column i))"

section \<open>Character sets\<close>

text \<open>\<^verbatim>\<open>hcp::Chars\<close>: a set of characters given by a pattern such as \<^verbatim>\<open>a-zA-Z_\<close>, kept twice.\<close>

record Chars =
  cs_pattern :: string
  cs_bits :: "256 word"
  cs_chars :: "char set"

definition add_char :: "nat \<Rightarrow> 256 word \<times> char set \<Rightarrow> 256 word \<times> char set" where
  "add_char n s = (set_bit n (fst s), insert (char_of n) (snd s))"

definition add_between :: "char \<Rightarrow> char \<Rightarrow> 256 word \<times> char set \<Rightarrow> 256 word \<times> char set" where
  "add_between c e s = fold add_char [of_char c + 1 ..< of_char e] s"

fun Chars_loop :: "string \<Rightarrow> 256 word \<times> char set \<Rightarrow> 256 word \<times> char set" where
  "Chars_loop (c # d # e # rest) s =
     (if d = CHR ''-'' \<and> of_char c < (of_char e :: nat)
      then Chars_loop (e # rest) (add_between c e (add_char (of_char c) s))
      else Chars_loop (d # e # rest) (add_char (of_char c) s))"
| "Chars_loop [c, d] s = add_char (of_char d) (add_char (of_char c) s)"
| "Chars_loop [c] s = add_char (of_char c) s"
| "Chars_loop [] s = s"
definition mk_Chars :: "string \<Rightarrow> Chars" where
  "mk_Chars p = (let s = Chars_loop p (0, {}) in \<lparr>cs_pattern = p, cs_bits = fst s, cs_chars = snd s\<rparr>)"

definition Chars_plus :: "Chars \<Rightarrow> Chars \<Rightarrow> Chars" where
  "Chars_plus a b =
     \<lparr>cs_pattern = cs_pattern a @ cs_pattern b, cs_bits = cs_bits a OR cs_bits b, cs_chars = cs_chars a \<union> cs_chars b\<rparr>"

definition Chars_test :: "Chars \<Rightarrow> char \<Rightarrow> bool" where
  "Chars_test cs c = bit (cs_bits cs) (of_char c)"

text \<open>Both copies hold the same characters.\<close>

definition Chars_ok :: "256 word \<times> char set \<Rightarrow> bool" where
  "Chars_ok s \<longleftrightarrow> (\<forall>c. bit (fst s) (of_char c) \<longleftrightarrow> c \<in> snd s)"


lemma char_of_eq: "n < 256 \<Longrightarrow> char_of n = c \<longleftrightarrow> n = (of_char c :: nat)"
  by (metis char_of_char of_char_of mod_less)

lemma Chars_ok_add:
  assumes "n < 256" "Chars_ok s"
  shows "Chars_ok (add_char n s)"
proof -
  have "bit (set_bit n (fst s)) (of_char c) \<longleftrightarrow> c = char_of n \<or> c \<in> snd s" for c
    using assms char_of_eq [OF assms(1), of c]
    by (simp add: bit_set_bit_iff Chars_ok_def possible_bit_word eq_commute disj_commute)
  then show ?thesis by (simp add: Chars_ok_def add_char_def)
qed

lemma Chars_ok_fold:
  "Chars_ok s \<Longrightarrow> (\<And>n. n \<in> set ns \<Longrightarrow> n < 256) \<Longrightarrow> Chars_ok (fold add_char ns s)"
  by (induction ns arbitrary: s) (simp_all add: Chars_ok_add)

lemma Chars_ok_loop: "Chars_ok s \<Longrightarrow> Chars_ok (Chars_loop p s)"
proof (induction p s rule: Chars_loop.induct)
  case (1 c d e rest s)
  have "Chars_ok (add_char (of_char c) s)" using "1.prems" by (simp add: Chars_ok_add)
  moreover from this have "Chars_ok (add_between c e (add_char (of_char c) s))"
    unfolding add_between_def
    by (rule Chars_ok_fold) (auto intro: less_trans [OF _ nat_of_char_less_256])
  ultimately show ?case using "1.IH" by simp
qed (simp_all add: Chars_ok_add)

lemma mk_Chars_test: "Chars_test (mk_Chars p) c \<longleftrightarrow> c \<in> cs_chars (mk_Chars p)"
  using Chars_ok_loop [of "(0, {})" p]
  by (simp add: Chars_test_def mk_Chars_def Let_def Chars_ok_def)

section \<open>Failures\<close>

datatype cause =
    FixedCause string
  | OneOfChars_UnexpectedChar I string
  | OneOfChars2_UnexpectedChar I Chars
  | AnyCharExcept_UnexpectedChar I string
  | CharNotInRange I char char
  | Mismatch char char
  | NotIdentifierChar char
  | NotHash char
  | InvalidDelimeterChar I
  | TooManyDelimeterChars
  | EndDelimeterNotFound string
  | TooFew nat
  | NotEndOfInput char

definition end_of_input :: cause where
  "end_of_input = FixedCause ''end of input''"

definition expected_parse_failure :: cause where
  "expected_parse_failure = FixedCause ''expected parse failure''"

definition not_at_column_1 :: cause where
  "not_at_column_1 = FixedCause ''not at column 1''"

section \<open>Parsers\<close>

text \<open>The static parsers of the C++ grammar that have a name, in the order they are declared in.\<close>

datatype (plugins only: code size) static =
    S_lineComment | S_blockComment | S_comments | S_eatWhite | S_s_chars
  | S_stringLiteral | S_rawStringLiteral | S_hashInclude | S_hashIncludeImpl | S_hash
  | S_attributes | S_whitespace | S_scoped_name | S_cv | S_type_name | S_type_qual | S_type_ref
  | S_using_statement | S_enum_name | S_scoped_enum_def
  | S_enum_def | S_enum_decl | S_operator_name | S_destructor_name
  | S_empty_throw | S_throw_list | S_function_qualifiers | S_virt_specifier_seq
  | S_function_post_qualifiers | S_block_open | S_block | S_init_list | S_function_impl
  | S_template_empty_preamble | S_template_preamble | S_function_initialiser | S_post_result_type
  | S_var_initialiser_open | S_var_initialiser_1 | S_var_initialiser_2 | S_var_initialiser
  | S_var_non_fp | S_param | S_params | S_var_fp | S_function_proto | S_function_decl
  | S_function_def | S_template_function_def | S_base_specifier | S_class_decl | S_typedef_fp
  | S_typedef_statement | S_global_var_def | S_static_var_def | S_extern_var_def
  | S_access_modifier | S_class_def | S_not_function_proto | S_anonymous_namespace
  | S_namespace_def | S_file


text \<open>What their \<^verbatim>\<open>target()\<close> says, their name or a fixed text.\<close>

primrec static_target :: "static \<Rightarrow> string" where
  "static_target S_lineComment = ''line comment''"
| "static_target S_blockComment = ''block comment''"
| "static_target S_comments = ''comments''"
| "static_target S_eatWhite = ''optional whitespace''"
| "static_target S_s_chars = ''string literal characters''"
| "static_target S_stringLiteral = ''string literal''"
| "static_target S_rawStringLiteral = ''raw string literal''"
| "static_target S_hashInclude = ''#include''"
| "static_target S_hashIncludeImpl = ''#include with //impl marker''"
| "static_target S_hash = ''other preprocessor directive''"
| "static_target S_attributes = ''attributes''"
| "static_target S_whitespace = ''some whitespace''"
| "static_target S_scoped_name = ''scoped name''"
| "static_target S_cv = ''const/volatile qualifiers''"
| "static_target S_type_name = ''type name''"
| "static_target S_type_qual = ''const/volatile/*/& type qualifier''"
| "static_target S_type_ref = ''type reference''"
| "static_target S_using_statement = ''using statement''"
| "static_target S_enum_name = [CHR 0x22] @ ''enum name'' @ [CHR 0x22]"
| "static_target S_scoped_enum_def = ''scoped enum definition''"
| "static_target S_enum_def = ''enum definition''"
| "static_target S_enum_decl = ''enum forward-declaration''"
| "static_target S_operator_name = ''operator name''"
| "static_target S_destructor_name = ''destructor name''"
| "static_target S_empty_throw = ''empty throw clause''"
| "static_target S_throw_list = ''non-empty throw clause''"
| "static_target S_function_qualifiers = ''function qualifiers''"
| "static_target S_virt_specifier_seq = ''virt-specifier-seq''"
| "static_target S_function_post_qualifiers = ''function post-qualifiers''"
| "static_target S_block_open = ''block open''"
| "static_target S_block = ''block''"
| "static_target S_init_list = ''initialiser list''"
| "static_target S_function_impl = ''function implementation''"
| "static_target S_template_empty_preamble = ''template empty preamble''"
| "static_target S_template_preamble = ''template preamble''"
| "static_target S_function_initialiser = ''function initialier''"
| "static_target S_post_result_type = ''post result type''"
| "static_target S_var_initialiser_open = ''variable initialiser '' @ [CHR 0x27] @ ''='' @ [CHR 0x27]"
| "static_target S_var_initialiser_1 = ''variable initialiser''"
| "static_target S_var_initialiser_2 = ''variable initialiser''"
| "static_target S_var_initialiser = ''var initialiser''"
| "static_target S_var_non_fp = ''non-function pointer var''"
| "static_target S_param = ''param''"
| "static_target S_params = ''params''"
| "static_target S_var_fp = ''function pointer var''"
| "static_target S_function_proto = ''function proto''"
| "static_target S_function_decl = ''function declaration''"
| "static_target S_function_def = ''non-template function definition''"
| "static_target S_template_function_def = ''template function definition''"
| "static_target S_base_specifier = ''base specifier''"
| "static_target S_class_decl = ''class forward-declaration''"
| "static_target S_typedef_fp = ''typedef of function pointer''"
| "static_target S_typedef_statement = ''typedef statement''"
| "static_target S_global_var_def = ''global variable definition''"
| "static_target S_static_var_def = ''static variable definition''"
| "static_target S_extern_var_def = ''extern variable definition''"
| "static_target S_access_modifier = ''public/private/protected: marker''"
| "static_target S_class_def = ''class definition''"
| "static_target S_not_function_proto = ''not function proto or template function proto''"
| "static_target S_anonymous_namespace = ''anonymous namespace''"
| "static_target S_namespace_def = ''namespace''"
| "static_target S_file = ''file''"

datatype parser =
    Static static
  | Optional parser
  | ParseZeroOrMore parser
  | ParseAnd "parser list"
  | ParseOr "parser list"
  | ParseNot parser
  | ParseAnyChar
  | ParseOneOfChars string
  | ParseOneOfChars2 Chars
  | ParseAnyCharExcept string
  | ParseCharInRange char char
  | ParseUntil parser
  | ParseSpecificUntil parser parser
  | ParseLiteral string
  | ParseIdentifier
  | ParseHash
  | ParseRawStringLiteral
  | ParseBalanced parser bool
  | AnonParser string parser
  | NamedParser item_type string parser
  | NonEmptyListOf parser parser
  | NToM nat nat parser
  | VarFpBackref
  | SelfParser static
  | ParseClass parser parser
  | ParseEndOfFile

fun is_ParseOr :: "parser \<Rightarrow> bool" where
  "is_ParseOr (ParseOr ps) = True"
| "is_ParseOr p = False"

fun is_ParseAnd :: "parser \<Rightarrow> bool" where
  "is_ParseAnd (ParseAnd ps) = True"
| "is_ParseAnd p = False"

fun is_ParseZeroOrMore :: "parser \<Rightarrow> bool" where
  "is_ParseZeroOrMore (ParseZeroOrMore p) = True"
| "is_ParseZeroOrMore p = False"

definition bracket_if :: "bool \<Rightarrow> string \<Rightarrow> string" where
  "bracket_if b s = (if b then ''('' @ s @ '')'' else s)"

text \<open>The words \<^verbatim>\<open>occurrances\<close> and \<^verbatim>\<open>initialier\<close> are the source's.\<close>

fun target :: "parser \<Rightarrow> string"
and and_targets :: "parser list \<Rightarrow> string list"
and or_targets :: "parser list \<Rightarrow> string list" where
  "target (Static n) = static_target n"
| "target (Optional x) = ''optional '' @ bracket_if (is_ParseOr x \<or> is_ParseAnd x) (target x)"
| "target (ParseZeroOrMore x) =
     ''zero or more occurrances of '' @ bracket_if (is_ParseOr x \<or> is_ParseAnd x) (target x)"
| "target (ParseAnd ps) = join (and_targets ps) '' then ''"
| "target (ParseOr ps) = join (or_targets ps) '' or ''"
| "target (ParseNot x) = ''!'' @ target x"
| "target ParseAnyChar = ''any char''"
| "target (ParseOneOfChars cs) = ''one of chars '' @ quote (cEscapeString (std_set cs))"
| "target (ParseOneOfChars2 cs) = ''one of chars '' @ quote (cEscapeString (cs_pattern cs))"
| "target (ParseAnyCharExcept cs) = ''any char except '' @ quote (cEscapeString (std_set cs))"
| "target (ParseCharInRange a b) =
     ''one of chars '' @ [CHR 0x27] @ cEscapeChar a @ [CHR 0x27] @ ''..'' @ [CHR 0x27]
       @ cEscapeChar b @ [CHR 0x27]"
| "target (ParseUntil x) = ''up to but not including '' @ target x"
| "target (ParseSpecificUntil m x) =
     target m @ [CHR 0x27] @ ''s up to but not including '' @ target x"
| "target (ParseLiteral s) = (if s = [CHR 0x5C] then ''backslash'' else quote s)"
| "target ParseIdentifier = ''identifier''"
| "target ParseHash = [CHR 0x27] @ ''#'' @ [CHR 0x27] @ '' at start of line''"
| "target ParseRawStringLiteral = ''raw string literal''"
| "target (ParseBalanced u a) =
     ''parse text, balancing (), [], {}, <>, stringLiteral, up to but not including '' @ target u"
| "target (AnonParser name x) = name"
| "target (NamedParser t name x) = name"
| "target (NonEmptyListOf x m) = ''non-empty list of '' @ target x"
| "target (NToM n m x) =
     decimal n @ ''..'' @ decimal m @ '' occurrances of ''
       @ bracket_if (is_ParseOr x \<or> is_ParseAnd x) (target x)"
| "target VarFpBackref = ''function pointer var (backref)''"
| "target (SelfParser n) = static_target n"
| "target (ParseClass tp p) = ''class definition''"
| "target ParseEndOfFile = ''end of file''"
| "and_targets [] = []"
| "and_targets (p # ps) =
     bracket_if (is_ParseOr p \<or> ps \<noteq> [] \<and> is_ParseZeroOrMore p) (target p) # and_targets ps"
| "or_targets [] = []"
| "or_targets (p # ps) =
     bracket_if (is_ParseAnd p \<or> ps \<noteq> [] \<and> is_ParseZeroOrMore p) (target p) # or_targets ps"

section \<open>Building parsers\<close>

fun and_terms :: "parser \<Rightarrow> parser list" where
  "and_terms (ParseAnd ps) = ps"
| "and_terms p = [p]"

fun or_terms :: "parser \<Rightarrow> parser list" where
  "or_terms (ParseOr ps) = ps"
| "or_terms p = [p]"

definition parser_plus :: "parser \<Rightarrow> parser \<Rightarrow> parser" where
  "parser_plus a b = ParseAnd (and_terms a @ and_terms b)"

definition parser_or :: "parser \<Rightarrow> parser \<Rightarrow> parser" where
  "parser_or a b = ParseOr (or_terms a @ or_terms b)"

text \<open>\<^verbatim>\<open>a+b+...+z\<close> and \<^verbatim>\<open>a|b|...|z\<close>, grouped to the left as in C++.\<close>

definition seq :: "parser list \<Rightarrow> parser" where
  "seq ps = foldl parser_plus (hd ps) (tl ps)"

definition alt :: "parser list \<Rightarrow> parser" where
  "alt ps = foldl parser_or (hd ps) (tl ps)"

definition atLeastOne :: "parser \<Rightarrow> parser" where
  "atLeastOne b =
     AnonParser (''at least one occurrance of '' @ target b) (parser_plus b (ParseZeroOrMore b))"

definition listOf3 :: "parser \<Rightarrow> parser \<Rightarrow> parser \<Rightarrow> parser" where
  "listOf3 x separator terminator =
     AnonParser
       (target separator @ ''-separated list of '' @ target x @ '' terminated by '' @ target terminator)
       (parser_or terminator
         (seq [x, ParseSpecificUntil (parser_plus separator x) terminator, terminator]))"

definition listOf :: "parser \<Rightarrow> parser \<Rightarrow> parser \<Rightarrow> parser \<Rightarrow> parser" where
  "listOf opener x separator terminator =
     AnonParser
       (target separator @ ''-separated list of '' @ target x @ '' commencing with '' @ target opener
         @ '' and terminated by '' @ target terminator)
       (parser_plus opener
         (parser_or terminator
           (seq [x, ParseSpecificUntil (parser_plus separator x) terminator, terminator])))"

end
