(* ===== verification/HcpGrammar.thy ===== *)
theory HcpGrammar
  imports HcpParser
begin

text \<open>
  The C++ grammar of \<^verbatim>\<open>src/hcp/parser.cc\<close>, in the order of the source.  Each function without
  arguments that returns a parser is a definition of its name.  Where the function returns a static
  object with a name, the definition \<open>f_object\<close> is the object and the abbreviation \<open>f\<close> the pointer
  to it; sums, products and character parsers are used by value, because \<^verbatim>\<open>operator+\<close> and
  \<^verbatim>\<open>operator|\<close> copy their terms.  \<open>static_object\<close> collects the objects.
\<close>

abbreviation "comments \<equiv> Static S_comments"
abbreviation "eatWhite \<equiv> Static S_eatWhite"
abbreviation "lineComment \<equiv> Static S_lineComment"
abbreviation "blockComment \<equiv> Static S_blockComment"

abbreviation "parseLiteral \<equiv> ParseLiteral"
abbreviation "parseOneOfChars \<equiv> ParseOneOfChars"
abbreviation "zeroOrMore \<equiv> ParseZeroOrMore"
abbreviation "balanced \<equiv> ParseBalanced"
abbreviation "identifier \<equiv> ParseIdentifier"

section \<open>Characters, comments and white space\<close>

definition digit :: parser where
  "digit = ParseCharInRange CHR ''0'' CHR ''9''"

definition octalDigit :: parser where
  "octalDigit = ParseCharInRange CHR ''0'' CHR ''7''"

definition hexDigit :: parser where
  "hexDigit = alt [ParseCharInRange CHR ''0'' CHR ''9'', ParseCharInRange CHR ''a'' CHR ''f'',
     ParseCharInRange CHR ''A'' CHR ''F'']"

definition stringEscapeSequence :: parser where
  "stringEscapeSequence =
     parser_plus (parseLiteral [CHR 0x5C])
       (alt [parseOneOfChars ([CHR 0x27, CHR 0x22] @ ''?'' @ [CHR 0x5C] @ ''abfnrtvuU''),
             seq [octalDigit, octalDigit, octalDigit],
             parser_plus octalDigit octalDigit,
             octalDigit,
             parser_plus (parseLiteral ''x'') (atLeastOne hexDigit)])"

definition c_char :: parser where
  "c_char = parser_or (ParseAnyCharExcept [CHR 0x5C, CHR 0x27, CHR 0x0A]) stringEscapeSequence"

definition s_char :: parser where
  "s_char = parser_or (ParseAnyCharExcept [CHR 0x5C, CHR 0x22, CHR 0x0A]) stringEscapeSequence"

definition whitespaceChar :: parser where
  "whitespaceChar = parseOneOfChars ('' '' @ [CHR 0x09, CHR 0x0A, CHR 0x0D])"

definition doubleSlash :: parser where
  "doubleSlash = parseLiteral ''//''"

definition slashStar :: parser where
  "slashStar = parseLiteral ''/*''"

definition starSlash :: parser where
  "starSlash = parseLiteral ''*/''"

definition lineComment_object :: parser where
  "lineComment_object =
     NamedParser LineComment ''line comment''
       (seq [doubleSlash, ParseUntil (parseOneOfChars [CHR 0x0A]), zeroOrMore whitespaceChar])"

definition blockComment_object :: parser where
  "blockComment_object =
     NamedParser BlockComment ''block comment''
       (seq [slashStar, ParseUntil starSlash, starSlash, zeroOrMore whitespaceChar])"

definition comments_object :: parser where
  "comments_object =
     NamedParser Comments ''comments'' (atLeastOne (parser_or lineComment blockComment))"

definition eatWhite_object :: parser where
  "eatWhite_object =
     AnonParser ''optional whitespace''
       (parser_or (ParseNot (alt [whitespaceChar, doubleSlash, slashStar]))
         (NamedParser WhiteSpace ''whitespace'' (zeroOrMore (parser_or whitespaceChar comments))))"

section \<open>Literals and preprocessor directives\<close>

definition doubleQuote :: parser where
  "doubleQuote = parseOneOfChars [CHR 0x22]"

definition doubleOpenSquare :: parser where
  "doubleOpenSquare = parseLiteral ''[[''"

definition lessThan :: parser where
  "lessThan = parseOneOfChars ''<''"

definition greaterThan :: parser where
  "greaterThan = parseOneOfChars ''>''"

definition doubleColon :: parser where
  "doubleColon = parser_plus (parseLiteral ''::'') (ParseNot (parseOneOfChars '':''))"

abbreviation "s_chars \<equiv> Static S_s_chars"
abbreviation "stringLiteral \<equiv> Static S_stringLiteral"
abbreviation "rawStringLiteral \<equiv> Static S_rawStringLiteral"

definition s_chars_object :: parser where
  "s_chars_object =
     NamedParser S_Chars ''string literal characters'' (ParseSpecificUntil s_char doubleQuote)"

definition stringLiteral_object :: parser where
  "stringLiteral_object =
     NamedParser StringLiteral ''string literal''
       (atLeastOne (seq [doubleQuote, s_chars, doubleQuote, eatWhite]))"

definition rawStringLiteral_object :: parser where
  "rawStringLiteral_object =
     NamedParser StringLiteral ''raw string literal'' ParseRawStringLiteral"

definition hashIncludeImplMarker :: parser where
  "hashIncludeImplMarker =
     seq [parseLiteral ''//'', zeroOrMore (parseOneOfChars ('' '' @ [CHR 0x09])), parseLiteral ''impl'',
          zeroOrMore (parseOneOfChars ('' '' @ [CHR 0x09])), parseLiteral [CHR 0x0A]]"

definition hashIncludeCommon :: parser where
  "hashIncludeCommon =
     seq [ParseHash, zeroOrMore (parseOneOfChars ('' '' @ [CHR 0x09])), parseLiteral ''include'',
          zeroOrMore (parseOneOfChars ('' '' @ [CHR 0x09])),
          parser_or
            (seq [lessThan,
                  NamedParser TargetOfHashInclude ''target of #include'' (ParseUntil greaterThan),
                  greaterThan])
            (seq [doubleQuote,
                  NamedParser TargetOfHashInclude ''target of #include'' (ParseUntil doubleQuote),
                  doubleQuote]),
          ParseUntil (parser_or (parseLiteral [CHR 0x0A]) hashIncludeImplMarker)]"

abbreviation "hashInclude \<equiv> Static S_hashInclude"
abbreviation "hashIncludeImpl \<equiv> Static S_hashIncludeImpl"
abbreviation "hash \<equiv> Static S_hash"
abbreviation "attributes \<equiv> Static S_attributes"
abbreviation "whitespace \<equiv> Static S_whitespace"

definition hashInclude_object :: parser where
  "hashInclude_object =
     NamedParser HashInclude ''#include'' (seq [hashIncludeCommon, parseOneOfChars [CHR 0x0A], eatWhite])"

definition hashIncludeImpl_object :: parser where
  "hashIncludeImpl_object =
     NamedParser HashIncludeImpl ''#include with //impl marker''
       (seq [hashIncludeCommon, hashIncludeImplMarker, eatWhite])"

definition hash_object :: parser where
  "hash_object =
     NamedParser OtherPreprocessor ''other preprocessor directive''
       (seq [ParseHash,
             ParseUntil (parser_plus (ParseAnyCharExcept [CHR 0x5C]) (parseOneOfChars [CHR 0x0A])),
             ParseAnyChar, eatWhite])"

definition attributes_object :: parser where
  "attributes_object =
     NamedParser Attributes ''attributes''
       (seq [parseLiteral ''[['', balanced (parseLiteral '']'') False, parseLiteral '']]'', eatWhite])"

definition whitespace_object :: parser where
  "whitespace_object = NamedParser Whitespace ''some whitespace'' (atLeastOne whitespaceChar)"

definition identifierContChar :: parser where
  "identifierContChar =
     alt [ParseCharInRange CHR ''a'' CHR ''z'', ParseCharInRange CHR ''A'' CHR ''Z'',
          ParseCharInRange CHR ''0'' CHR ''9'', parseOneOfChars ''_'']"

section \<open>Names and types\<close>

definition keyword :: "string \<Rightarrow> parser" where
  "keyword s = parser_plus (parseLiteral s) (ParseNot identifierContChar)"

definition class_struct_union_literal :: parser where
  "class_struct_union_literal =
     parser_plus (alt [parseLiteral ''class'', parseLiteral ''struct'', parseLiteral ''union''])
       (ParseNot identifierContChar)"

definition angle_arguments :: parser where
  "angle_arguments =
     parser_or (ParseNot (parseOneOfChars ''<''))
       (seq [parseOneOfChars ''<'', balanced (parseOneOfChars ''>'') True, parseOneOfChars ''>'',
             eatWhite])"

definition scope_ref :: parser where
  "scope_ref =
     seq [Optional class_struct_union_literal, eatWhite,
          Optional (parser_plus doubleColon eatWhite),
          zeroOrMore (seq [identifier, eatWhite, angle_arguments, doubleColon, eatWhite])]"

definition typename_keyword :: parser where
  "typename_keyword = parser_plus (keyword ''typename'') eatWhite"

abbreviation "scoped_name \<equiv> Static S_scoped_name"
abbreviation "cv \<equiv> Static S_cv"
abbreviation "type_qual \<equiv> Static S_type_qual"
abbreviation "type_ref \<equiv> Static S_type_ref"
abbreviation "type_name \<equiv> Static S_type_name"

definition scoped_name_object :: parser where
  "scoped_name_object =
     NamedParser ScopedName ''scoped name''
       (seq [Optional typename_keyword, scope_ref, identifier, eatWhite, angle_arguments])"

definition bracketed :: "parser \<Rightarrow> parser" where
  "bracketed x = seq [parseLiteral ''('', eatWhite, x, parseLiteral '')'', eatWhite]"

definition typedef_keyword :: parser where
  "typedef_keyword = keyword ''typedef''"

definition const_keyword :: parser where
  "const_keyword =
     parser_plus (NamedParser (Qual ConstQual) ''const qualifier'' (parseLiteral ''const''))
       (ParseNot identifierContChar)"

definition volatile_keyword :: parser where
  "volatile_keyword =
     parser_plus (NamedParser (Qual VolatileQual) ''volatile qualifier'' (parseLiteral ''volatile''))
       (ParseNot identifierContChar)"

definition cv_object :: parser where
  "cv_object =
     AnonParser ''const/volatile qualifiers''
       (zeroOrMore (parser_plus (parser_or const_keyword volatile_keyword) eatWhite))"

definition type_qual_object :: parser where
  "type_qual_object =
     AnonParser ''const/volatile/*/& type qualifier''
       (parser_plus
         (alt [const_keyword, volatile_keyword,
               NamedParser (Qual MoveQual) ''move qualifier'' (parseLiteral ''&&''),
               NamedParser (Qual RefQual) ''ref qualifier'' (parseOneOfChars ''&''),
               NamedParser (Qual PointerQual) ''pointer qualifier'' (parseOneOfChars ''*'')])
         eatWhite)"

definition type_ref_object :: parser where
  "type_ref_object =
     NamedParser TypeRef ''type reference''
       (seq [cv, type_name, zeroOrMore type_qual, eatWhite,
             parser_or (ParseNot (parseLiteral ''.''))
               (parser_plus (NamedParser (Qual ElipsesQual) ''elipses qualifier'' (parseLiteral ''...''))
                 eatWhite)])"

definition defined_type :: parser where
  "defined_type =
     parser_plus (NamedParser DefinedType ([CHR 0x22] @ ''defined type'' @ [CHR 0x22]) identifier)
       eatWhite"

definition array_decl :: parser where
  "array_decl =
     parser_plus
       (NamedParser ArrayDecl ''array decl''
         (seq [parseOneOfChars ''['', balanced (parseOneOfChars '']'') False, parseOneOfChars '']'']))
       eatWhite"

definition typedef_non_fp :: parser where
  "typedef_non_fp =
     seq [typedef_keyword, whitespace, type_ref, defined_type,
          parser_or (ParseNot (parseLiteral ''['')) array_decl, parseOneOfChars '';'', eatWhite]"

definition using_keyword :: parser where
  "using_keyword = keyword ''using''"

abbreviation "using_statement \<equiv> Static S_using_statement"
abbreviation "enum_name \<equiv> Static S_enum_name"
abbreviation "scoped_enum_def \<equiv> Static S_scoped_enum_def"
abbreviation "enum_def \<equiv> Static S_enum_def"
abbreviation "enum_decl \<equiv> Static S_enum_decl"

definition using_statement_object :: parser where
  "using_statement_object =
     NamedParser Using ''using statement''
       (seq [using_keyword, whitespace, balanced (parseOneOfChars '';'') False, parseOneOfChars '';'',
             eatWhite])"

definition enum_name_object :: parser where
  "enum_name_object = NamedParser EnumName ([CHR 0x22] @ ''enum name'' @ [CHR 0x22]) identifier"

definition enum_keyword :: parser where
  "enum_keyword = keyword ''enum''"

definition scoped_enum_def_object :: parser where
  "scoped_enum_def_object =
     NamedParser EnumDef ''scoped enum definition''
       (seq [enum_keyword, whitespace, parser_or (parseLiteral ''struct'') (parseLiteral ''class''),
             whitespace, Optional enum_name, eatWhite,
             parser_or (seq [parseLiteral '':'', eatWhite, type_name, eatWhite])
               (ParseNot (parseLiteral '':'')),
             parseLiteral ''{'', balanced (parseOneOfChars ''}'') False, parseOneOfChars ''}'', eatWhite,
             parseOneOfChars '';'', eatWhite])"

definition enum_def_object :: parser where
  "enum_def_object =
     NamedParser EnumDef ''enum definition''
       (seq [enum_keyword, whitespace, Optional enum_name, eatWhite, parseLiteral ''{'',
             balanced (parseOneOfChars ''}'') False, parseOneOfChars ''}'', eatWhite,
             parseOneOfChars '';'', eatWhite])"

definition enum_decl_object :: parser where
  "enum_decl_object =
     NamedParser EnumForwardDecl ''enum forward-declaration''
       (seq [enum_keyword, whitespace,
             Optional (parser_plus (parser_or (parseLiteral ''struct'') (parseLiteral ''class''))
               whitespace),
             enum_name, eatWhite, parseOneOfChars '';'', eatWhite])"

definition bracketed_text :: parser where
  "bracketed_text =
     seq [parseLiteral ''('', balanced (parseLiteral '')'') False, parseLiteral '')'', eatWhite]"

definition unqualifiedTypeName :: parser where
  "unqualifiedTypeName =
     parser_plus identifier
       (parser_or (ParseNot (parseOneOfChars ''<''))
         (seq [parseOneOfChars ''<'', balanced (parseOneOfChars ''>'') True, parseOneOfChars ''>'']))"

definition operator_keyword :: parser where
  "operator_keyword = parser_plus (keyword ''operator'') eatWhite"

abbreviation "operator_name \<equiv> Static S_operator_name"
abbreviation "destructor_name \<equiv> Static S_destructor_name"

definition operator_symbols :: "string list" where
  "operator_symbols =
     [''()'', ''&&'', ''||'', ''<<='', ''<<'', ''>>'', ''>>='', ''=='', ''!='', ''<='', ''>='', ''<'', ''>'',
      ''++'', ''+='', ''--'', ''-='', ''->*'', ''->'', ''+'', ''-'', ''|='', ''&='', ''|'', ''&'', '','', ''[]'',
      ''!'', ''^'', ''^='', ''%='', ''%'', ''='', ''*'', ''*='', ''~'', ''~='', ''/'', ''/='', ''new'', ''delete'']"

definition operator_name_object :: parser where
  "operator_name_object =
     AnonParser ''operator name''
       (seq [scope_ref, operator_keyword,
             NamedParser OperatorName ''operator name'' (alt (map parseLiteral operator_symbols)),
             eatWhite])"

definition destructor_name_object :: parser where
  "destructor_name_object =
     AnonParser ''destructor name'' (seq [scope_ref, parseLiteral ''~'', eatWhite, identifier])"

definition class_name :: parser where
  "class_name =
     parser_plus
       (NamedParser ClassName ''class name''
         (seq [Optional typename_keyword, Optional doubleColon, eatWhite, unqualifiedTypeName,
               zeroOrMore (seq [eatWhite, doubleColon, eatWhite, unqualifiedTypeName])]))
       eatWhite"

definition built_in_type_name :: parser where
  "built_in_type_name =
     atLeastOne
       (seq [alt (map parseLiteral
               [''char'', ''char16_t'', ''char32_t'', ''wchar_t'', ''short'', ''int'', ''long'', ''float'',
                ''double'', ''signed'', ''unsigned'']),
             ParseNot identifierContChar, eatWhite])"

definition decltype_text :: parser where
  "decltype_text = seq [parseLiteral ''decltype'', eatWhite, bracketed_text]"

definition type_name_object :: parser where
  "type_name_object = AnonParser ''type name'' (alt [built_in_type_name, decltype_text, scoped_name])"

definition conversion_operator_name :: parser where
  "conversion_operator_name = seq [scope_ref, operator_keyword, type_ref]"

section \<open>Functions\<close>

definition keyword_item :: "keyword_tag \<Rightarrow> string \<Rightarrow> parser" where
  "keyword_item t s =
     seq [NamedParser (Keyword t) (quote s) (parseLiteral s), ParseNot identifierContChar, eatWhite]"

definition keyword_static :: parser where
  "keyword_static = keyword_item KeywordStatic ''static''"

definition keyword_extern :: parser where
  "keyword_extern = keyword_item KeywordExtern ''extern''"

definition keyword_inline :: parser where
  "keyword_inline = seq [parseLiteral ''inline'', ParseNot identifierContChar, eatWhite]"

definition keyword_mutable :: parser where
  "keyword_mutable = seq [parseLiteral ''mutable'', ParseNot identifierContChar, eatWhite]"

definition keyword_friend :: parser where
  "keyword_friend = keyword_item KeywordFriend ''friend''"

definition keyword_public :: parser where
  "keyword_public = keyword_item KeywordPublic ''public''"

definition keyword_private :: parser where
  "keyword_private = keyword_item KeywordPrivate ''private''"

definition keyword_protected :: parser where
  "keyword_protected = keyword_item KeywordProtected ''protected''"

definition keyword_virtual :: parser where
  "keyword_virtual = keyword_item KeywordVirtual ''virtual''"

definition keyword_explicit :: parser where
  "keyword_explicit = keyword_item KeywordExplicit ''explicit''"

definition keyword_override :: parser where
  "keyword_override = keyword_item KeywordOverride ''override''"

definition keyword_final :: parser where
  "keyword_final = keyword_item KeywordFinal ''final''"

definition keyword_noexcept :: parser where
  "keyword_noexcept = keyword_item KeywordNoexcept ''noexcept''"

definition keyword_throw :: parser where
  "keyword_throw = keyword_item KeywordThrow ''throw''"

abbreviation "empty_throw \<equiv> Static S_empty_throw"
abbreviation "throw_list \<equiv> Static S_throw_list"
abbreviation "function_qualifiers \<equiv> Static S_function_qualifiers"
abbreviation "virt_specifier_seq \<equiv> Static S_virt_specifier_seq"
abbreviation "function_post_qualifiers \<equiv> Static S_function_post_qualifiers"
abbreviation "block_open \<equiv> Static S_block_open"
abbreviation "block \<equiv> Static S_block"
abbreviation "init_list \<equiv> Static S_init_list"
abbreviation "function_impl \<equiv> Static S_function_impl"

definition empty_throw_object :: parser where
  "empty_throw_object =
     NamedParser (Throw_item EmptyThrow) ''empty throw clause''
       (seq [keyword_throw, eatWhite, parseLiteral ''('', eatWhite, parseLiteral '')'', eatWhite])"

definition throw_list_object :: parser where
  "throw_list_object =
     NamedParser (Throw_item ThrowList) ''non-empty throw clause''
       (seq [keyword_throw, eatWhite,
             listOf (parseLiteral ''('')
               (NamedParser (Throw_item ThrowListItem) ''throw clause item''
                 (parser_plus eatWhite
                   (NamedParser (Throw_item ThrowListItemTypeName) ''type name'' type_name)))
               (parser_plus eatWhite (parseLiteral '',''))
               (parser_plus eatWhite (parseLiteral '')'')),
             NamedParser (Throw_item ThrowListTrailingWhite) ''throw clause trailing whitespace''
               eatWhite])"

definition throw_clause :: parser where
  "throw_clause =
     alt [empty_throw, throw_list,
          parser_plus keyword_noexcept (parser_or (ParseNot (parseLiteral ''('')) bracketed_text)]"

definition function_qualifiers_object :: parser where
  "function_qualifiers_object =
     NamedParser FunctionQualifiers ''function qualifiers''
       (zeroOrMore
         (parser_plus
           (alt [keyword_virtual, keyword_explicit, keyword_friend, keyword_static, keyword_inline])
           eatWhite))"

definition virt_specifier_seq_object :: parser where
  "virt_specifier_seq_object =
     NamedParser VirtSpecifierSeq ''virt-specifier-seq''
       (alt [seq [keyword_override, eatWhite, keyword_final],
             seq [keyword_final, eatWhite, keyword_override],
             keyword_override, keyword_final])"

definition function_post_qualifiers_object :: parser where
  "function_post_qualifiers_object =
     NamedParser FunctionPostQualifiers ''function post-qualifiers''
       (seq [cv, parser_or (ParseNot (parser_or keyword_throw keyword_noexcept)) throw_clause,
             Optional virt_specifier_seq])"

definition block_open_object :: parser where
  "block_open_object = NamedParser BlockOpen ''block open'' (parseLiteral ''{'')"

definition block_object :: parser where
  "block_object =
     NamedParser Block ''block''
       (seq [block_open, balanced (parseOneOfChars ''}'') False, parseLiteral ''}''])"

definition init_list_object :: parser where
  "init_list_object =
     NamedParser InitList ''initialiser list''
       (parser_plus (NamedParser InitListOpen ''init list open'' (parseLiteral '':''))
         (balanced (parseOneOfChars ''{;'') False))"

definition keyword_try :: parser where
  "keyword_try = keyword_item KeywordTry ''try''"

definition keyword_catch :: parser where
  "keyword_catch = keyword_item KeywordCatch ''catch''"

definition catch_block :: parser where
  "catch_block = seq [keyword_catch, bracketed_text, block]"

definition function_impl_object :: parser where
  "function_impl_object =
     NamedParser FunctionImpl ''function implementation''
       (alt [seq [keyword_try, init_list, block, eatWhite, catch_block],
             seq [keyword_try, block, eatWhite, catch_block],
             parser_plus init_list block,
             block])"

definition template_keyword :: parser where
  "template_keyword = parser_plus (keyword ''template'') eatWhite"

abbreviation "template_empty_preamble \<equiv> Static S_template_empty_preamble"
abbreviation "template_preamble \<equiv> Static S_template_preamble"
abbreviation "params \<equiv> Static S_params"
abbreviation "function_initialiser \<equiv> Static S_function_initialiser"
abbreviation "post_result_type \<equiv> Static S_post_result_type"
abbreviation "function_proto \<equiv> Static S_function_proto"
abbreviation "function_decl \<equiv> Static S_function_decl"
abbreviation "function_def \<equiv> Static S_function_def"
abbreviation "template_function_def \<equiv> Static S_template_function_def"

definition template_empty_preamble_object :: parser where
  "template_empty_preamble_object =
     NamedParser TemplateEmptyPreamble ''template empty preamble''
       (seq [template_keyword, parseOneOfChars ''<'', eatWhite, parseOneOfChars ''>'', eatWhite])"

definition template_preamble_object :: parser where
  "template_preamble_object =
     NamedParser TemplatePreamble ''template preamble''
       (parser_plus (ParseNot template_empty_preamble)
         (seq [template_keyword, parseOneOfChars ''<'', balanced (parseOneOfChars ''>'') True,
               parseOneOfChars ''>'', eatWhite]))"

definition optional_attributes :: parser where
  "optional_attributes = parser_or (ParseNot doubleOpenSquare) attributes"

definition conversion_operator_function_proto :: parser where
  "conversion_operator_function_proto =
     seq [function_qualifiers,
          NamedParser FunctionName ''conversion operator name'' conversion_operator_name,
          eatWhite, optional_attributes, params]"

definition typed_function_proto :: parser where
  "typed_function_proto =
     seq [function_qualifiers, NamedParser ReturnType ''return type'' type_ref,
          NamedParser FunctionName ''function name'' (parser_or operator_name scoped_name),
          eatWhite, optional_attributes, params]"

definition untyped_function_proto :: parser where
  "untyped_function_proto =
     seq [function_qualifiers,
          NamedParser FunctionName ''function name''
            (alt [destructor_name, operator_name, scoped_name]),
          eatWhite, optional_attributes, params]"

definition function_initialiser_object :: parser where
  "function_initialiser_object =
     AnonParser ''function initialier''
       (parser_plus (parseLiteral ''='') (balanced (parser_plus (parseLiteral '';'') eatWhite) False))"

definition post_result_type_object :: parser where
  "post_result_type_object =
     AnonParser ''post result type'' (seq [parseLiteral ''->'', eatWhite, type_ref])"

definition function_proto_object :: parser where
  "function_proto_object =
     AnonParser ''function proto''
       (seq [alt [conversion_operator_function_proto, typed_function_proto, untyped_function_proto],
             function_post_qualifiers,
             parser_or (ParseNot (parseLiteral ''->'')) post_result_type,
             parser_or (ParseNot (parseLiteral ''='')) function_initialiser])"

definition function_decl_object :: parser where
  "function_decl_object =
     NamedParser FunctionDecl ''function declaration''
       (seq [Optional (parser_or template_empty_preamble template_preamble), optional_attributes,
             function_proto, parser_plus eatWhite (parseOneOfChars '';''), eatWhite])"

definition function_def_unnamed :: parser where
  "function_def_unnamed = seq [function_proto, function_impl, eatWhite]"

definition function_def_object :: parser where
  "function_def_object =
     NamedParser FunctionDef ''non-template function definition''
       (seq [Optional template_empty_preamble, optional_attributes, function_def_unnamed])"

definition template_function_def_object :: parser where
  "template_function_def_object =
     NamedParser TemplateFunctionDef ''template function definition''
       (seq [atLeastOne template_preamble, optional_attributes, function_def_unnamed])"

section \<open>Classes and variables\<close>

definition not_class_struct_union_literal :: parser where
  "not_class_struct_union_literal = ParseNot class_struct_union_literal"

abbreviation "base_specifier \<equiv> Static S_base_specifier"
abbreviation "class_decl \<equiv> Static S_class_decl"

definition base_specifier_object :: parser where
  "base_specifier_object =
     NamedParser BaseSpecifier ''base specifier''
       (seq [Optional (parser_plus (alt [keyword_public, keyword_private, keyword_protected]) eatWhite),
             Optional keyword_virtual, eatWhite,
             ParseNot (alt [keyword_public, keyword_private, keyword_protected, keyword_virtual]),
             scoped_name])"

definition base_specifier_list :: parser where
  "base_specifier_list = NonEmptyListOf base_specifier (parser_plus (parseLiteral '','') eatWhite)"

definition class_proto :: parser where
  "class_proto =
     seq [zeroOrMore (parser_or template_preamble template_empty_preamble), Optional keyword_friend,
          class_struct_union_literal, whitespace, class_name,
          parser_or (ParseNot (parseLiteral '':''))
            (seq [parseLiteral '':'', eatWhite, base_specifier_list])]"

definition class_decl_object :: parser where
  "class_decl_object =
     NamedParser ClassForwardDecl ''class forward-declaration''
       (seq [class_proto, parseOneOfChars '';'', eatWhite])"

definition var_name :: parser where
  "var_name = parser_plus (NamedParser VarName ''var name'' identifier) eatWhite"

abbreviation "var_initialiser_open \<equiv> Static S_var_initialiser_open"
abbreviation "var_initialiser_1 \<equiv> Static S_var_initialiser_1"
abbreviation "var_initialiser_2 \<equiv> Static S_var_initialiser_2"
abbreviation "var_initialiser \<equiv> Static S_var_initialiser"
abbreviation "var_non_fp \<equiv> Static S_var_non_fp"
abbreviation "var_fp \<equiv> Static S_var_fp"
abbreviation "param \<equiv> Static S_param"

definition var_initialiser_open_object :: parser where
  "var_initialiser_open_object =
     NamedParser VarInitialiserOpen
       (''variable initialiser '' @ [CHR 0x27] @ ''='' @ [CHR 0x27]) (parseOneOfChars ''='')"

definition var_initialiser_1_object :: parser where
  "var_initialiser_1_object =
     NamedParser VarInitialiser ''variable initialiser''
       (parser_plus var_initialiser_open (balanced (parseOneOfChars '');,'') False))"

definition var_initialiser_open_2 :: parser where
  "var_initialiser_open_2 =
     NamedParser VarInitialiserOpen
       (''variable initialiser '' @ [CHR 0x27] @ ''{'' @ [CHR 0x27]) (parseOneOfChars ''{'')"

definition var_initialiser_2_object :: parser where
  "var_initialiser_2_object =
     NamedParser VarInitialiser ''variable initialiser''
       (seq [var_initialiser_open_2, balanced (parseOneOfChars ''}'') False, parseOneOfChars ''}''])"

definition var_initialiser_object :: parser where
  "var_initialiser_object =
     AnonParser ''var initialiser'' (parser_or var_initialiser_1 var_initialiser_2)"

definition var_non_fp_object :: parser where
  "var_non_fp_object =
     NamedParser VarNonFp ''non-function pointer var''
       (seq [type_ref, var_name, optional_attributes, Optional array_decl,
             parser_or (ParseNot (parseOneOfChars ''={'')) var_initialiser])"

definition param_object :: parser where
  "param_object =
     NamedParser Param ''param'' (parser_plus (alt [var_non_fp, VarFpBackref, type_ref]) eatWhite)"

definition params_object :: parser where
  "params_object =
     AnonParser ''params''
       (seq [parseLiteral ''('', eatWhite,
             listOf3 param (parser_plus (parseLiteral '','') eatWhite) (parseLiteral '')''), eatWhite])"

definition var_fp_object :: parser where
  "var_fp_object =
     AnonParser ''function pointer var''
       (seq [type_ref,
             bracketed (seq [scope_ref, cv, parseLiteral ''*'', eatWhite, cv, var_name,
                             optional_attributes]),
             params, function_post_qualifiers,
             parser_or (ParseNot (parseOneOfChars ''={'')) var_initialiser,
             eatWhite])"

abbreviation "typedef_fp \<equiv> Static S_typedef_fp"
abbreviation "typedef_statement \<equiv> Static S_typedef_statement"
abbreviation "global_var_def \<equiv> Static S_global_var_def"
abbreviation "static_var_def \<equiv> Static S_static_var_def"
abbreviation "extern_var_def \<equiv> Static S_extern_var_def"
abbreviation "access_modifier \<equiv> Static S_access_modifier"
abbreviation "class_def \<equiv> Static S_class_def"

definition typedef_fp_object :: parser where
  "typedef_fp_object =
     AnonParser ''typedef of function pointer''
       (seq [typedef_keyword, whitespace, type_ref,
             bracketed (seq [scope_ref, cv, parseLiteral ''*'', eatWhite, cv, defined_type,
                             parser_or (ParseNot (parseLiteral ''['')) array_decl]),
             params, function_post_qualifiers, eatWhite, parseOneOfChars '';'', eatWhite])"

definition typedef_statement_object :: parser where
  "typedef_statement_object =
     NamedParser Typedef ''typedef statement'' (parser_or typedef_fp typedef_non_fp)"

definition var_def :: parser where
  "var_def = seq [Optional keyword_mutable, parser_or var_non_fp var_fp, eatWhite]"

definition global_var_def_object :: parser where
  "global_var_def_object =
     NamedParser GlobalVarDef ''global variable definition''
       (seq [optional_attributes, var_def, parseLiteral '';'', eatWhite])"

definition static_var_def_object :: parser where
  "static_var_def_object =
     NamedParser StaticVarDef ''static variable definition''
       (seq [keyword_static, eatWhite, optional_attributes, var_def, parseLiteral '';'', eatWhite])"

definition extern_var_def_object :: parser where
  "extern_var_def_object =
     NamedParser ExternVarDef ''extern variable definition''
       (seq [keyword_extern, eatWhite, optional_attributes, var_def, parseLiteral '';'', eatWhite])"

definition access_modifier_object :: parser where
  "access_modifier_object =
     NamedParser AccessModifier ''public/private/protected: marker''
       (seq [alt [parseLiteral ''public'', parseLiteral ''private'', parseLiteral ''protected''],
             eatWhite, parseOneOfChars '':'', eatWhite])"

definition not_typedef_using_enum_keyword :: parser where
  "not_typedef_using_enum_keyword = ParseNot (alt [typedef_keyword, using_keyword, enum_keyword])"

definition class_members :: parser where
  "class_members =
     NamedParser ClassMembers ''class members''
       (ParseSpecificUntil
         (alt [comments, access_modifier, SelfParser S_class_def, enum_decl, class_decl,
               parser_plus not_class_struct_union_literal
                 (alt [typedef_statement, scoped_enum_def, enum_def, using_statement,
                       parser_plus not_typedef_using_enum_keyword
                         (alt [function_decl, template_function_def, function_def, static_var_def,
                               extern_var_def, global_var_def])])])
         (parseOneOfChars ''}''))"

definition class_x :: parser where
  "class_x =
     seq [class_proto, parseOneOfChars ''{'', eatWhite, class_members, parseOneOfChars ''}'', eatWhite,
          parseOneOfChars '';'', eatWhite]"

definition class_tp :: parser where
  "class_tp =
     NamedParser TemplateClassDef ''template class definition'' (parser_plus template_preamble class_x)"

definition class_p :: parser where
  "class_p = NamedParser ClassDef ''non-template class definition'' class_x"

definition class_def_object :: parser where
  "class_def_object = ParseClass class_tp class_p"

section \<open>Namespaces and files\<close>

abbreviation "not_function_proto_or_template_function_proto \<equiv> Static S_not_function_proto"
abbreviation "anonymous_namespace \<equiv> Static S_anonymous_namespace"
abbreviation "namespace_def \<equiv> Static S_namespace_def"
abbreviation "file \<equiv> Static S_file"
abbreviation "endOfFile \<equiv> ParseEndOfFile"

definition not_function_proto_object :: parser where
  "not_function_proto_object =
     AnonParser ''not function proto or template function proto''
       (ParseNot (parser_or function_proto (parser_plus template_preamble function_proto)))"

definition namespace_leaf :: parser where
  "namespace_leaf =
     alt [comments, hashIncludeImpl, hashInclude, hash, class_def, enum_decl, class_decl,
          parser_plus not_class_struct_union_literal
            (alt [typedef_statement, using_statement, scoped_enum_def, enum_def,
                  parser_plus not_typedef_using_enum_keyword
                    (alt [whitespace, function_decl, template_function_def, function_def,
                          parser_plus not_function_proto_or_template_function_proto
                            (alt [static_var_def, extern_var_def, global_var_def])])])]"

definition namespace_keyword :: parser where
  "namespace_keyword = keyword ''namespace''"

definition not_namespace_keyword :: parser where
  "not_namespace_keyword = ParseNot namespace_keyword"

definition anonymous_namespace_object :: parser where
  "anonymous_namespace_object =
     NamedParser AnonymousNamespace ''anonymous namespace''
       (seq [namespace_keyword, eatWhite,
             NamedParser AnonymousNamespaceOpen ''anon namespace open'' (parseOneOfChars ''{''),
             eatWhite, ParseSpecificUntil namespace_leaf (parseOneOfChars ''}''), parseOneOfChars ''}'',
             eatWhite])"

definition namespace_def_object :: parser where
  "namespace_def_object =
     NamedParser NamespaceDef ''namespace''
       (seq [namespace_keyword, whitespace,
             NamedParser NamespaceName ''namespace name'' identifier,
             eatWhite, parseOneOfChars ''{'', eatWhite,
             NamedParser NamespaceMembers ''namespace members''
               (ParseSpecificUntil
                 (parser_plus
                   (alt [SelfParser S_namespace_def, anonymous_namespace,
                         parser_plus not_namespace_keyword namespace_leaf])
                   eatWhite)
                 (parseOneOfChars ''}'')),
             parseOneOfChars ''}'', eatWhite])"

definition file_object :: parser where
  "file_object =
     NamedParser File ''file''
       (seq [Optional comments, eatWhite,
             ParseSpecificUntil
               (alt [namespace_def, anonymous_namespace,
                     parser_plus not_namespace_keyword namespace_leaf])
               endOfFile,
             endOfFile])"

section \<open>The static objects\<close>

primrec static_object :: "static \<Rightarrow> parser" where
  "static_object S_lineComment = lineComment_object"
| "static_object S_blockComment = blockComment_object"
| "static_object S_comments = comments_object"
| "static_object S_eatWhite = eatWhite_object"
| "static_object S_s_chars = s_chars_object"
| "static_object S_stringLiteral = stringLiteral_object"
| "static_object S_rawStringLiteral = rawStringLiteral_object"
| "static_object S_hashInclude = hashInclude_object"
| "static_object S_hashIncludeImpl = hashIncludeImpl_object"
| "static_object S_hash = hash_object"
| "static_object S_attributes = attributes_object"
| "static_object S_whitespace = whitespace_object"
| "static_object S_scoped_name = scoped_name_object"
| "static_object S_cv = cv_object"
| "static_object S_type_name = type_name_object"
| "static_object S_type_qual = type_qual_object"
| "static_object S_type_ref = type_ref_object"
| "static_object S_using_statement = using_statement_object"
| "static_object S_enum_name = enum_name_object"
| "static_object S_scoped_enum_def = scoped_enum_def_object"
| "static_object S_enum_def = enum_def_object"
| "static_object S_enum_decl = enum_decl_object"
| "static_object S_operator_name = operator_name_object"
| "static_object S_destructor_name = destructor_name_object"
| "static_object S_empty_throw = empty_throw_object"
| "static_object S_throw_list = throw_list_object"
| "static_object S_function_qualifiers = function_qualifiers_object"
| "static_object S_virt_specifier_seq = virt_specifier_seq_object"
| "static_object S_function_post_qualifiers = function_post_qualifiers_object"
| "static_object S_block_open = block_open_object"
| "static_object S_block = block_object"
| "static_object S_init_list = init_list_object"
| "static_object S_function_impl = function_impl_object"
| "static_object S_template_empty_preamble = template_empty_preamble_object"
| "static_object S_template_preamble = template_preamble_object"
| "static_object S_function_initialiser = function_initialiser_object"
| "static_object S_post_result_type = post_result_type_object"
| "static_object S_var_initialiser_open = var_initialiser_open_object"
| "static_object S_var_initialiser_1 = var_initialiser_1_object"
| "static_object S_var_initialiser_2 = var_initialiser_2_object"
| "static_object S_var_initialiser = var_initialiser_object"
| "static_object S_var_non_fp = var_non_fp_object"
| "static_object S_param = param_object"
| "static_object S_params = params_object"
| "static_object S_var_fp = var_fp_object"
| "static_object S_function_proto = function_proto_object"
| "static_object S_function_decl = function_decl_object"
| "static_object S_function_def = function_def_object"
| "static_object S_template_function_def = template_function_def_object"
| "static_object S_base_specifier = base_specifier_object"
| "static_object S_class_decl = class_decl_object"
| "static_object S_typedef_fp = typedef_fp_object"
| "static_object S_typedef_statement = typedef_statement_object"
| "static_object S_global_var_def = global_var_def_object"
| "static_object S_static_var_def = static_var_def_object"
| "static_object S_extern_var_def = extern_var_def_object"
| "static_object S_access_modifier = access_modifier_object"
| "static_object S_class_def = class_def_object"
| "static_object S_not_function_proto = not_function_proto_object"
| "static_object S_anonymous_namespace = anonymous_namespace_object"
| "static_object S_namespace_def = namespace_def_object"
| "static_object S_file = file_object"

lemmas static_object_defs =
  lineComment_object_def blockComment_object_def comments_object_def eatWhite_object_def
  s_chars_object_def stringLiteral_object_def rawStringLiteral_object_def hashInclude_object_def
  hashIncludeImpl_object_def hash_object_def attributes_object_def whitespace_object_def
  scoped_name_object_def cv_object_def type_qual_object_def type_ref_object_def
  using_statement_object_def enum_name_object_def scoped_enum_def_object_def enum_def_object_def
  enum_decl_object_def operator_name_object_def destructor_name_object_def type_name_object_def
  empty_throw_object_def throw_list_object_def function_qualifiers_object_def
  virt_specifier_seq_object_def function_post_qualifiers_object_def block_open_object_def
  block_object_def init_list_object_def function_impl_object_def
  template_empty_preamble_object_def template_preamble_object_def
  function_initialiser_object_def post_result_type_object_def function_proto_object_def
  function_decl_object_def function_def_object_def template_function_def_object_def
  base_specifier_object_def class_decl_object_def var_initialiser_open_object_def
  var_initialiser_1_object_def var_initialiser_2_object_def var_initialiser_object_def
  var_non_fp_object_def param_object_def params_object_def var_fp_object_def
  typedef_fp_object_def typedef_statement_object_def global_var_def_object_def
  static_var_def_object_def extern_var_def_object_def access_modifier_object_def
  class_def_object_def not_function_proto_object_def anonymous_namespace_object_def
  namespace_def_object_def file_object_def

lemmas grammar_defs =
  digit_def octalDigit_def hexDigit_def stringEscapeSequence_def c_char_def s_char_def
  whitespaceChar_def doubleSlash_def slashStar_def starSlash_def doubleQuote_def
  doubleOpenSquare_def lessThan_def greaterThan_def doubleColon_def hashIncludeImplMarker_def
  hashIncludeCommon_def identifierContChar_def keyword_def class_struct_union_literal_def
  angle_arguments_def scope_ref_def typename_keyword_def bracketed_def typedef_keyword_def
  const_keyword_def volatile_keyword_def defined_type_def array_decl_def typedef_non_fp_def
  using_keyword_def enum_keyword_def bracketed_text_def unqualifiedTypeName_def
  operator_keyword_def operator_symbols_def class_name_def built_in_type_name_def
  decltype_text_def conversion_operator_name_def keyword_item_def keyword_static_def
  keyword_extern_def keyword_inline_def keyword_mutable_def keyword_friend_def
  keyword_public_def keyword_private_def keyword_protected_def keyword_virtual_def
  keyword_explicit_def keyword_override_def keyword_final_def keyword_noexcept_def
  keyword_throw_def throw_clause_def keyword_try_def keyword_catch_def catch_block_def
  template_keyword_def optional_attributes_def conversion_operator_function_proto_def
  typed_function_proto_def untyped_function_proto_def function_def_unnamed_def
  not_class_struct_union_literal_def base_specifier_list_def class_proto_def var_name_def
  var_initialiser_open_2_def var_def_def not_typedef_using_enum_keyword_def class_members_def
  class_x_def class_tp_def class_p_def namespace_leaf_def namespace_keyword_def
  not_namespace_keyword_def

text \<open>Each static object describes itself as \<open>static_target\<close> says.\<close>

lemma static_target_object: "target (static_object n) = static_target n"
  by (cases n) (simp_all add: static_object_defs)

end
