(* ===== verification/HcpEngine.thy ===== *)
theory HcpEngine
  imports HcpGrammar
begin

text \<open>
  What the parsers of \<^verbatim>\<open>src/hcp/parser.cc\<close> do: the \<^verbatim>\<open>parse_\<close> of every class, and \<^verbatim>\<open>Parser::parse\<close>,
  which looks the result up in a cache keyed by position and parser, calls \<^verbatim>\<open>parse_\<close> when it is not
  there, adds the parser to the context of a failure and stores the result.

  The body of a class's \<^verbatim>\<open>parse_\<close> is a definition over the two functions it calls on other parsers:
  \<open>P\<close> is \<^verbatim>\<open>parse\<close> and \<open>V\<close> is \<^verbatim>\<open>parse_\<close>.  Both take and return the state \<open>s\<close>, the cache.
  \<open>parse_impl\<close> ties the knot; it spends a unit of fuel for every call of \<^verbatim>\<open>parse_\<close> it nests, and a
  loop of \<^verbatim>\<open>parse_\<close> runs at most as often as there is fuel.  Running out of fuel is \<open>Diverge\<close>; that
  there is enough for the C++ grammar, whatever the text, is shown in HcpTermination.

  An exception that leaves \<^verbatim>\<open>parse_\<close>, which is declared \<^verbatim>\<open>throw()\<close>, is \<open>Abort\<close>.  The trace option,
  which only prints, and the file and line of an exception's origin are left out.
\<close>

section \<open>Exceptions and results\<close>

text \<open>An entry of the context is whether the parser is named, the parser, whose target is the text
  that is printed, and the position.\<close>

record Exception =
  ex_cause :: cause
  ex_at :: I
  ex_atEnd :: bool
  ex_irsAtEnd :: "item list"
  ex_context :: "(bool \<times> parser \<times> I) list"

definition mk_Exception :: "cause \<Rightarrow> I \<Rightarrow> bool \<Rightarrow> Exception" where
  "mk_Exception c i e =
     \<lparr>ex_cause = c, ex_at = i, ex_atEnd = e, ex_irsAtEnd = [], ex_context = []\<rparr>"

definition EndOfInput :: "I \<Rightarrow> Exception" where
  "EndOfInput i = mk_Exception end_of_input i True"

fun isNamedParser :: "parser \<Rightarrow> bool" where
  "isNamedParser (NamedParser t name x) = True"
| "isNamedParser (AnonParser name x) = True"
| "isNamedParser (Static n) = (n \<noteq> S_class_def)"
| "isNamedParser p = False"

definition addContext :: "parser \<Rightarrow> I \<Rightarrow> Exception \<Rightarrow> Exception" where
  "addContext p i e = e\<lparr>ex_context := ex_context e @ [(isNamedParser p, p, i)]\<rparr>"

definition addAtEndIRs :: "item list \<Rightarrow> Exception \<Rightarrow> Exception" where
  "addAtEndIRs irs e = (if ex_atEnd e then e\<lparr>ex_irsAtEnd := ex_irsAtEnd e @ rev irs\<rparr> else e)"

datatype parse_result = Parsed "item list" I | Failed Exception

type_synonym 's run = "(I, parse_result \<times> 's) outcome"
type_synonym 's parse_fun = "parser \<Rightarrow> I \<Rightarrow> 's \<Rightarrow> 's run"

definition result_context :: "parser \<Rightarrow> I \<Rightarrow> parse_result \<Rightarrow> parse_result" where
  "result_context p i r = (case r of Parsed irs e \<Rightarrow> Parsed irs e | Failed x \<Rightarrow> Failed (addContext p i x))"

definition atEnd_context :: "bool \<Rightarrow> item list \<Rightarrow> Exception \<Rightarrow> Exception" where
  "atEnd_context irsAtEnd irs e = (if irsAtEnd then addAtEndIRs irs e else e)"

section \<open>Sums, products and repetition\<close>

definition Optional_parse :: "'s parse_fun \<Rightarrow> parser \<Rightarrow> I \<Rightarrow> 's \<Rightarrow> 's run" where
  "Optional_parse P x i s =
     obind (P x i s) (\<lambda>(r, s).
       case r of Parsed irs e \<Rightarrow> Ret (Parsed irs e, s) | Failed _ \<Rightarrow> Ret (Parsed [] i, s))"

fun zeroOrMore_loop :: "nat \<Rightarrow> 's parse_fun \<Rightarrow> parser \<Rightarrow> item list \<Rightarrow> I \<Rightarrow> 's \<Rightarrow> 's run" where
  "zeroOrMore_loop 0 P x irs i s = Diverge"
| "zeroOrMore_loop (Suc n) P x irs i s =
     obind (P x i s) (\<lambda>(r, s).
       case r of Parsed xs e \<Rightarrow> zeroOrMore_loop n P x (irs @ xs) e s
       | Failed _ \<Rightarrow> Ret (Parsed irs i, s))"

fun and_loop :: "bool \<Rightarrow> 's parse_fun \<Rightarrow> parser list \<Rightarrow> item list \<Rightarrow> I \<Rightarrow> 's \<Rightarrow> 's run" where
  "and_loop ae P [] irs i s = Ret (Parsed irs i, s)"
| "and_loop ae P (p # ps) irs i s =
     obind (P p i s) (\<lambda>(r, s).
       case r of Parsed xs e \<Rightarrow> and_loop ae P ps (irs @ xs) e s
       | Failed x \<Rightarrow> Ret (Failed (atEnd_context ae irs x), s))"

fun ParseAnd_parse :: "bool \<Rightarrow> 's parse_fun \<Rightarrow> parser list \<Rightarrow> I \<Rightarrow> 's \<Rightarrow> 's run" where
  "ParseAnd_parse ae P [] i s = Undef"
| "ParseAnd_parse ae P (p # ps) i s =
     obind (P p i s) (\<lambda>(r, s).
       case r of Parsed xs e \<Rightarrow> and_loop ae P ps xs e s | Failed x \<Rightarrow> Ret (Failed x, s))"

text \<open>The failures are kept in a multimap by position: the last one is the failure that got furthest,
  and among those the one of the last alternative.\<close>

fun furthest :: "Exception list \<Rightarrow> Exception option" where
  "furthest [] = None"
| "furthest (e # es) =
     (case furthest es of None \<Rightarrow> Some e
      | Some b \<Rightarrow> if i_x (ex_at b) < i_x (ex_at e) then Some e else Some b)"

fun or_loop :: "'s parse_fun \<Rightarrow> parser list \<Rightarrow> Exception list \<Rightarrow> I \<Rightarrow> 's \<Rightarrow> 's run" where
  "or_loop P [] failures i s =
     (case furthest failures of None \<Rightarrow> Undef | Some e \<Rightarrow> Ret (Failed e, s))"
| "or_loop P (p # ps) failures i s =
     obind (P p i s) (\<lambda>(r, s).
       case r of Parsed irs e \<Rightarrow> Ret (Parsed irs e, s)
       | Failed x \<Rightarrow> or_loop P ps (failures @ [x]) i s)"

definition ParseNot_parse :: "'s parse_fun \<Rightarrow> parser \<Rightarrow> I \<Rightarrow> 's \<Rightarrow> 's run" where
  "ParseNot_parse P x i s =
     obind (P x i s) (\<lambda>(r, s).
       case r of Failed _ \<Rightarrow> Ret (Parsed [] i, s)
       | Parsed _ _ \<Rightarrow> Ret (Failed (mk_Exception expected_parse_failure i False), s))"

fun list_loop :: "nat \<Rightarrow> bool \<Rightarrow> 's parse_fun \<Rightarrow> parser \<Rightarrow> parser \<Rightarrow> item list \<Rightarrow> I \<Rightarrow> 's \<Rightarrow> 's run" where
  "list_loop 0 ae P x m irs i s = Diverge"
| "list_loop (Suc n) ae P x m irs i s =
     obind (P x i s) (\<lambda>(r, s).
       case r of Failed e \<Rightarrow> Ret (Failed (atEnd_context ae irs e), s)
       | Parsed xs i \<Rightarrow>
           obind (P m i s) (\<lambda>(r, s).
             case r of Failed _ \<Rightarrow> Ret (Parsed (irs @ xs) i, s)
             | Parsed ms i \<Rightarrow> list_loop n ae P x m (irs @ xs @ ms) i s))"

text \<open>\<^verbatim>\<open>NToM\<close>: \<open>k\<close> is the number of further occurrences allowed, \<open>got\<close> of those found.\<close>

fun ntom_loop :: "nat \<Rightarrow> 's parse_fun \<Rightarrow> nat \<Rightarrow> nat \<Rightarrow> parser \<Rightarrow> item list \<Rightarrow> I \<Rightarrow> 's \<Rightarrow> 's run" where
  "ntom_loop 0 P n got x irs i s = Ret (Parsed irs i, s)"
| "ntom_loop (Suc k) P n got x irs i s =
     obind (P x i s) (\<lambda>(r, s).
       case r of Parsed xs e \<Rightarrow> ntom_loop k P n (got + 1) x (irs @ xs) e s
       | Failed e \<Rightarrow>
           if got \<ge> n then Ret (Parsed irs i, s)
           else Ret (Failed (mk_Exception (TooFew got) (ex_at e) False), s))"

section \<open>Characters and literals\<close>

definition one_char :: "string \<Rightarrow> (char \<Rightarrow> cause option) \<Rightarrow> I \<Rightarrow> 's \<Rightarrow> 's run" where
  "one_char txt reject i s =
     (if I_atEnd txt i then Ret (Failed (EndOfInput i), s)
      else obind (I_deref txt i) (\<lambda>c.
        case reject c of Some k \<Rightarrow> Ret (Failed (mk_Exception k i False), s)
        | None \<Rightarrow> obind (I_incr txt i) (\<lambda>e. Ret (Parsed [leaf i e] e, s))))"

definition ParseAnyChar_parse :: "string \<Rightarrow> I \<Rightarrow> 's \<Rightarrow> 's run" where
  "ParseAnyChar_parse txt i s = one_char txt (\<lambda>c. None) i s"

definition ParseOneOfChars_parse :: "string \<Rightarrow> string \<Rightarrow> I \<Rightarrow> 's \<Rightarrow> 's run" where
  "ParseOneOfChars_parse txt cs i s =
     one_char txt (\<lambda>c. if c \<notin> set cs then Some (OneOfChars_UnexpectedChar i cs) else None) i s"

definition ParseOneOfChars2_parse :: "string \<Rightarrow> Chars \<Rightarrow> I \<Rightarrow> 's \<Rightarrow> 's run" where
  "ParseOneOfChars2_parse txt cs i s =
     one_char txt (\<lambda>c. if \<not> Chars_test cs c then Some (OneOfChars2_UnexpectedChar i cs) else None) i s"

definition ParseAnyCharExcept_parse :: "string \<Rightarrow> string \<Rightarrow> I \<Rightarrow> 's \<Rightarrow> 's run" where
  "ParseAnyCharExcept_parse txt cs i s =
     one_char txt (\<lambda>c. if c \<in> set cs then Some (AnyCharExcept_UnexpectedChar i cs) else None) i s"

definition ParseCharInRange_parse :: "string \<Rightarrow> char \<Rightarrow> char \<Rightarrow> I \<Rightarrow> 's \<Rightarrow> 's run" where
  "ParseCharInRange_parse txt a b i s =
     one_char txt
       (\<lambda>c. if signed_char c < signed_char a \<or> signed_char c > signed_char b
            then Some (CharNotInRange i a b) else None) i s"

text \<open>\<^verbatim>\<open>std::mismatch\<close> of a literal and the text: the position reached, and the two characters that
  differ there, if any do.\<close>

fun mismatch_loop :: "string \<Rightarrow> string \<Rightarrow> I \<Rightarrow> (I, I \<times> (char \<times> char) option) outcome" where
  "mismatch_loop txt [] i = Ret (i, None)"
| "mismatch_loop txt (w # ws) i =
     obind (I_deref txt i) (\<lambda>c.
       if w = c then obind (I_incr txt i) (mismatch_loop txt ws) else Ret (i, Some (c, w)))"

text \<open>\<^verbatim>\<open>catch(I::EndOfInput const& e)\<close> around a computation that leaves the cache alone.\<close>

definition catch_end :: "'s \<Rightarrow> (I, 'a) outcome \<Rightarrow> ('a \<Rightarrow> 's run) \<Rightarrow> 's run" where
  "catch_end s m f =
     (case m of Throw i \<Rightarrow> Ret (Failed (EndOfInput i), s) | Ret a \<Rightarrow> f a
      | Abort \<Rightarrow> Abort | Undef \<Rightarrow> Undef | Diverge \<Rightarrow> Diverge)"

definition ParseLiteral_parse :: "string \<Rightarrow> string \<Rightarrow> I \<Rightarrow> 's \<Rightarrow> 's run" where
  "ParseLiteral_parse txt w i s =
     catch_end s (mismatch_loop txt w i) (\<lambda>(e, d).
       case d of Some (got, wanted) \<Rightarrow> Ret (Failed (mk_Exception (Mismatch got wanted) e False), s)
       | None \<Rightarrow> Ret (Parsed [leaf i e] e, s))"

definition isIdentifierChar :: "char \<Rightarrow> bool" where
  "isIdentifierChar c \<longleftrightarrow>
     signed_char CHR ''a'' \<le> signed_char c \<and> signed_char c \<le> signed_char CHR ''z'' \<or>
     signed_char CHR ''A'' \<le> signed_char c \<and> signed_char c \<le> signed_char CHR ''Z'' \<or>
     c = CHR ''_''"

definition isIdentifierContChar :: "char \<Rightarrow> bool" where
  "isIdentifierContChar c \<longleftrightarrow>
     isIdentifierChar c \<or>
     signed_char CHR ''0'' \<le> signed_char c \<and> signed_char c \<le> signed_char CHR ''9''"

fun identifier_loop :: "nat \<Rightarrow> string \<Rightarrow> I \<Rightarrow> (I, I) outcome" where
  "identifier_loop 0 txt i = Diverge"
| "identifier_loop (Suc n) txt i =
     (if I_atEnd txt i then Ret i
      else obind (I_deref txt i) (\<lambda>c.
        if isIdentifierContChar c then obind (I_incr txt i) (identifier_loop n txt) else Ret i))"

definition ParseIdentifier_parse :: "nat \<Rightarrow> string \<Rightarrow> I \<Rightarrow> 's \<Rightarrow> 's run" where
  "ParseIdentifier_parse n txt i s =
     (if I_atEnd txt i then Ret (Failed (EndOfInput i), s)
      else obind (I_deref txt i) (\<lambda>c.
        if \<not> isIdentifierChar c then Ret (Failed (mk_Exception (NotIdentifierChar c) i False), s)
        else obind (I_incr txt i) (\<lambda>j.
          obind (identifier_loop n txt j) (\<lambda>e. Ret (Parsed [leaf i e] e, s)))))"

definition ParseHash_parse :: "string \<Rightarrow> I \<Rightarrow> 's \<Rightarrow> 's run" where
  "ParseHash_parse txt i s =
     (if I_atEnd txt i then Ret (Failed (EndOfInput i), s)
      else if i_column i \<noteq> 1 then Ret (Failed (mk_Exception not_at_column_1 i False), s)
      else obind (I_deref txt i) (\<lambda>c.
        if c \<noteq> CHR ''#'' then Ret (Failed (mk_Exception (NotHash c) i False), s)
        else obind (I_incr txt i) (\<lambda>e. Ret (Parsed [leaf i e] e, s))))"

definition ParseEndOfFile_parse :: "string \<Rightarrow> I \<Rightarrow> 's \<Rightarrow> 's run" where
  "ParseEndOfFile_parse txt i s =
     (if \<not> I_atEnd txt i
      then obind (I_deref txt i) (\<lambda>c. Ret (Failed (mk_Exception (NotEndOfInput c) i False), s))
      else Ret (Parsed [composite EndOfFile [leaf i i]] i, s))"

section \<open>Parsing up to something\<close>

fun until_loop :: "nat \<Rightarrow> string \<Rightarrow> 's parse_fun \<Rightarrow> parser \<Rightarrow> I \<Rightarrow> I \<Rightarrow> 's \<Rightarrow> 's run" where
  "until_loop 0 txt V x i e s = Diverge"
| "until_loop (Suc n) txt V x i e s =
     obind (V x e s) (\<lambda>(r, s).
       case r of Parsed _ _ \<Rightarrow> Ret (Parsed [leaf i e] e, s)
       | Failed _ \<Rightarrow>
           if I_atEnd txt e then Ret (Failed (EndOfInput e), s)
           else obind (I_incr txt e) (\<lambda>e. until_loop n txt V x i e s))"

fun specific_until_loop ::
  "nat \<Rightarrow> bool \<Rightarrow> 's parse_fun \<Rightarrow> parser \<Rightarrow> parser \<Rightarrow> item list \<Rightarrow> I \<Rightarrow> 's \<Rightarrow> 's run" where
  "specific_until_loop 0 ae V m x irs i s = Diverge"
| "specific_until_loop (Suc n) ae V m x irs i s =
     obind (V x i s) (\<lambda>(r, s).
       case r of Parsed _ _ \<Rightarrow> Ret (Parsed irs i, s)
       | Failed _ \<Rightarrow>
           obind (V m i s) (\<lambda>(r, s).
             case r of Failed e \<Rightarrow> Ret (Failed (atEnd_context ae irs e), s)
             | Parsed xs e \<Rightarrow> specific_until_loop n ae V m x (irs @ xs) e s))"

section \<open>Raw string literals\<close>

definition raw_prefix_r :: parser where
  "raw_prefix_r = parseLiteral [CHR ''R'', CHR 0x22]"

definition raw_prefix :: parser where
  "raw_prefix =
     alt [parser_plus (parseLiteral ''u8'') raw_prefix_r,
          parser_plus (parseOneOfChars ''LuU'') raw_prefix_r,
          raw_prefix_r]"

text \<open>The delimiter: at most \<open>k\<close> characters up to the opening bracket.\<close>

fun delimiter_loop :: "nat \<Rightarrow> string \<Rightarrow> I \<Rightarrow> (I, I \<times> cause option) outcome" where
  "delimiter_loop 0 txt i = Ret (i, None)"
| "delimiter_loop (Suc k) txt i =
     obind (I_deref txt i) (\<lambda>c.
       if c = CHR ''('' then Ret (i, None)
       else if isspace c \<or> c = CHR 0x5C \<or> c = CHR '')'' then Ret (i, Some (InvalidDelimeterChar i))
       else obind (I_incr txt i) (delimiter_loop k txt))"

definition raw_delimiter :: "string \<Rightarrow> I \<Rightarrow> (I, I \<times> cause option) outcome" where
  "raw_delimiter txt i =
     obind (delimiter_loop 16 txt i) (\<lambda>(j, bad).
       case bad of Some k \<Rightarrow> Ret (j, bad)
       | None \<Rightarrow>
           obind (I_deref txt j) (\<lambda>c.
             Ret (j, if c \<noteq> CHR ''('' then Some TooManyDelimeterChars else None)))"

definition raw_end :: "string \<Rightarrow> I \<Rightarrow> I \<Rightarrow> string" where
  "raw_end txt b j = '')'' @ slice txt b j @ [CHR 0x22]"

text \<open>The result of the last \<^verbatim>\<open>l->parse\<close> is used without looking whether it failed: \<^verbatim>\<open>Optional\<close>
  asserts that there is a value.\<close>

definition ParseRawStringLiteral_parse :: "string \<Rightarrow> 's parse_fun \<Rightarrow> I \<Rightarrow> 's \<Rightarrow> 's run" where
  "ParseRawStringLiteral_parse txt P i s =
     obind (P raw_prefix i s) (\<lambda>(r, s).
       case r of Failed x \<Rightarrow> Ret (Failed x, s)
       | Parsed _ b \<Rightarrow>
           catch_end s (raw_delimiter txt b) (\<lambda>(j, bad).
             case bad of Some k \<Rightarrow> Ret (Failed (mk_Exception k j False), s)
             | None \<Rightarrow>
                 let l = parseLiteral (raw_end txt b j)
                 in obind (P (ParseUntil l) j s) (\<lambda>(rr, s).
                      case rr of
                        Failed x \<Rightarrow>
                          Ret (Failed (mk_Exception (EndDelimeterNotFound (raw_end txt b j)) (ex_at x)
                            False), s)
                      | Parsed _ e \<Rightarrow>
                          obind (P l e s) (\<lambda>(rrr, s).
                            case rrr of Failed _ \<Rightarrow> Abort
                            | Parsed _ e' \<Rightarrow> Ret (Parsed [leaf i e'] e', s)))))"

section \<open>Balanced text\<close>

fun lookingAt :: "string \<Rightarrow> I \<Rightarrow> string \<Rightarrow> bool" where
  "lookingAt txt i [] = True"
| "lookingAt txt i (c # cs) =
     (\<not> I_atEnd txt i \<and> txt ! i_x i = c \<and> lookingAt txt (I_step txt i) cs)"

definition looking_at_raw :: "string \<Rightarrow> I \<Rightarrow> bool" where
  "looking_at_raw txt e \<longleftrightarrow>
     (\<exists>w \<in> set [''u8R'', ''uR'', ''UR'', ''LR'', ''R'']. lookingAt txt e (w @ [CHR 0x22]))"

definition char_literal :: parser where
  "char_literal = seq [parseOneOfChars [CHR 0x27], c_char, parseOneOfChars [CHR 0x27]]"

text \<open>One turn of the loop: a failure that ends it, or the position after what is skipped.\<close>

type_synonym 's skip = "(I, (Exception + I) \<times> 's) outcome"

definition skip_parsed :: "'s parse_fun \<Rightarrow> parser \<Rightarrow> I \<Rightarrow> 's \<Rightarrow> 's skip" where
  "skip_parsed V p e s =
     obind (V p e s) (\<lambda>(r, s). case r of Failed x \<Rightarrow> Ret (Inl x, s) | Parsed _ e \<Rightarrow> Ret (Inr e, s))"

definition skip_nested :: "string \<Rightarrow> 's parse_fun \<Rightarrow> string \<Rightarrow> bool \<Rightarrow> I \<Rightarrow> 's \<Rightarrow> 's skip" where
  "skip_nested txt V close angles e s =
     obind (I_incr txt e) (\<lambda>e.
       obind (V (balanced (parseOneOfChars close) angles) e s) (\<lambda>(r, s).
         case r of Failed x \<Rightarrow> Ret (Inl x, s)
         | Parsed _ e \<Rightarrow> obind (I_incr txt e) (\<lambda>e. Ret (Inr e, s))))"

definition skip_char :: "string \<Rightarrow> I \<Rightarrow> 's \<Rightarrow> 's skip" where
  "skip_char txt e s = obind (I_incr txt e) (\<lambda>e. Ret (Inr e, s))"

definition skip_comment :: "string \<Rightarrow> 's parse_fun \<Rightarrow> I \<Rightarrow> 's \<Rightarrow> 's skip" where
  "skip_comment txt V e s =
     obind (V comments e s) (\<lambda>(r, s).
       case r of Parsed _ e' \<Rightarrow> Ret (Inr e', s) | Failed _ \<Rightarrow> skip_char txt e s)"

definition balanced_step :: "string \<Rightarrow> 's parse_fun \<Rightarrow> bool \<Rightarrow> I \<Rightarrow> 's \<Rightarrow> 's skip" where
  "balanced_step txt V angles e s =
     (if looking_at_raw txt e then skip_parsed V rawStringLiteral e s
      else obind (I_deref txt e) (\<lambda>c.
        if c = CHR 0x27 then skip_parsed V char_literal e s
        else if c = CHR 0x22 then skip_parsed V stringLiteral e s
        else if c = CHR ''{'' then skip_nested txt V ''}'' angles e s
        else if c = CHR ''<'' \<and> angles then skip_nested txt V ''>'' angles e s
        else if c = CHR ''['' then skip_nested txt V '']'' angles e s
        else if c = CHR ''('' then skip_nested txt V '')'' angles e s
        else if c = CHR ''/'' then skip_comment txt V e s
        else skip_char txt e s))"

fun balanced_loop :: "nat \<Rightarrow> string \<Rightarrow> 's parse_fun \<Rightarrow> parser \<Rightarrow> bool \<Rightarrow> I \<Rightarrow> I \<Rightarrow> 's \<Rightarrow> 's run" where
  "balanced_loop 0 txt V u angles i e s = Diverge"
| "balanced_loop (Suc n) txt V u angles i e s =
     obind (V u e s) (\<lambda>(r, s).
       case r of Parsed _ _ \<Rightarrow> Ret (Parsed [leaf i e] e, s)
       | Failed _ \<Rightarrow>
           if I_atEnd txt e then Ret (Failed (EndOfInput e), s)
           else obind (balanced_step txt V angles e s) (\<lambda>(k, s).
             case k of Inl x \<Rightarrow> Ret (Failed x, s)
             | Inr e \<Rightarrow> balanced_loop n txt V u angles i e s))"

section \<open>Named parsers\<close>

text \<open>The constructors of the item types: \<^verbatim>\<open>ClassDef\<close>, \<^verbatim>\<open>TemplateClassDef\<close> and \<^verbatim>\<open>NamespaceDef\<close>
  look for their name among the children and assert that there is one.\<close>

definition name_tag :: "item_type \<Rightarrow> item_type option" where
  "name_tag t =
     (if t = ClassDef \<or> t = TemplateClassDef then Some ClassName
      else if t = NamespaceDef then Some NamespaceName else None)"

definition construct :: "item_type \<Rightarrow> item list \<Rightarrow> (I, item) outcome" where
  "construct t irs =
     (case name_tag t of None \<Rightarrow> Ret (composite t irs)
      | Some n \<Rightarrow> obind (oassert (list_ex (isA n) irs)) (\<lambda>_. Ret (composite t irs)))"

definition NamedParser_parse :: "'s parse_fun \<Rightarrow> item_type \<Rightarrow> parser \<Rightarrow> I \<Rightarrow> 's \<Rightarrow> 's run" where
  "NamedParser_parse P t x i s =
     obind (P x i s) (\<lambda>(r, s).
       case r of Failed e \<Rightarrow> Ret (Failed e, s)
       | Parsed irs e \<Rightarrow>
           obind (construct t (if irs = [] then [leaf i i] else irs)) (\<lambda>item. Ret (Parsed [item] e, s)))"

section \<open>The parser\<close>

definition parse_body ::
  "nat \<Rightarrow> bool \<Rightarrow> string \<Rightarrow> 's parse_fun \<Rightarrow> 's parse_fun \<Rightarrow> parser \<Rightarrow> I \<Rightarrow> 's \<Rightarrow> 's run" where
  "parse_body n ae txt P V p i s =
     (case p of
        Static k \<Rightarrow> V (static_object k) i s
      | Optional x \<Rightarrow> Optional_parse P x i s
      | ParseZeroOrMore x \<Rightarrow> zeroOrMore_loop n P x [] i s
      | ParseAnd ps \<Rightarrow> ParseAnd_parse ae P ps i s
      | ParseOr ps \<Rightarrow> or_loop P ps [] i s
      | ParseNot x \<Rightarrow> ParseNot_parse P x i s
      | ParseAnyChar \<Rightarrow> ParseAnyChar_parse txt i s
      | ParseOneOfChars cs \<Rightarrow> ParseOneOfChars_parse txt cs i s
      | ParseOneOfChars2 cs \<Rightarrow> ParseOneOfChars2_parse txt cs i s
      | ParseAnyCharExcept cs \<Rightarrow> ParseAnyCharExcept_parse txt cs i s
      | ParseCharInRange a b \<Rightarrow> ParseCharInRange_parse txt a b i s
      | ParseUntil x \<Rightarrow> until_loop n txt V x i i s
      | ParseSpecificUntil m x \<Rightarrow> specific_until_loop n ae V m x [] i s
      | ParseLiteral w \<Rightarrow> ParseLiteral_parse txt w i s
      | ParseIdentifier \<Rightarrow> ParseIdentifier_parse n txt i s
      | ParseHash \<Rightarrow> ParseHash_parse txt i s
      | ParseRawStringLiteral \<Rightarrow> ParseRawStringLiteral_parse txt P i s
      | ParseBalanced u a \<Rightarrow> balanced_loop n txt V u a i i s
      | AnonParser name x \<Rightarrow> P x i s
      | NamedParser t name x \<Rightarrow> NamedParser_parse P t x i s
      | NonEmptyListOf x m \<Rightarrow> list_loop n ae P x m [] i s
      | NToM l m x \<Rightarrow> ntom_loop m P l 0 x [] i s
      | VarFpBackref \<Rightarrow> V var_fp i s
      | SelfParser k \<Rightarrow> V (Static k) i s
      | ParseClass tp q \<Rightarrow> V (parser_or tp q) i s
      | ParseEndOfFile \<Rightarrow> ParseEndOfFile_parse txt i s)"

text \<open>The cache is a map.  \<^verbatim>\<open>std::map::insert\<close> keeps an entry that is there; the entry that is in
  the map afterwards is the result.\<close>

type_synonym key = "nat \<times> parser"
type_synonym cache = "key \<Rightarrow> parse_result option"

definition cache_find :: "cache \<Rightarrow> key \<Rightarrow> parse_result option" where
  "cache_find c k = c k"

definition cache_insert :: "cache \<Rightarrow> key \<Rightarrow> parse_result \<Rightarrow> parse_result \<times> cache" where
  "cache_insert c k r = (case c k of Some q \<Rightarrow> (q, c) | None \<Rightarrow> (r, c(k \<mapsto> r)))"

definition parse_memo ::
  "('s \<Rightarrow> key \<Rightarrow> parse_result option) \<Rightarrow> ('s \<Rightarrow> key \<Rightarrow> parse_result \<Rightarrow> parse_result \<times> 's) \<Rightarrow>
   's parse_fun \<Rightarrow> 's parse_fun" where
  "parse_memo look ins V p i s =
     (case look s (i_x i, p) of Some r \<Rightarrow> Ret (r, s)
      | None \<Rightarrow> obind (V p i s) (\<lambda>(r, s). Ret (ins s (i_x i, p) (result_context p i r))))"

fun parse_impl ::
  "('s \<Rightarrow> key \<Rightarrow> parse_result option) \<Rightarrow> ('s \<Rightarrow> key \<Rightarrow> parse_result \<Rightarrow> parse_result \<times> 's) \<Rightarrow>
   bool \<Rightarrow> string \<Rightarrow> nat \<Rightarrow> 's parse_fun" where
  "parse_impl look ins ae txt 0 p i s = Diverge"
| "parse_impl look ins ae txt (Suc n) p i s =
     nothrow (parse_body n ae txt (parse_memo look ins (parse_impl look ins ae txt n))
       (parse_impl look ins ae txt n) p i s)"

text \<open>\<^verbatim>\<open>Parser::parse\<close> with the cache of the code.\<close>

definition parser_parse :: "bool \<Rightarrow> string \<Rightarrow> nat \<Rightarrow> cache parse_fun" where
  "parser_parse ae txt n = parse_memo cache_find cache_insert (parse_impl cache_find cache_insert ae txt n)"

text \<open>The reference: the same parsers without a cache.\<close>

definition no_find :: "unit \<Rightarrow> key \<Rightarrow> parse_result option" where
  "no_find s k = None"

definition no_insert :: "unit \<Rightarrow> key \<Rightarrow> parse_result \<Rightarrow> parse_result \<times> unit" where
  "no_insert s k r = (r, s)"

definition plain_impl :: "bool \<Rightarrow> string \<Rightarrow> nat \<Rightarrow> unit parse_fun" where
  "plain_impl = parse_impl no_find no_insert"

definition plain_parse :: "bool \<Rightarrow> string \<Rightarrow> nat \<Rightarrow> unit parse_fun" where
  "plain_parse ae txt n = parse_memo no_find no_insert (plain_impl ae txt n)"

text \<open>\<^verbatim>\<open>hcp_parser::parse\<close> and \<^verbatim>\<open>parseString\<close>: a fresh cache, and a failure is thrown.\<close>

datatype parse_error = Parse_error Exception | Only_parsed_until I

definition hcp_parse ::
  "nat \<Rightarrow> string \<Rightarrow> I \<Rightarrow> parser \<Rightarrow> bool \<Rightarrow> (parse_error, item list \<times> I) outcome" where
  "hcp_parse n txt i p ae =
     (case parser_parse ae txt n p i Map.empty of
        Ret (Parsed irs e, c) \<Rightarrow> Ret (irs, e)
      | Ret (Failed x, c) \<Rightarrow> Throw (Parse_error x)
      | Throw _ \<Rightarrow> Abort | Abort \<Rightarrow> Abort | Undef \<Rightarrow> Undef | Diverge \<Rightarrow> Diverge)"

definition parseString :: "nat \<Rightarrow> string \<Rightarrow> parser \<Rightarrow> (parse_error, item) outcome" where
  "parseString n txt p =
     obind (hcp_parse n txt I_begin p False) (\<lambda>(irs, e).
       if \<not> I_atEnd txt e then Throw (Only_parsed_until e)
       else if irs = [] then
         Ret (leaf I_begin \<lparr>i_line = 1, i_column = 1, i_offset = 0, i_x = length txt\<rparr>)
       else Ret (composite ItemTag irs))"

text \<open>\<^verbatim>\<open>getIrsAtEnd\<close>: the items parsed up to an offset of a file, last first; when the file parses
  they are those of the whole, in order.\<close>

definition getIrsAtEnd :: "nat \<Rightarrow> string \<Rightarrow> nat \<Rightarrow> (parse_error, item list) outcome" where
  "getIrsAtEnd n hcp offset =
     (case parser_parse True (take offset hcp) n file I_begin Map.empty of
        Ret (Parsed irs e, c) \<Rightarrow> Ret irs
      | Ret (Failed x, c) \<Rightarrow>
          if \<not> ex_atEnd x then Throw (Parse_error x) else Ret (ex_irsAtEnd x)
      | Throw _ \<Rightarrow> Abort | Abort \<Rightarrow> Abort | Undef \<Rightarrow> Undef | Diverge \<Rightarrow> Diverge)"

end
