(* ===== verification/HcpQuery.thy ===== *)
theory HcpQuery
  imports HcpEngine
begin

text \<open>
  Looking things up in the abstract syntax tree: \<^verbatim>\<open>findChildrenOfType\<close>, \<^verbatim>\<open>findOnlyChildOfType\<close>, \<^verbatim>\<open>filter\<close>
  (\<^verbatim>\<open>src/hcp/ast.hh\<close>), \<^verbatim>\<open>getContextAt\<close> and the names of classes and namespaces (\<^verbatim>\<open>ast.cc\<close>), and \<^verbatim>\<open>scopeAt\<close>
  (\<^verbatim>\<open>scopeAt.hcp\<close>), the scopes that are open at the end of a partly parsed text.
\<close>

section \<open>Searching\<close>

text \<open>The search does not go below an item of the type looked for, and stops when it has found
  \<open>lim\<close>, a \<^verbatim>\<open>size_t\<close>.\<close>

function (sequential) findChildrenOfType :: "item_type \<Rightarrow> 64 word \<Rightarrow> item \<Rightarrow> item list"
and find_loop :: "item_type \<Rightarrow> 64 word \<Rightarrow> item list \<Rightarrow> item list \<Rightarrow> item list" where
  "findChildrenOfType t lim (Item tag irs b e) = find_loop t lim [] irs"
| "find_loop t lim found [] = found"
| "find_loop t lim found (ir # irs) =
     (let found' =
        (if isA t ir then found @ [ir]
         else found @ findChildrenOfType t (lim - of_nat (length found)) ir)
      in if of_nat (length found') = lim then found' else find_loop t lim found' irs)"
  by pat_completeness auto
termination
  by (relation "measure (case_sum (\<lambda>(t, lim, x). 2 * size x)
        (\<lambda>(t, lim, found, xs). Suc (2 * size_list size xs)))")
    auto

definition SIZE_MAX :: "64 word" where
  "SIZE_MAX = - 1"

abbreviation findAll :: "item_type \<Rightarrow> item \<Rightarrow> item list" where
  "findAll t \<equiv> findChildrenOfType t SIZE_MAX"

definition findOnlyChildOfType :: "item_type \<Rightarrow> item \<Rightarrow> ('e, item) outcome" where
  "findOnlyChildOfType t x =
     (let found = findChildrenOfType t 2 x
      in obind (oassert (length found = 1)) (\<lambda>_. Ret (found ! 0)))"

text \<open>The items that contain a position, outermost first.\<close>

function (sequential) getContextAt :: "I \<Rightarrow> item \<Rightarrow> item list"
and context_loop :: "I \<Rightarrow> item list \<Rightarrow> item list" where
  "getContextAt i (Item tag irs b e) = context_loop i irs"
| "context_loop i [] = []"
| "context_loop i (ir # irs) =
     (if i_x (item_begin ir) \<le> i_x i \<and> i_x i < i_x (item_end ir) \<and> items ir \<noteq> []
      then ir # getContextAt i ir @ context_loop i irs else context_loop i irs)"
  by pat_completeness auto
termination
  by (relation "measure (case_sum (\<lambda>(i, x). 2 * size x) (\<lambda>(i, xs). Suc (2 * size_list size xs)))")
    auto

section \<open>Names\<close>

definition isNewline :: "char \<Rightarrow> bool" where
  "isNewline c \<longleftrightarrow> c = CHR 0x0A \<or> c = CHR 0x0D"

definition rstrip :: "string \<Rightarrow> string" where
  "rstrip s = rev (dropWhile isspace (rev s))"

definition strip :: "string \<Rightarrow> string" where
  "strip s = rstrip (dropWhile isspace s)"

definition getClassName :: "string \<Rightarrow> item list \<Rightarrow> ('e, string) outcome" where
  "getClassName txt xs =
     (case find (isA ClassName) xs of None \<Rightarrow> Abort
      | Some n \<Rightarrow> Ret (rstrip (filter (\<lambda>c. \<not> isNewline c) (reconstruct txt n))))"

definition getIsTemplateSpecialisation :: "item list \<Rightarrow> bool" where
  "getIsTemplateSpecialisation xs = (find (isA TemplateEmptyPreamble) xs \<noteq> None)"

definition getNamespaceName :: "string \<Rightarrow> item list \<Rightarrow> ('e, string) outcome" where
  "getNamespaceName txt xs =
     (case find (isA NamespaceName) xs of None \<Rightarrow> Abort
      | Some n \<Rightarrow> Ret (filter (\<lambda>c. \<not> isspace c) (reconstruct txt n)))"

section \<open>The scope at the end of a text\<close>

text \<open>The items are those of \<^verbatim>\<open>getIrsAtEnd\<close>, the last one first: the loop goes through them backwards.
  The flag says that the end is inside a block, an initialiser or an anonymous namespace.\<close>

definition scope_name_tags :: "item_type list" where
  "scope_name_tags = [NamespaceName, ClassName, EnumName]"

definition scope_private_tags :: "item_type list" where
  "scope_private_tags =
     [AnonymousNamespaceOpen, BlockOpen, VarInitialiserOpen, Keyword KeywordTry, InitListOpen]"

fun scope_loop :: "string \<Rightarrow> string list \<Rightarrow> item list \<Rightarrow> string list \<times> bool" where
  "scope_loop txt scope [] = (scope, False)"
| "scope_loop txt scope (ir # irs) =
     (if item_tag ir \<in> set scope_name_tags then scope_loop txt (scope @ [reconstruct txt ir]) irs
      else if isA TemplatePreamble ir then (scope, False)
      else if item_tag ir \<in> set scope_private_tags then (scope, True)
      else scope_loop txt scope irs)"

definition scopeAt :: "string \<Rightarrow> item list \<Rightarrow> string list \<times> bool" where
  "scopeAt txt irs = scope_loop txt [] (rev irs)"

section \<open>What the search finds\<close>

text \<open>An item and everything below it.\<close>

inductive inside :: "item \<Rightarrow> item \<Rightarrow> bool" where
  child: "y \<in> set (items x) \<Longrightarrow> inside y x"
| deeper: "y \<in> set (items x) \<Longrightarrow> inside z y \<Longrightarrow> inside z x"

lemma below_Item: "\<exists>x \<in> set irs. y = x \<or> inside y x \<Longrightarrow> inside y (Item tag irs b e)"
  using child [of y "Item tag irs b e"] deeper [of _ "Item tag irs b e" y] by auto

lemma find_sound:
  "\<forall>y \<in> set (findChildrenOfType t lim x). isA t y \<and> inside y x"
  "\<forall>y \<in> set (find_loop t lim found xs).
     y \<in> set found \<or> isA t y \<and> (\<exists>x \<in> set xs. y = x \<or> inside y x)"
proof (induction t lim x and t lim found xs rule: findChildrenOfType_find_loop.induct)
  case (1 t lim tag irs b e)
  then show ?case by (simp add: below_Item)
next
  case (3 t lim found ir irs)
  define found' where "found' = (if isA t ir then found @ [ir]
    else found @ findChildrenOfType t (lim - of_nat (length found)) ir)"
  have "\<forall>y \<in> set found'. y \<in> set found \<or> isA t y \<and> (y = ir \<or> inside y ir)"
    using "3.IH"(1) unfolding found'_def by (cases "isA t ir") auto
  moreover have "\<forall>y \<in> set (find_loop t lim found (ir # irs)).
      y \<in> set found' \<or> isA t y \<and> (\<exists>x \<in> set irs. y = x \<or> inside y x)"
    using "3.IH"(2) [OF found'_def] unfolding found'_def [symmetric] find_loop.simps Let_def
    by (simp split: if_split)
  ultimately show ?case by (simp only: list.set bex_simps) blast
qed simp_all

text \<open>The reference: every item of the type that is not below another one, in the order of the text.  For
  a limit that is not 0 the search returns the first \<open>lim\<close> of these.\<close>

fun found_all :: "item_type \<Rightarrow> item \<Rightarrow> item list"
and found_in :: "item_type \<Rightarrow> item list \<Rightarrow> item list" where
  "found_all t (Item tag irs b e) = found_in t irs"
| "found_in t [] = []"
| "found_in t (x # xs) = (if isA t x then [x] else found_all t x) @ found_in t xs"

lemma limit_reached:
  "length xs \<le> unat lim \<Longrightarrow> of_nat (length xs) = lim \<longleftrightarrow> length xs = unat lim" for lim :: "64 word"
  using unsigned_less [of lim, where 'a = nat] by (auto simp: word_unat_eq_iff unat_of_nat)

lemma limit_left:
  fixes lim :: "64 word"
  assumes "length xs < unat lim"
  shows "unat (lim - of_nat (length xs)) = unat lim - length xs" "lim - of_nat (length xs) \<noteq> 0"
proof -
  have "unat (of_nat (length xs) :: 64 word) = length xs"
    using order_less_trans [OF assms unsigned_less [of lim]] by (simp add: unat_of_nat)
  then show 1: "unat (lim - of_nat (length xs)) = unat lim - length xs"
    using assms by (simp add: unat_sub_if')
  then show "lim - of_nat (length xs) \<noteq> 0" using assms by (auto simp: unat_eq_zero [symmetric])
qed

lemma find_take:
  "lim \<noteq> 0 \<Longrightarrow> findChildrenOfType t lim x = take (unat lim) (found_all t x)"
  "length found < unat lim \<Longrightarrow> find_loop t lim found xs = take (unat lim) (found @ found_in t xs)"
proof (induction t lim x and t lim found xs rule: findChildrenOfType_find_loop.induct)
  case (1 t lim tag irs b e)
  then show ?case by (simp add: unat_gt_0)
next
  case (2 t lim found)
  then show ?case by simp
next
  case (3 t lim found ir irs)
  define new where "new = (if isA t ir then [ir] else found_all t ir)"
  define found' where "found' = (if isA t ir then found @ [ir]
    else found @ findChildrenOfType t (lim - of_nat (length found)) ir)"
  have found': "found' = take (unat lim) (found @ new)"
  proof (cases "isA t ir")
    case False
    then have "findChildrenOfType t (lim - of_nat (length found)) ir = take (unat lim - length found) new"
      using "3.IH"(1) limit_left [OF "3.prems"] by (simp add: new_def)
    then show ?thesis using False "3.prems" by (simp add: found'_def)
  qed (use "3.prems" in \<open>simp add: found'_def new_def\<close>)
  have step: "find_loop t lim found (ir # irs) =
      (if of_nat (length found') = lim then found' else find_loop t lim found' irs)"
    unfolding found'_def find_loop.simps Let_def ..
  have all: "found @ found_in t (ir # irs) = (found @ new) @ found_in t irs" by (simp add: new_def)
  have le: "length found' \<le> unat lim" by (simp add: found')
  show ?case
  proof (cases "length found' = unat lim")
    case True
    then show ?thesis using limit_reached [OF le] by (simp only: step all) (simp add: found')
  next
    case False
    then have less: "length found' < unat lim" using le by simp
    then have same: "found' = found @ new" by (simp add: found')
    show ?thesis using "3.IH"(2) [OF found'_def] less limit_reached [OF le]
      unfolding step all same by simp
  qed
qed

definition surrounds :: "I \<Rightarrow> item \<Rightarrow> bool" where
  "surrounds i x \<longleftrightarrow> i_x (item_begin x) \<le> i_x i \<and> i_x i < i_x (item_end x) \<and> items x \<noteq> []"

lemma context_sound:
  "\<forall>y \<in> set (getContextAt i x). inside y x \<and> surrounds i y"
  "\<forall>y \<in> set (context_loop i xs). (\<exists>x \<in> set xs. y = x \<or> inside y x) \<and> surrounds i y"
proof (induction i x and i xs rule: getContextAt_context_loop.induct)
  case (1 i tag irs b e)
  then show ?case by (simp add: below_Item)
next
  case (3 i ir irs)
  have step: "context_loop i (ir # irs) =
      (if surrounds i ir then ir # getContextAt i ir @ context_loop i irs else context_loop i irs)"
    by (simp add: surrounds_def)
  show ?case
  proof (cases "surrounds i ir")
    case True
    then have "\<forall>y \<in> set (getContextAt i ir). inside y ir \<and> surrounds i y"
      "\<forall>y \<in> set (context_loop i irs). (\<exists>x \<in> set irs. y = x \<or> inside y x) \<and> surrounds i y"
      using "3.IH" by (simp_all add: surrounds_def)
    with True show ?thesis unfolding step by auto
  next
    case False
    then have "\<forall>y \<in> set (context_loop i irs). (\<exists>x \<in> set irs. y = x \<or> inside y x) \<and> surrounds i y"
      using "3.IH"(3) unfolding surrounds_def by blast
    with False show ?thesis unfolding step by auto
  qed
qed simp

end
