(* ===== verification/HcpSplit.thy ===== *)
theory HcpSplit
  imports HcpQuery
begin

text \<open>
  \<^verbatim>\<open>src/hcp/hcp-split.cc\<close>: a C++ file written as a whole is split into a header and an implementation
  file.  Every \<^verbatim>\<open>gen\<close> function copies parts of the source to the two output streams and adds a little
  text of its own; the streams keep a map from offsets of the output to offsets of the source, which
  \<^verbatim>\<open>writeOffsetMap\<close> writes out for \<^verbatim>\<open>hcp-map-to-source\<close>.

  \<open>txt\<close> is the source.  A failed assertion is \<open>Abort\<close>; a string made of a reversed range is \<open>Undef\<close>.
\<close>

section \<open>Output streams\<close>

text \<open>The map is a list of pairs in ascending order of the output offset.\<close>

type_synonym offset_map = "(nat \<times> nat) list"

record OStream =
  os_text :: string
  os_offset :: nat
  os_map :: offset_map

definition OStream_new :: OStream where
  "OStream_new = \<lparr>os_text = [], os_offset = 0, os_map = []\<rparr>"

text \<open>\<^verbatim>\<open>std::map::insert\<close> keeps an entry that is there; \<^verbatim>\<open>upper_bound\<close> and \<^verbatim>\<open>--i\<close> find the last entry that
  is not beyond an offset.\<close>

definition offset_insert :: "nat \<Rightarrow> nat \<Rightarrow> offset_map \<Rightarrow> offset_map" where
  "offset_insert k v m = (if k \<in> fst ` set m then m else insort_key fst (k, v) m)"

definition map_offset :: "offset_map \<Rightarrow> nat \<Rightarrow> nat" where
  "map_offset m k =
     (let earlier = takeWhile (\<lambda>e. fst e \<le> k) m
      in if earlier = [] then k else k - fst (last earlier) + snd (last earlier))"

definition mappedOffset :: "OStream \<Rightarrow> nat" where
  "mappedOffset os = map_offset (os_map os) (os_offset os)"

definition put_text :: "string \<Rightarrow> OStream \<Rightarrow> OStream" where
  "put_text s os = os\<lparr>os_text := os_text os @ s, os_offset := os_offset os + length s\<rparr>"

definition map_here :: "I \<Rightarrow> OStream \<Rightarrow> OStream" where
  "map_here b os =
     (if mappedOffset os \<noteq> i_offset b
      then os\<lparr>os_map := offset_insert (os_offset os) (i_offset b) (os_map os)\<rparr> else os)"

definition copy_source :: "string \<Rightarrow> I \<Rightarrow> I \<Rightarrow> OStream \<Rightarrow> ('e, OStream) outcome" where
  "copy_source txt b e os =
     (let os' = map_here b os
      in obind (oassert (mappedOffset os' = i_offset b)) (\<lambda>_.
           if i_x e < i_x b then Undef else Ret (put_text (slice txt b e) os')))"

fun copy_items :: "string \<Rightarrow> item list \<Rightarrow> OStream \<Rightarrow> ('e, OStream) outcome" where
  "copy_items txt [] os = Ret os"
| "copy_items txt (x # xs) os =
     obind (copy_source txt (item_begin x) (item_end x) os) (copy_items txt xs)"

function (sequential) copyExcluding ::
  "string \<Rightarrow> item_type list \<Rightarrow> item list \<Rightarrow> OStream \<Rightarrow> ('e, OStream) outcome" where
  "copyExcluding txt ts [] os = Ret os"
| "copyExcluding txt ts (x # xs) os =
     obind
       (if item_tag x \<in> set ts then Ret os
        else if items x \<noteq> [] then copyExcluding txt ts (items x) os
        else copy_source txt (item_begin x) (item_end x) os)
       (copyExcluding txt ts xs)"
  by pat_completeness auto

lemma size_items: "size_list size (items x) < size x"
  by (cases x) simp

lemma size_items_measure:
  "Suc (2 * size_list size (items x)) < 2 * size x"
  "2 * size_list size (items x) < Suc (Suc (2 * size x + n))"
  using size_items [of x] by simp_all

termination copyExcluding
  by (relation "measure (\<lambda>(txt, ts, xs, os). size_list size xs)")
    (auto intro: less_le_trans [OF size_items])

text \<open>Both streams: the header and the implementation.\<close>

type_synonym streams = "OStream \<times> OStream"
type_synonym 'e gen = "streams \<Rightarrow> ('e, streams) outcome"

definition to_h :: "(OStream \<Rightarrow> ('e, OStream) outcome) \<Rightarrow> 'e gen" where
  "to_h f s = obind (f (fst s)) (\<lambda>h. Ret (h, snd s))"

definition to_c :: "(OStream \<Rightarrow> ('e, OStream) outcome) \<Rightarrow> 'e gen" where
  "to_c f s = obind (f (snd s)) (\<lambda>c. Ret (fst s, c))"

fun gen_all :: "'e gen list \<Rightarrow> 'e gen" where
  "gen_all [] s = Ret s"
| "gen_all (f # fs) s = obind (f s) (gen_all fs)"

definition put_all :: "string list \<Rightarrow> OStream \<Rightarrow> ('e, OStream) outcome" where
  "put_all ss os = Ret (put_text (concat ss) os)"

definition nl :: string where
  "nl = [CHR 0x0A]"

definition copy_item :: "string \<Rightarrow> item \<Rightarrow> OStream \<Rightarrow> ('e, OStream) outcome" where
  "copy_item txt x = copy_source txt (item_begin x) (item_end x)"

section \<open>Functions\<close>

function (sequential) findStartOfTrailingWhitespace :: "item \<Rightarrow> I" where
  "findStartOfTrailingWhitespace x =
     (if isA WhiteSpace x then item_begin x
      else if items x \<noteq> [] then findStartOfTrailingWhitespace (last (items x))
      else item_end x)"
  by pat_completeness auto
termination
proof (relation "measure size")
  fix x :: item
  assume "items x \<noteq> []"
  then have "size (last (items x)) \<le> size_list size (items x)" by (rule size_last)
  then show "(last (items x), x) \<in> measure size" using size_items [of x] by simp
qed simp

declare findStartOfTrailingWhitespace.simps [simp del]

text \<open>\<^verbatim>\<open>std::find_if\<close>: the index found, or the length.\<close>

definition find_if :: "('a \<Rightarrow> bool) \<Rightarrow> 'a list \<Rightarrow> nat" where
  "find_if P xs = length (takeWhile (\<lambda>x. \<not> P x) xs)"

text \<open>The declaration that goes to the header, with the white space after the body.\<close>

definition gen_declaration :: "string \<Rightarrow> item \<Rightarrow> 'e gen" where
  "gen_declaration txt x s =
     (let its = items x; i = find_if (isA FunctionImpl) its
      in obind (oassert (i \<noteq> length its)) (\<lambda>_.
         obind (oassert (i \<noteq> 0)) (\<lambda>_.
         gen_all
           [to_h (copy_source txt (item_begin x) (findStartOfTrailingWhitespace (its ! (i - 1)))),
            to_h (put_all ['';'']),
            to_h (copy_source txt (findStartOfTrailingWhitespace (its ! i)) (item_end x))] s)))"

definition className :: "string \<Rightarrow> item \<Rightarrow> string" where
  "className txt x =
     (case getClassName txt (items x) :: (unit, string) outcome of Ret n \<Rightarrow> n | _ \<Rightarrow> [])"

definition scope_text :: "string \<Rightarrow> item list \<Rightarrow> string" where
  "scope_text txt scope = join (map (className txt) scope) ''::''"

definition genClassMemberFunctionDef :: "string \<Rightarrow> item \<Rightarrow> item list \<Rightarrow> 'e gen" where
  "genClassMemberFunctionDef txt x scope s =
     obind (gen_declaration txt x s) (\<lambda>s.
       let its = items x;
         k = (if isA FunctionQualifiers (its ! 0) then 1 else 0);
         j = k + find_if (isA FunctionName) (drop k its)
       in obind (oassert (j \<noteq> length its)) (\<lambda>_.
          obind (gen_all
            [to_c (copy_source txt (item_begin (its ! k)) (item_begin (its ! j))),
             to_c (put_all [scope_text txt scope, ''::''])] s) (\<lambda>s.
          let l = j + find_if (isA FunctionImpl) (drop j its)
          in obind (oassert (l \<noteq> length its)) (\<lambda>_.
             gen_all
               [to_c (copyExcluding txt [VarInitialiser, VirtSpecifierSeq] (take (l - j) (drop j its))),
                to_c (copy_source txt (item_begin (its ! l)) (item_end x)),
                to_c (put_all [nl])] s))))"

definition isLiteral :: "string \<Rightarrow> string \<Rightarrow> item \<Rightarrow> bool" where
  "isLiteral txt w x \<longleftrightarrow> w = reconstruct txt x"

definition has_qualifier :: "string \<Rightarrow> string \<Rightarrow> item \<Rightarrow> bool" where
  "has_qualifier txt w x =
     (case findAll FunctionQualifiers x of [] \<Rightarrow> False | q # qs \<Rightarrow> list_ex (isLiteral txt w) (items q))"

definition isInlineFunction :: "string \<Rightarrow> item \<Rightarrow> bool" where
  "isInlineFunction txt x = has_qualifier txt ''inline'' x"

definition isFriendFunction :: "string \<Rightarrow> item \<Rightarrow> bool" where
  "isFriendFunction txt x = has_qualifier txt ''friend'' x"

definition genFunction :: "string \<Rightarrow> item \<Rightarrow> 'e gen" where
  "genFunction txt x s =
     (if isInlineFunction txt x then to_h (copy_item txt x) s
      else obind (gen_declaration txt x s) (\<lambda>s.
        let its = items x; j = find_if (isA FunctionName) its
        in obind (oassert (j \<noteq> length its)) (\<lambda>_.
           let l = j + find_if (isA FunctionImpl) (drop j its)
           in obind (oassert (l \<noteq> length its)) (\<lambda>_.
              gen_all
                [to_c (copy_source txt (item_begin x) (item_begin (its ! j))),
                 to_c (copyExcluding txt [VarInitialiser] (take (l - j) (drop j its))),
                 to_c (copy_source txt (item_begin (its ! l)) (item_end x)),
                 to_c (put_all [nl])] s))))"

section \<open>Variables\<close>

definition genClassStaticVarDef :: "string \<Rightarrow> item \<Rightarrow> item list \<Rightarrow> 'e gen" where
  "genClassStaticVarDef txt x scope s =
     obind
       (case findAll VarInitialiser x of
          i # is \<Rightarrow> gen_all [to_h (copy_source txt (item_begin x) (item_begin i)), to_h (put_all ['';'', nl])] s
        | [] \<Rightarrow> gen_all [to_h (copy_item txt x), to_h (put_all [nl])] s)
       (\<lambda>s. obind (findOnlyChildOfType VarName x) (\<lambda>name.
          obind (oassert (items x \<noteq> [] \<and> isA (Keyword KeywordStatic) (items x ! 0))) (\<lambda>_.
          gen_all
            [to_c (copy_source txt (item_end (items x ! 0)) (item_begin name)),
             to_c (put_all [scope_text txt scope, ''::'']),
             to_c (copy_source txt (item_begin name) (item_end x)),
             to_c (put_all [nl])] s)))"

definition genGlobalVar :: "string \<Rightarrow> item \<Rightarrow> 'e gen" where
  "genGlobalVar txt x s =
     obind (findOnlyChildOfType VarInitialiser x) (\<lambda>y.
       gen_all
         [to_h (put_all [''extern '']),
          to_h (copy_source txt (item_begin x) (item_begin y)),
          to_h (put_all ['';'', nl]),
          to_c (copy_item txt x)] s)"

section \<open>Classes\<close>

text \<open>A parameter that a comparison operator of the class can have: the class by value or by const
  reference.\<close>

definition comparable_param :: "string \<Rightarrow> string \<Rightarrow> item \<Rightarrow> bool" where
  "comparable_param txt name p \<longleftrightarrow>
     findAll VarNonFp p \<noteq> [] \<and> findAll (Qual MoveQual) p = [] \<and> findAll (Qual PointerQual) p = [] \<and>
     findAll (Qual ElipsesQual) p = [] \<and> findAll ArrayDecl p = [] \<and>
     \<not> (findAll (Qual RefQual) p \<noteq> [] \<and> findAll (Qual ConstQual) p = []) \<and>
     (case findAll ScopedName p of [n] \<Rightarrow> strip name = strip (reconstruct txt n) | _ \<Rightarrow> False)"

definition isFriendOperatorLessDecl :: "string \<Rightarrow> item \<Rightarrow> string \<Rightarrow> ('e, bool) outcome" where
  "isFriendOperatorLessDecl txt x name =
     (if findAll TemplatePreamble x \<noteq> [] then Ret False
      else if \<not> isFriendFunction txt x then Ret False
      else case findAll ReturnType x of [] \<Rightarrow> Ret False
      | r # _ \<Rightarrow>
        if strip (reconstruct txt r) \<noteq> ''bool'' then Ret False
        else if findAll FunctionName x = [] then Undef
        else case findAll OperatorName x of [] \<Rightarrow> Ret False
        | n # _ \<Rightarrow>
          if reconstruct txt n \<noteq> ''<'' then Ret False
          else
            let ps = findAll Param x
            in Ret (length ps = 2 \<and> length (filter (comparable_param txt name) ps) = 2))"

definition getClassMemberVarNames :: "string \<Rightarrow> item \<Rightarrow> ('e, string list) outcome" where
  "getClassMemberVarNames txt x =
     omap (\<lambda>v. obind (findOnlyChildOfType VarName v) (\<lambda>n. Ret (reconstruct txt n)))
       (findAll GlobalVarDef x)"

definition operator_head :: "string \<Rightarrow> string \<Rightarrow> string" where
  "operator_head w n = ''bool operator'' @ w @ ''('' @ n @ '' const& x, '' @ n @ '' const& y) noexcept''"

definition less_body :: "string list \<Rightarrow> string" where
  "less_body vs =
     concat (map (\<lambda>v. ''  if (x.'' @ v @ '' < y.'' @ v @ '') return true;'' @ nl @
                     ''  if (y.'' @ v @ '' < x.'' @ v @ '') return false;'' @ nl) vs) @
     ''  return false;'' @ nl @ ''}'' @ nl"

definition other_operators :: "(string \<times> string) list" where
  "other_operators =
     [(''>'', ''y<x''), (''!='', ''y<x||x<y''), (''=='', ''!(y<x||x<y)''), (''<='', ''!(x>y)''),
      (''>='', ''!(x<y)'')]"

definition gen_operators :: "string \<Rightarrow> item \<Rightarrow> item \<Rightarrow> item list \<Rightarrow> 'e gen" where
  "gen_operators txt x m scope s =
     obind (getClassMemberVarNames txt x) (\<lambda>vs.
       let n = className txt x; q = scope_text txt scope
       in gen_all
            [to_h (copy_item txt m),
             to_h (put_all (map (\<lambda>(w, r). ''friend '' @ operator_head w n @ '';'' @ nl) other_operators)),
             to_c (put_all [operator_head ''<'' q, nl, ''{'', nl, less_body vs]),
             to_c (put_all (map (\<lambda>(w, r). operator_head w q @ nl @ ''{'' @ nl @ ''  return '' @ r @ '';'' @
                nl @ ''}'' @ nl) other_operators))] s)"

function (sequential) genClass :: "string \<Rightarrow> item \<Rightarrow> item list \<Rightarrow> 'e gen"
and class_items :: "string \<Rightarrow> item \<Rightarrow> item list \<Rightarrow> item list \<Rightarrow> 'e gen"
and class_member_items :: "string \<Rightarrow> item \<Rightarrow> item list \<Rightarrow> item list \<Rightarrow> 'e gen" where
  "genClass txt x outer s = class_items txt x outer (items x) s"
| "class_items txt x outer [] s = Ret s"
| "class_items txt x outer (i # is) s =
     obind (if isA ClassMembers i then class_member_items txt x outer (items i) s
            else to_h (copy_item txt i) s)
       (class_items txt x outer is)"
| "class_member_items txt x outer [] s = Ret s"
| "class_member_items txt x outer (m # ms) s =
     obind
       (if isA FunctionDef m then
          if isInlineFunction txt m then to_h (copy_item txt m) s
          else if isFriendFunction txt m then to_h (copy_item txt m) s
          else genClassMemberFunctionDef txt m (outer @ [x]) s
        else if isA StaticVarDef m then genClassStaticVarDef txt m (outer @ [x]) s
        else if isA ClassDef m then genClass txt m (outer @ [x]) s
        else if isA FunctionDecl m then
          obind (isFriendOperatorLessDecl txt m (className txt x)) (\<lambda>b.
            if b then gen_operators txt x m (outer @ [x]) s else to_h (copy_item txt m) s)
        else to_h (copy_item txt m) s)
       (class_member_items txt x outer ms)"
  by pat_completeness auto
termination
  by (relation "measure (case_sum (\<lambda>(txt, x, outer, s). 2 * size x)
        (case_sum (\<lambda>(txt, x, outer, is, s). Suc (2 * size_list size is))
           (\<lambda>(txt, x, outer, ms, s). Suc (2 * size_list size ms))))")
    (simp_all add: size_items_measure)

section \<open>Template classes\<close>

definition gen_template_operators :: "string \<Rightarrow> item \<Rightarrow> 'e gen" where
  "gen_template_operators txt x s =
     obind (getClassMemberVarNames txt x) (\<lambda>vs.
       let n = className txt x
       in gen_all
            [to_h (put_all [''friend '', operator_head ''<'' n, nl, ''{'', nl, less_body vs]),
             to_h (put_all (map (\<lambda>(w, r). ''friend '' @ operator_head w n @ '' {'' @ nl @ ''  return '' @ r @
                '';'' @ nl @ ''}'' @ nl) other_operators))] s)"

fun template_member_items :: "string \<Rightarrow> item \<Rightarrow> item list \<Rightarrow> 'e gen" where
  "template_member_items txt x [] s = Ret s"
| "template_member_items txt x (m # ms) s =
     obind
       (if isA FunctionDecl m then
          obind (isFriendOperatorLessDecl txt m (className txt x)) (\<lambda>b.
            if b then gen_template_operators txt x s else to_h (copy_item txt m) s)
        else to_h (copy_item txt m) s)
       (template_member_items txt x ms)"

fun template_items :: "string \<Rightarrow> item \<Rightarrow> item list \<Rightarrow> 'e gen" where
  "template_items txt x [] s = Ret s"
| "template_items txt x (i # is) s =
     obind (if isA ClassMembers i then template_member_items txt x (items i) s
            else to_h (copy_item txt i) s)
       (template_items txt x is)"

definition genTemplateClass :: "string \<Rightarrow> item \<Rightarrow> 'e gen" where
  "genTemplateClass txt x s = template_items txt x (items x) s"

section \<open>Namespaces\<close>

definition genAnonymousNamespace :: "string \<Rightarrow> item \<Rightarrow> 'e gen" where
  "genAnonymousNamespace txt x s = to_c (copy_item txt x) s"

definition namespaceName :: "string \<Rightarrow> item \<Rightarrow> string" where
  "namespaceName txt x =
     (case getNamespaceName txt (items x) :: (unit, string) outcome of Ret n \<Rightarrow> n | _ \<Rightarrow> [])"

lemma size_nth_items:
  assumes "i < length (items x)"
  shows "Suc (2 * size_list size (items (items x ! i))) < 2 * size x"
proof -
  have "size (items x ! i) \<le> size_list size (items x)"
    by (rule size_list_estimation' [OF nth_mem [OF assms] order_refl])
  then show ?thesis using size_items [of x] size_items [of "items x ! i"] by simp
qed

lemma find_if_less: "find_if P xs \<noteq> length xs \<longleftrightarrow> find_if P xs < length xs"
  by (simp add: find_if_def order_less_le length_takeWhile_le)

function (sequential) genNamespace :: "string \<Rightarrow> item \<Rightarrow> 'e gen"
and genNamespaceContent :: "string \<Rightarrow> item list \<Rightarrow> 'e gen" where
  "genNamespace txt x s =
     (let its = items x; i = find_if (isA NamespaceMembers) its
      in if i = length its then Abort
         else
           obind (gen_all
             [to_c (put_all [''namespace '', namespaceName txt x, nl, ''{'', nl]),
              to_h (copy_items txt (take i its))] s) (\<lambda>s.
           obind (genNamespaceContent txt (items (its ! i)) s)
             (gen_all
               [to_h (copy_items txt (drop (i + 1) its)),
                to_c (put_all [''}'', nl])])))"
| "genNamespaceContent txt [] s = Ret s"
| "genNamespaceContent txt (x # xs) s =
     obind
       (if isA AnonymousNamespace x then genAnonymousNamespace txt x s
        else if isA NamespaceDef x then genNamespace txt x s
        else if isA TemplateClassDef x then genTemplateClass txt x s
        else if isA ClassDef x then genClass txt x [] s
        else if isA HashIncludeImpl x then to_c (copy_item txt x) s
        else if isA FunctionDef x then genFunction txt x s
        else if isA GlobalVarDef x then genGlobalVar txt x s
        else to_h (copy_item txt x) s)
       (genNamespaceContent txt xs)"
  by pat_completeness auto
termination
  by (relation "measure (case_sum (\<lambda>(txt, x, s). 2 * size x) (\<lambda>(txt, xs, s). Suc (2 * size_list size xs)))")
    (simp_all add: size_nth_items find_if_less)

section \<open>The program\<close>

datatype split_error = Requires_argument string | Unknown_option string | Bad_level number_error
  | Bad_input parse_error

record CommandLineOptions =
  dir_levels :: "32 word"
  hpath :: string
  includeGeneratedBy :: bool

definition default_options :: CommandLineOptions where
  "default_options = \<lparr>dir_levels = 0, hpath = [], includeGeneratedBy = False\<rparr>"

definition getOptionValue :: "string \<Rightarrow> string list \<Rightarrow> (split_error, string) outcome" where
  "getOptionValue opt args = (case args of [] \<Rightarrow> Throw (Requires_argument opt) | a # _ \<Rightarrow> Ret a)"

text \<open>\<^verbatim>\<open>*hpath.rend()\<close>, looked at when the argument of \<^verbatim>\<open>-hpath\<close> is not empty, is not a character of
  the string.\<close>

function (sequential) parse_options ::
  "CommandLineOptions \<Rightarrow> string list \<Rightarrow> (split_error, CommandLineOptions \<times> string list) outcome" where
  "parse_options opts [] = Ret (opts, [])"
| "parse_options opts (a # as) =
     (if a = [] \<or> hd a \<noteq> CHR ''-'' then Ret (opts, a # as)
      else if a = ''-l'' then
        obind (getOptionValue ''-l'' as) (\<lambda>v.
          case stringToUInt v of
            Ret n \<Rightarrow> parse_options (opts\<lparr>dir_levels := n\<rparr>) (tl as)
          | Throw e \<Rightarrow> Throw (Bad_level e) | Abort \<Rightarrow> Abort | Undef \<Rightarrow> Undef | Diverge \<Rightarrow> Diverge)
      else if a = ''-hpath'' then
        obind (getOptionValue ''-hpath'' as) (\<lambda>v.
          if v = [] then parse_options (opts\<lparr>hpath := ''/''\<rparr>) (tl as) else Undef)
      else if a = ''-G'' then parse_options (opts\<lparr>includeGeneratedBy := True\<rparr>) as
      else Throw (Unknown_option a))"
  by pat_completeness auto
termination
  by (relation "measure (\<lambda>(opts, as). length as)") (auto simp: getOptionValue_def split: list.splits)

definition parseCommandLine :: "string list \<Rightarrow> (split_error, CommandLineOptions \<times> string list) outcome" where
  "parseCommandLine = parse_options default_options"

definition toupper :: "char \<Rightarrow> char" where
  "toupper c =
     (if 97 \<le> (of_char c :: nat) \<and> of_char c \<le> (122 :: nat) then char_of (of_char c - 32 :: nat) else c)"

definition make_guard_char :: "char \<Rightarrow> char" where
  "make_guard_char c =
     (if signed_char CHR ''a'' \<le> signed_char c \<and> signed_char c \<le> signed_char CHR ''z'' \<or>
         signed_char CHR ''A'' \<le> signed_char c \<and> signed_char c \<le> signed_char CHR ''Z'' \<or>
         signed_char CHR ''0'' \<le> signed_char c \<and> signed_char c \<le> signed_char CHR ''9'' \<or>
         c = CHR ''_''
      then toupper c else CHR ''_'')"

definition make_guard :: "string \<Rightarrow> string" where
  "make_guard x = CHR ''_'' # map make_guard_char x"

text \<open>The map file: the name of the source, and a line for each pair.\<close>

definition writeOffsetMap :: "string \<Rightarrow> offset_map \<Rightarrow> string" where
  "writeOffsetMap name m =
     name @ nl @ concat (map (\<lambda>(k, v). decimal k @ '' '' @ decimal v @ nl) m)"

text \<open>The part of \<^verbatim>\<open>main\<close> between reading the source and writing the outputs: \<open>guard\<close> is the include
  guard, \<open>include\<close> what the implementation includes, and the two comments are there with \<^verbatim>\<open>-G\<close>.\<close>

definition split_parts ::
  "string \<Rightarrow> string \<Rightarrow> string \<Rightarrow> string option \<Rightarrow> string option \<Rightarrow> item list \<Rightarrow> split_error gen list" where
  "split_parts txt guard include hhGeneratedBy ccGeneratedBy its =
     [to_h (put_all [''#ifndef '', guard, nl, ''#define '', guard, nl]),
      to_h (put_all (case hhGeneratedBy of Some c \<Rightarrow> [c, nl] | None \<Rightarrow> [])),
      to_c (put_all [''#include '', include, nl]),
      to_c (put_all (case ccGeneratedBy of Some c \<Rightarrow> [c, nl] | None \<Rightarrow> [])),
      genNamespaceContent txt its,
      to_h (put_all [''#endif'', nl])]"

definition split_source ::
  "nat \<Rightarrow> string \<Rightarrow> string \<Rightarrow> string \<Rightarrow> string option \<Rightarrow> string option \<Rightarrow> (split_error, streams) outcome" where
  "split_source n txt guard include hhGeneratedBy ccGeneratedBy =
     (case parseString n txt file of
        Ret root \<Rightarrow>
          if items root = [] then Undef
          else obind (oassert (isA File (items root ! 0))) (\<lambda>_.
            gen_all (split_parts txt guard include hhGeneratedBy ccGeneratedBy (items (items root ! 0)))
              (OStream_new, OStream_new))
      | Throw e \<Rightarrow> Throw (Bad_input e) | Abort \<Rightarrow> Abort | Undef \<Rightarrow> Undef | Diverge \<Rightarrow> Diverge)"

end
