(* ===== verification/HcpMapFile.thy ===== *)
theory HcpMapFile
  imports HcpSplit
begin

text \<open>
  \<^verbatim>\<open>src/hcp/hcp-map-to-source.cc\<close>: reads a map file that \<^verbatim>\<open>hcp-split\<close> has written, with a parser built from
  the combinators, and reports the source file and offset of an offset of an output.  Finding the map
  file of an output is a parse of its first comment, \<open>generated_as\<close>; the search along \<^verbatim>\<open>HCP_HPATH\<close> is
  input and output.
\<close>

section \<open>The map file\<close>

abbreviation "MapHcp \<equiv> OtherTag ''MapHcp''"
abbreviation "MapFromOffset \<equiv> OtherTag ''MapFromOffset''"
abbreviation "MapToOffset \<equiv> OtherTag ''MapToOffset''"
abbreviation "MapOffsetPair \<equiv> OtherTag ''MapOffsetPair''"
abbreviation "GeneratedAs \<equiv> OtherTag ''GeneratedAs''"

definition parseOffset :: parser where
  "parseOffset = atLeastOne (ParseCharInRange CHR ''0'' CHR ''9'')"

definition offset_pair :: parser where
  "offset_pair =
     NamedParser MapOffsetPair ''offset pair''
       (seq [NamedParser MapFromOffset ''from offset'' parseOffset,
             atLeastOne whitespaceChar,
             NamedParser MapToOffset ''to offset'' parseOffset,
             parseLiteral nl])"

definition mapParser :: parser where
  "mapParser =
     seq [NamedParser MapHcp ''hcp file name'' (ParseUntil (parseLiteral nl)), parseLiteral nl,
          zeroOrMore offset_pair]"

text \<open>The offsets are \<^verbatim>\<open>off_t\<close>; those that are read are below \<open>2 ^ 32\<close>, so that nothing overflows.\<close>

type_synonym source_map = "(int \<times> int) list"

datatype map_error = Bad_map parse_error | Bad_offset number_error

definition source_insert :: "int \<Rightarrow> int \<Rightarrow> source_map \<Rightarrow> source_map" where
  "source_insert k v m = (if k \<in> fst ` set m then m else insort_key fst (k, v) m)"

definition to_offset :: "string \<Rightarrow> (map_error, 32 word) outcome" where
  "to_offset s =
     (case stringToUInt s of Ret c \<Rightarrow> Ret c | Throw e \<Rightarrow> Throw (Bad_offset e)
      | Abort \<Rightarrow> Abort | Undef \<Rightarrow> Undef | Diverge \<Rightarrow> Diverge)"

fun read_pairs :: "string \<Rightarrow> item list \<Rightarrow> source_map \<Rightarrow> (map_error, source_map) outcome" where
  "read_pairs map_text [] m = Ret m"
| "read_pairs map_text (p # ps) m =
     obind (findOnlyChildOfType MapFromOffset p) (\<lambda>f.
     obind (to_offset (reconstruct map_text f)) (\<lambda>k.
     obind (findOnlyChildOfType MapToOffset p) (\<lambda>g.
     obind (to_offset (reconstruct map_text g)) (\<lambda>v.
       read_pairs map_text ps (source_insert (uint k) (uint v) m)))))"

definition source_offset :: "source_map \<Rightarrow> 32 word \<Rightarrow> (map_error, int) outcome" where
  "source_offset m offset =
     (let earlier = takeWhile (\<lambda>e. fst e \<le> uint offset) m
      in obind (oassert (earlier \<noteq> [])) (\<lambda>_.
           Ret (uint offset - fst (last earlier) + snd (last earlier))))"

text \<open>What \<^verbatim>\<open>main\<close> prints: the name of the source file and the offset in it.\<close>

definition map_to_source :: "nat \<Rightarrow> string \<Rightarrow> 32 word \<Rightarrow> (map_error, string \<times> int) outcome" where
  "map_to_source n map_text offset =
     (case parseString n map_text mapParser of
        Ret root \<Rightarrow>
          obind (findOnlyChildOfType MapHcp root) (\<lambda>h.
          obind (read_pairs map_text (findAll MapOffsetPair root) [(-1, -1)]) (\<lambda>m.
          obind (source_offset m offset) (\<lambda>o'. Ret (reconstruct map_text h, o'))))
      | Throw e \<Rightarrow> Throw (Bad_map e) | Abort \<Rightarrow> Abort | Undef \<Rightarrow> Undef | Diverge \<Rightarrow> Diverge)"

section \<open>The comment that names the output\<close>

definition generated_comment :: parser where
  "generated_comment =
     parser_plus (parseLiteral ''// hcp-split: generated as '')
       (NamedParser GeneratedAs ''generated as'' (ParseUntil whitespaceChar))"

definition generated_as :: "nat \<Rightarrow> string \<Rightarrow> (map_error, string) outcome" where
  "generated_as n content =
     (case hcp_parse n content I_begin (parser_plus (ParseUntil generated_comment) generated_comment) False of
        Ret (irs, e) \<Rightarrow>
          obind (findOnlyChildOfType GeneratedAs (composite ItemTag irs)) (\<lambda>g. Ret (reconstruct content g))
      | Throw e \<Rightarrow> Throw (Bad_map e) | Abort \<Rightarrow> Abort | Undef \<Rightarrow> Undef | Diverge \<Rightarrow> Diverge)"

end
