(* ===== verification/HcpCache.thy ===== *)
theory HcpCache
  imports HcpEngine
begin

text \<open>
  The cache changes nothing: whatever table \<^verbatim>\<open>parse\<close> keeps its results in, as long as the table
  returns only what was stored, every parser returns what it returns without a table.  The interface
  is the locale \<open>memo_table\<close>; it is interpreted on the map of the code and on the table that holds
  nothing.  The same simulation, between two amounts of fuel, shows that more fuel never changes a
  result.
\<close>

named_theorems sim_rules "simulation between two runs of a parser"

section \<open>Simulation\<close>

text \<open>A result whose position is one of the text.\<close>

definition on_result :: "string \<Rightarrow> parse_result \<Rightarrow> bool" where
  "on_result txt r \<longleftrightarrow> (case r of Parsed irs e \<Rightarrow> at_pos txt e | Failed x \<Rightarrow> True)"

text \<open>Where the first run returns, the second returns the same value and a related state.\<close>

definition sim ::
  "('a \<Rightarrow> bool) \<Rightarrow> ('s \<Rightarrow> 't \<Rightarrow> bool) \<Rightarrow> ('e, 'a \<times> 's) outcome \<Rightarrow> ('e, 'a \<times> 't) outcome \<Rightarrow> bool" where
  "sim G R m1 m2 \<longleftrightarrow>
     (\<forall>a s1. m1 = Ret (a, s1) \<longrightarrow> G a \<and> (\<exists>s2. m2 = Ret (a, s2) \<and> R s1 s2))"

lemma simD: "sim G R m1 m2 \<Longrightarrow> m1 = Ret (a, s1) \<Longrightarrow> G a \<and> (\<exists>s2. m2 = Ret (a, s2) \<and> R s1 s2)"
  by (simp add: sim_def)

lemma sim_Ret [sim_rules]: "G a \<Longrightarrow> R s1 s2 \<Longrightarrow> sim G R (Ret (a, s1)) (Ret (a, s2))"
  by (simp add: sim_def)

lemma sim_other [simp]:
  "sim G R Diverge m" "sim G R Undef m" "sim G R Abort m" "sim G R (Throw e) m"
  by (simp_all add: sim_def)

lemma sim_obind:
  assumes "sim H R m1 m2"
    and "\<And>a s1 s2. H a \<Longrightarrow> R s1 s2 \<Longrightarrow> sim G R (f1 (a, s1)) (f2 (a, s2))"
  shows "sim G R (obind m1 f1) (obind m2 f2)"
  unfolding sim_def
proof (intro allI impI)
  fix b t1
  assume "obind m1 f1 = Ret (b, t1)"
  then obtain a s1 where m1: "m1 = Ret (a, s1)" and f1: "f1 (a, s1) = Ret (b, t1)" by auto
  from simD [OF assms(1) m1] obtain s2 where "H a" "m2 = Ret (a, s2)" "R s1 s2" by auto
  with simD [OF assms(2) f1] show "G b \<and> (\<exists>t2. obind m2 f2 = Ret (b, t2) \<and> R t1 t2)" by auto
qed

lemma sim_pure:
  "(\<And>a. m = Ret a \<Longrightarrow> sim G R (f1 a) (f2 a)) \<Longrightarrow> sim G R (obind m f1) (obind m f2)"
  by (cases m) simp_all

lemma sim_catch:
  assumes "R s1 s2" "\<And>i. G (Failed (EndOfInput i))" "\<And>a. m = Ret a \<Longrightarrow> sim G R (f1 a) (f2 a)"
  shows "sim G R (catch_end s1 m f1) (catch_end s2 m f2)"
  using assms by (cases m) (auto simp: catch_end_def sim_def)

lemma sim_nothrow: "sim G R m1 m2 \<Longrightarrow> sim G R (nothrow m1) (nothrow m2)"
  by (simp add: sim_def)

lemma sim_result:
  assumes "\<And>irs e. r = Parsed irs e \<Longrightarrow> sim G R (f1 irs e) (f2 irs e)"
    and "\<And>x. r = Failed x \<Longrightarrow> sim G R (g1 x) (g2 x)"
  shows "sim G R (case r of Parsed irs e \<Rightarrow> f1 irs e | Failed x \<Rightarrow> g1 x)
                 (case r of Parsed irs e \<Rightarrow> f2 irs e | Failed x \<Rightarrow> g2 x)"
  using assms by (cases r) simp_all

lemma on_result_simps [simp]:
  "on_result txt (Parsed irs e) \<longleftrightarrow> at_pos txt e" "on_result txt (Failed x)"
  by (simp_all add: on_result_def)

section \<open>The bodies of the parsers\<close>

text \<open>Two pairs of functions for the calls on other parsers that simulate each other, from every
  position of the text.\<close>

definition calls_sim ::
  "string \<Rightarrow> ('s \<Rightarrow> 't \<Rightarrow> bool) \<Rightarrow> 's parse_fun \<Rightarrow> 't parse_fun \<Rightarrow> bool" where
  "calls_sim txt R P1 P2 \<longleftrightarrow>
     (\<forall>p i s1 s2. at_pos txt i \<longrightarrow> R s1 s2 \<longrightarrow> sim (on_result txt) R (P1 p i s1) (P2 p i s2))"

lemma sim_call:
  assumes "calls_sim txt R P1 P2" "at_pos txt i" "R s1 s2"
    and "\<And>irs e s1 s2. at_pos txt e \<Longrightarrow> R s1 s2 \<Longrightarrow>
           sim G R (f1 (Parsed irs e, s1)) (f2 (Parsed irs e, s2))"
    and "\<And>x s1 s2. R s1 s2 \<Longrightarrow> sim G R (f1 (Failed x, s1)) (f2 (Failed x, s2))"
  shows "sim G R (obind (P1 p i s1) f1) (obind (P2 p i s2) f2)"
proof (rule sim_obind)
  show "sim (on_result txt) R (P1 p i s1) (P2 p i s2)" using assms(1-3) by (simp add: calls_sim_def)
  fix r s1 s2
  assume "on_result txt r" "R s1 s2"
  then show "sim G R (f1 (r, s1)) (f2 (r, s2))" using assms(4,5) by (cases r) simp_all
qed

lemma sim_Optional:
  assumes "calls_sim txt R P1 P2" "at_pos txt i" "R s1 s2"
  shows "sim (on_result txt) R (Optional_parse P1 x i s1) (Optional_parse P2 x i s2)"
  unfolding Optional_parse_def by (rule sim_call [OF assms]) (auto intro: sim_rules simp: assms)

lemma sim_zeroOrMore:
  assumes "calls_sim txt R P1 P2"
  shows "n \<le> m \<Longrightarrow> at_pos txt i \<Longrightarrow> R s1 s2 \<Longrightarrow>
     sim (on_result txt) R (zeroOrMore_loop n P1 x irs i s1) (zeroOrMore_loop m P2 x irs i s2)"
proof (induction n arbitrary: m irs i s1 s2)
  case (Suc n)
  then obtain m' where m: "m = Suc m'" and le: "n \<le> m'" by (cases m) auto
  show ?case unfolding m zeroOrMore_loop.simps
    by (rule sim_call [OF assms]) (auto intro: sim_rules Suc.IH [OF le] simp: Suc.prems)
qed simp

lemma sim_and_loop:
  assumes "calls_sim txt R P1 P2"
  shows "at_pos txt i \<Longrightarrow> R s1 s2 \<Longrightarrow>
     sim (on_result txt) R (and_loop ae P1 ps irs i s1) (and_loop ae P2 ps irs i s2)"
proof (induction ps arbitrary: irs i s1 s2)
  case (Cons p ps)
  show ?case unfolding and_loop.simps
    by (rule sim_call [OF assms]) (auto intro: sim_rules Cons.IH simp: Cons.prems)
qed (auto intro: sim_rules)

lemma sim_ParseAnd:
  assumes "calls_sim txt R P1 P2" "at_pos txt i" "R s1 s2"
  shows "sim (on_result txt) R (ParseAnd_parse ae P1 ps i s1) (ParseAnd_parse ae P2 ps i s2)"
proof (cases ps)
  case (Cons p qs)
  show ?thesis unfolding Cons ParseAnd_parse.simps
    by (rule sim_call [OF assms]) (auto intro: sim_rules sim_and_loop [OF assms(1)])
qed simp

lemma sim_or_loop:
  assumes "calls_sim txt R P1 P2"
  shows "at_pos txt i \<Longrightarrow> R s1 s2 \<Longrightarrow>
     sim (on_result txt) R (or_loop P1 ps fs i s1) (or_loop P2 ps fs i s2)"
proof (induction ps arbitrary: fs s1 s2)
  case (Cons p ps)
  show ?case unfolding or_loop.simps
    by (rule sim_call [OF assms]) (auto intro: sim_rules Cons.IH simp: Cons.prems)
qed (auto intro: sim_rules split: option.split)

lemma sim_ParseNot:
  assumes "calls_sim txt R P1 P2" "at_pos txt i" "R s1 s2"
  shows "sim (on_result txt) R (ParseNot_parse P1 x i s1) (ParseNot_parse P2 x i s2)"
  unfolding ParseNot_parse_def by (rule sim_call [OF assms]) (auto intro: sim_rules simp: assms)

lemma sim_list_loop:
  assumes "calls_sim txt R P1 P2"
  shows "n \<le> m \<Longrightarrow> at_pos txt i \<Longrightarrow> R s1 s2 \<Longrightarrow>
     sim (on_result txt) R (list_loop n ae P1 x q irs i s1) (list_loop m ae P2 x q irs i s2)"
proof (induction n arbitrary: m irs i s1 s2)
  case (Suc n)
  then obtain m' where m: "m = Suc m'" and le: "n \<le> m'" by (cases m) auto
  show ?case unfolding m list_loop.simps
    by (rule sim_call [OF assms])
      (auto intro!: sim_rules sim_call [OF assms] intro: Suc.IH [OF le] simp: Suc.prems)
qed simp

lemma sim_ntom_loop:
  assumes "calls_sim txt R P1 P2"
  shows "at_pos txt i \<Longrightarrow> R s1 s2 \<Longrightarrow>
     sim (on_result txt) R (ntom_loop k P1 n got x irs i s1) (ntom_loop k P2 n got x irs i s2)"
proof (induction k arbitrary: got irs i s1 s2)
  case (Suc k)
  show ?case unfolding ntom_loop.simps
    by (rule sim_call [OF assms]) (auto intro: sim_rules Suc.IH simp: Suc.prems)
qed (auto intro: sim_rules)

lemma sim_until_loop:
  assumes "calls_sim txt R V1 V2"
  shows "n \<le> m \<Longrightarrow> at_pos txt e \<Longrightarrow> R s1 s2 \<Longrightarrow>
     sim (on_result txt) R (until_loop n txt V1 x i e s1) (until_loop m txt V2 x i e s2)"
proof (induction n arbitrary: m e s1 s2)
  case (Suc n)
  then obtain m' where m: "m = Suc m'" and le: "n \<le> m'" by (cases m) auto
  show ?case unfolding m until_loop.simps
    by (rule sim_call [OF assms])
      (auto intro!: sim_rules sim_pure intro: Suc.IH [OF le] simp: Suc.prems I_incr_Ret at_pos_step)
qed simp

lemma sim_specific_until:
  assumes "calls_sim txt R V1 V2"
  shows "n \<le> m \<Longrightarrow> at_pos txt i \<Longrightarrow> R s1 s2 \<Longrightarrow>
     sim (on_result txt) R (specific_until_loop n ae V1 q x irs i s1)
       (specific_until_loop m ae V2 q x irs i s2)"
proof (induction n arbitrary: m irs i s1 s2)
  case (Suc n)
  then obtain m' where m: "m = Suc m'" and le: "n \<le> m'" by (cases m) auto
  show ?case unfolding m specific_until_loop.simps
    by (rule sim_call [OF assms])
      (auto intro!: sim_rules sim_call [OF assms] intro: Suc.IH [OF le] simp: Suc.prems)
qed simp

lemma sim_one_char:
  "at_pos txt i \<Longrightarrow> R s1 s2 \<Longrightarrow> sim (on_result txt) R (one_char txt f i s1) (one_char txt f i s2)"
  unfolding one_char_def
  by (auto intro!: sim_rules sim_pure simp: I_incr_Ret at_pos_step split: option.split)

text \<open>The positions that the loops over characters reach.\<close>

lemma mismatch_at_pos: "mismatch_loop txt w i = Ret (e, d) \<Longrightarrow> at_pos txt i \<Longrightarrow> at_pos txt e"
  by (induction "txt" w i rule: mismatch_loop.induct)
    (auto simp: I_incr_Ret at_pos_step split: if_splits)

lemma identifier_loop_at_pos: "identifier_loop n txt i = Ret e \<Longrightarrow> at_pos txt i \<Longrightarrow> at_pos txt e"
  by (induction n "txt" i rule: identifier_loop.induct)
    (auto simp: I_incr_Ret at_pos_step split: if_splits)

lemma identifier_loop_mono: "identifier_loop n txt i = Ret e \<Longrightarrow> n \<le> m \<Longrightarrow> identifier_loop m txt i = Ret e"
proof (induction n arbitrary: i m)
  case (Suc n)
  then obtain m' where m: "m = Suc m'" and le: "n \<le> m'" by (cases m) auto
  show ?case
  proof (cases "I_atEnd txt i")
    case False
    then have "I_deref txt i = Ret (txt ! i_x i)" "I_incr txt i = Ret (I_step txt i)"
      by (simp_all add: I_deref_Ret I_incr_Ret)
    then show ?thesis using Suc.prems(1) Suc.IH [OF _ le] False m by (simp split: if_splits)
  qed (use Suc.prems(1) m in simp)
qed simp

lemma delimiter_loop_at_pos: "delimiter_loop k txt i = Ret (e, d) \<Longrightarrow> at_pos txt i \<Longrightarrow> at_pos txt e"
  by (induction k "txt" i rule: delimiter_loop.induct)
    (auto simp: I_incr_Ret at_pos_step split: if_splits)

lemma raw_delimiter_at_pos: "raw_delimiter txt i = Ret (e, d) \<Longrightarrow> at_pos txt i \<Longrightarrow> at_pos txt e"
  by (auto simp: raw_delimiter_def dest: delimiter_loop_at_pos split: option.splits)

lemma sim_ParseLiteral:
  "at_pos txt i \<Longrightarrow> R s1 s2 \<Longrightarrow>
     sim (on_result txt) R (ParseLiteral_parse txt w i s1) (ParseLiteral_parse txt w i s2)"
  unfolding ParseLiteral_parse_def
  by (auto intro!: sim_catch sim_rules elim!: mismatch_at_pos split: option.split)

lemma sim_ParseIdentifier:
  assumes "n \<le> m" "at_pos txt i" "R s1 s2"
  shows "sim (on_result txt) R (ParseIdentifier_parse n txt i s1) (ParseIdentifier_parse m txt i s2)"
proof (cases "\<exists>j e. I_incr txt i = Ret j \<and> identifier_loop n txt j = Ret e")
  case True
  then obtain j e where j: "I_incr txt i = Ret j" "identifier_loop n txt j = Ret e" by blast
  then have "at_pos txt j" using assms(2) by (simp add: I_incr_Ret at_pos_step)
  then have "at_pos txt e" using j(2) by (rule identifier_loop_at_pos [rotated])
  moreover have "identifier_loop m txt j = Ret e" using j(2) assms(1) by (rule identifier_loop_mono)
  ultimately show ?thesis using assms j
    by (auto simp: ParseIdentifier_parse_def intro!: sim_rules sim_pure)
next
  case False
  then show ?thesis using assms(2,3)
    by (auto simp: ParseIdentifier_parse_def sim_def I_deref_Ret split: if_splits)
qed

lemma sim_ParseHash:
  "at_pos txt i \<Longrightarrow> R s1 s2 \<Longrightarrow> sim (on_result txt) R (ParseHash_parse txt i s1) (ParseHash_parse txt i s2)"
  unfolding ParseHash_parse_def by (auto intro!: sim_rules sim_pure simp: I_incr_Ret at_pos_step)

lemma sim_ParseEndOfFile:
  "at_pos txt i \<Longrightarrow> R s1 s2 \<Longrightarrow>
     sim (on_result txt) R (ParseEndOfFile_parse txt i s1) (ParseEndOfFile_parse txt i s2)"
  unfolding ParseEndOfFile_parse_def by (auto intro!: sim_rules sim_pure)

lemma sim_NamedParser:
  assumes "calls_sim txt R P1 P2" "at_pos txt i" "R s1 s2"
  shows "sim (on_result txt) R (NamedParser_parse P1 t x i s1) (NamedParser_parse P2 t x i s2)"
  unfolding NamedParser_parse_def
  by (rule sim_call [OF assms]) (auto intro!: sim_rules sim_pure)

lemma sim_raw:
  assumes "calls_sim txt R P1 P2" "at_pos txt i" "R s1 s2"
  shows "sim (on_result txt) R (ParseRawStringLiteral_parse txt P1 i s1)
           (ParseRawStringLiteral_parse txt P2 i s2)"
proof -
  have "sim (on_result txt) R
      (catch_end t1 (raw_delimiter txt b) (\<lambda>(j, bad). case bad of
         Some k \<Rightarrow> Ret (Failed (mk_Exception k j False), t1)
       | None \<Rightarrow> let l = parseLiteral (raw_end txt b j)
           in obind (P1 (ParseUntil l) j t1) (\<lambda>(rr, s). case rr of
                Failed x \<Rightarrow> Ret (Failed (mk_Exception (EndDelimeterNotFound (raw_end txt b j)) (ex_at x)
                  False), s)
              | Parsed _ e \<Rightarrow> obind (P1 l e s) (\<lambda>(rrr, s). case rrr of Failed _ \<Rightarrow> Abort
                  | Parsed _ e' \<Rightarrow> Ret (Parsed [leaf i e'] e', s)))))
      (catch_end t2 (raw_delimiter txt b) (\<lambda>(j, bad). case bad of
         Some k \<Rightarrow> Ret (Failed (mk_Exception k j False), t2)
       | None \<Rightarrow> let l = parseLiteral (raw_end txt b j)
           in obind (P2 (ParseUntil l) j t2) (\<lambda>(rr, s). case rr of
                Failed x \<Rightarrow> Ret (Failed (mk_Exception (EndDelimeterNotFound (raw_end txt b j)) (ex_at x)
                  False), s)
              | Parsed _ e \<Rightarrow> obind (P2 l e s) (\<lambda>(rrr, s). case rrr of Failed _ \<Rightarrow> Abort
                  | Parsed _ e' \<Rightarrow> Ret (Parsed [leaf i e'] e', s)))))"
    if "at_pos txt b" "R t1 t2" for b t1 t2
    using that
    by (auto intro!: sim_catch sim_rules sim_call [OF assms(1)] simp: Let_def
        elim!: raw_delimiter_at_pos split: option.split)
  then show ?thesis unfolding ParseRawStringLiteral_parse_def
    by (intro sim_call [OF assms]) (auto intro: sim_rules)
qed

text \<open>A turn of the loop of \<^verbatim>\<open>ParseBalanced\<close>.\<close>

definition on_skip :: "string \<Rightarrow> Exception + I \<Rightarrow> bool" where
  "on_skip txt k \<longleftrightarrow> (case k of Inl x \<Rightarrow> True | Inr e \<Rightarrow> at_pos txt e)"

lemma on_skip_simps [simp]: "on_skip txt (Inl x)" "on_skip txt (Inr e) \<longleftrightarrow> at_pos txt e"
  by (simp_all add: on_skip_def)

lemma sim_skip:
  assumes "calls_sim txt R V1 V2" "at_pos txt e" "R s1 s2"
  shows "sim (on_skip txt) R (skip_parsed V1 p e s1) (skip_parsed V2 p e s2)"
    and "sim (on_skip txt) R (skip_nested txt V1 cl a e s1) (skip_nested txt V2 cl a e s2)"
    and "sim (on_skip txt) R (skip_char txt e s1) (skip_char txt e s2)"
    and "sim (on_skip txt) R (skip_comment txt V1 e s1) (skip_comment txt V2 e s2)"
  unfolding skip_parsed_def skip_nested_def skip_char_def skip_comment_def using assms(2,3)
  by (auto intro!: sim_rules sim_pure sim_call [OF assms(1)] simp: I_incr_Ret at_pos_step)

lemma sim_balanced_step:
  assumes "calls_sim txt R V1 V2" "at_pos txt e" "R s1 s2"
  shows "sim (on_skip txt) R (balanced_step txt V1 a e s1) (balanced_step txt V2 a e s2)"
  unfolding balanced_step_def by (auto intro!: sim_skip [OF assms] sim_pure)

lemma sim_balanced_loop:
  assumes "calls_sim txt R V1 V2"
  shows "n \<le> m \<Longrightarrow> at_pos txt e \<Longrightarrow> R s1 s2 \<Longrightarrow>
     sim (on_result txt) R (balanced_loop n txt V1 u a i e s1) (balanced_loop m txt V2 u a i e s2)"
proof (induction n arbitrary: m e s1 s2)
  case (Suc n)
  then obtain m' where m: "m = Suc m'" and le: "n \<le> m'" by (cases m) auto
  have step: "sim (on_result txt) R
      (obind (balanced_step txt V1 a e t1) (\<lambda>(k, s). case k of Inl x \<Rightarrow> Ret (Failed x, s)
         | Inr e \<Rightarrow> balanced_loop n txt V1 u a i e s))
      (obind (balanced_step txt V2 a e t2) (\<lambda>(k, s). case k of Inl x \<Rightarrow> Ret (Failed x, s)
         | Inr e \<Rightarrow> balanced_loop m' txt V2 u a i e s))"
    if "R t1 t2" for t1 t2
    by (rule sim_obind [OF sim_balanced_step [OF assms Suc.prems(2) that]])
      (auto intro: sim_rules Suc.IH [OF le] split: sum.split)
  show ?case unfolding m balanced_loop.simps
    by (rule sim_call [OF assms]) (auto intro!: sim_rules step simp: Suc.prems)
qed simp

lemma sim_body:
  assumes P: "calls_sim txt R P1 P2" and V: "calls_sim txt R V1 V2"
    and le: "n \<le> m" and i: "at_pos txt i" "R s1 s2"
  shows "sim (on_result txt) R (parse_body n ae txt P1 V1 p i s1) (parse_body m ae txt P2 V2 p i s2)"
proof -
  have calls: "sim (on_result txt) R (P1 q i s1) (P2 q i s2)"
    "sim (on_result txt) R (V1 q i s1) (V2 q i s2)" for q
    using P V i by (simp_all add: calls_sim_def)
  show ?thesis unfolding parse_body_def
    by (cases p)
      (simp_all add: calls sim_Optional [OF P i] sim_zeroOrMore [OF P le i] sim_ParseAnd [OF P i]
        sim_or_loop [OF P i] sim_ParseNot [OF P i] sim_list_loop [OF P le i] sim_ntom_loop [OF P i]
        sim_until_loop [OF V le i] sim_specific_until [OF V le i] sim_one_char [where R = R, OF i]
        ParseAnyChar_parse_def ParseOneOfChars_parse_def ParseOneOfChars2_parse_def
        ParseAnyCharExcept_parse_def ParseCharInRange_parse_def
        sim_ParseLiteral [where R = R, OF i] sim_ParseIdentifier [where R = R, OF le i] sim_ParseHash [where R = R, OF i]
        sim_ParseEndOfFile [where R = R, OF i] sim_NamedParser [OF P i] sim_raw [OF P i]
        sim_balanced_loop [OF V le i])
qed

section \<open>Tables of results\<close>

text \<open>What \<^verbatim>\<open>Parser::parse\<close> needs of its table: an insertion returns the result inserted or the one
  that was there, and afterwards the table holds nothing else that is new.\<close>

locale memo_table =
  fixes look :: "'s \<Rightarrow> key \<Rightarrow> parse_result option"
    and ins :: "'s \<Rightarrow> key \<Rightarrow> parse_result \<Rightarrow> parse_result \<times> 's"
  assumes ins_result: "ins s k r = (q, t) \<Longrightarrow> q = r \<or> look s k = Some q"
    and look_ins: "ins s k r = (q, t) \<Longrightarrow> look t k' = Some q' \<Longrightarrow>
      look s k' = Some q' \<or> k' = k \<and> q' = r"
begin

definition holds :: "(nat \<Rightarrow> parser \<Rightarrow> parse_result \<Rightarrow> bool) \<Rightarrow> 's \<Rightarrow> bool" where
  "holds \<Phi> s \<longleftrightarrow> (\<forall>x p r. look s (x, p) = Some r \<longrightarrow> \<Phi> x p r)"

lemma holds_ins:
  "ins s (x, p) r = (q, t) \<Longrightarrow> holds \<Phi> s \<Longrightarrow> \<Phi> x p r \<Longrightarrow> holds \<Phi> t \<and> \<Phi> x p q"
  using ins_result [of s "(x, p)" r q t] look_ins [of s "(x, p)" r q t]
  by (fastforce simp: holds_def)

abbreviation on_table :: "string \<Rightarrow> 's \<Rightarrow> 's \<Rightarrow> bool" where
  "on_table t s1 s2 \<equiv> s1 = s2 \<and> holds (\<lambda>x p. on_result t) s1"

lemma memo_sim:
  assumes "calls_sim t (on_table t) V1 V2"
  shows "calls_sim t (on_table t) (parse_memo look ins V1) (parse_memo look ins V2)"
  unfolding calls_sim_def
proof (intro allI impI)
  fix p i s1 s2
  assume i: "at_pos t i" and s: "on_table t s1 s2"
  have store: "sim (on_result t) (on_table t) (Ret (ins u (i_x i, p) (result_context p i r)))
      (Ret (ins u (i_x i, p) (result_context p i r)))"
    if "on_result t r" "holds (\<lambda>x p. on_result t) u" for u r
  proof -
    obtain q v where qv: "ins u (i_x i, p) (result_context p i r) = (q, v)" by fastforce
    have "on_result t (result_context p i r)"
      using that(1) by (simp add: result_context_def on_result_def split: parse_result.splits)
    with holds_ins [OF qv that(2)] show ?thesis unfolding qv by (auto intro: sim_rules)
  qed
  show "sim (on_result t) (on_table t) (parse_memo look ins V1 p i s1) (parse_memo look ins V2 p i s2)"
  proof (cases "look s1 (i_x i, p)")
    case None
    have "sim (on_result t) (on_table t) (V1 p i s1) (V2 p i s2)"
      using assms i s unfolding calls_sim_def by blast
    then show ?thesis using None s unfolding parse_memo_def
      by (auto intro!: sim_obind store)
  next
    case (Some r)
    then show ?thesis using s by (auto simp: parse_memo_def holds_def intro: sim_rules)
  qed
qed

text \<open>More fuel changes nothing.\<close>

lemma impl_more_fuel:
  "n \<le> m \<Longrightarrow> calls_sim t (on_table t) (parse_impl look ins ae t n) (parse_impl look ins ae t m)"
proof (induction n arbitrary: m)
  case 0
  then show ?case by (simp add: calls_sim_def)
next
  case (Suc n)
  then obtain m' where m: "m = Suc m'" and le: "n \<le> m'" by (cases m) auto
  note V = Suc.IH [OF le]
  show ?case unfolding calls_sim_def m
    by (auto intro!: sim_nothrow sim_body [OF memo_sim [OF V] V le])
qed

lemma more_fuel:
  assumes "parse_memo look ins (parse_impl look ins ae t n) p i s = Ret (r, s')"
    and "n \<le> m" "at_pos t i" "holds (\<lambda>x p. on_result t) s"
  shows "parse_memo look ins (parse_impl look ins ae t m) p i s = Ret (r, s')" "on_result t r"
proof -
  have "sim (on_result t) (on_table t) (parse_memo look ins (parse_impl look ins ae t n) p i s)
      (parse_memo look ins (parse_impl look ins ae t m) p i s)"
    using memo_sim [OF impl_more_fuel [OF assms(2)], of t ae] assms(3,4) by (simp add: calls_sim_def)
  from simD [OF this assms(1)]
  show "parse_memo look ins (parse_impl look ins ae t m) p i s = Ret (r, s')" "on_result t r" by auto
qed

end

interpretation no_table: memo_table no_find no_insert
  by unfold_locales (simp_all add: no_find_def no_insert_def)

lemma plain_more_fuel:
  assumes "plain_parse ae t n p i () = Ret (r, ())" "at_pos t i"
  shows "n \<le> m \<Longrightarrow> plain_parse ae t m p i () = Ret (r, ())" and "on_result t r"
  using no_table.more_fuel [OF assms(1) [unfolded plain_parse_def plain_impl_def]] assms(2)
  by (auto simp: plain_parse_def plain_impl_def no_table.holds_def no_find_def)

lemma plain_deterministic:
  assumes "plain_parse ae t n p i () = Ret (r, ())" "plain_parse ae t m p i () = Ret (q, ())" "at_pos t i"
  shows "r = q"
  using plain_more_fuel(1) [OF assms(1,3) max.cobounded1 [of n m]]
    plain_more_fuel(1) [OF assms(2,3) max.cobounded2 [of m n]] by simp

context memo_table
begin

definition plain_result :: "bool \<Rightarrow> string \<Rightarrow> nat \<Rightarrow> parser \<Rightarrow> parse_result \<Rightarrow> bool" where
  "plain_result ae t x p r \<longleftrightarrow>
     (x \<le> length t \<longrightarrow> (\<exists>n. plain_parse ae t n p (position t x) () = Ret (r, ())))"

abbreviation consistent :: "bool \<Rightarrow> string \<Rightarrow> unit \<Rightarrow> 's \<Rightarrow> bool" where
  "consistent ae t u s \<equiv> holds (plain_result ae t) s"

lemma plain_resultI:
  "plain_parse ae t n p i () = Ret (r, ()) \<Longrightarrow> at_pos t i \<Longrightarrow> plain_result ae t (i_x i) p r"
  by (auto simp: plain_result_def at_pos_def)

lemma plain_resultD:
  assumes "plain_result ae t (i_x i) p q" "plain_parse ae t n p i () = Ret (r, ())" "at_pos t i"
  shows "q = r"
proof -
  have i: "i_x i \<le> length t" "position t (i_x i) = i" using assms(3) by (simp_all add: at_pos_def)
  with assms(1) obtain m where "plain_parse ae t m p i () = Ret (q, ())"
    by (auto simp: plain_result_def)
  then show ?thesis using assms(2,3) by (rule plain_deterministic)
qed

lemma memo_consistent:
  assumes "calls_sim t (consistent ae t) (plain_impl ae t n) V"
  shows "calls_sim t (consistent ae t) (plain_parse ae t n) (parse_memo look ins V)"
  unfolding calls_sim_def sim_def
proof (intro allI impI)
  fix p i u s r u'
  assume i: "at_pos t i" and s: "consistent ae t u s" and plain: "plain_parse ae t n p i u = Ret (r, u')"
  have here: "plain_result ae t (i_x i) p r" using plain i by (auto intro: plain_resultI)
  have r: "on_result t r" using plain_more_fuel(2) plain i by simp
  show "on_result t r \<and> (\<exists>s2. parse_memo look ins V p i s = Ret (r, s2) \<and> consistent ae t u' s2)"
  proof (cases "look s (i_x i, p)")
    case (Some q)
    then have "plain_result ae t (i_x i) p q" using s by (simp add: holds_def)
    then have "q = r" using plain i by (auto intro: plain_resultD)
    then show ?thesis using Some s r by (simp add: parse_memo_def)
  next
    case None
    from plain obtain r0 where r0: "plain_impl ae t n p i () = Ret (r0, ())"
      and r_eq: "r = result_context p i r0"
      by (auto simp: plain_parse_def parse_memo_def no_find_def no_insert_def)
    have "sim (on_result t) (consistent ae t) (plain_impl ae t n p i ()) (V p i s)"
      using assms i s by (simp add: calls_sim_def)
    from simD [OF this r0] obtain s' where V: "V p i s = Ret (r0, s')" and s': "consistent ae t () s'"
      by auto
    obtain q s2 where ins: "ins s' (i_x i, p) r = (q, s2)" by fastforce
    from holds_ins [OF ins s' here] have "consistent ae t () s2" "plain_result ae t (i_x i) p q"
      by simp_all
    moreover from this(2) have "q = r" using plain i by (auto intro: plain_resultD)
    ultimately show ?thesis using None V ins r_eq r by (simp add: parse_memo_def)
  qed
qed

lemma impl_consistent:
  "calls_sim t (consistent ae t) (plain_impl ae t n) (parse_impl look ins ae t n)"
proof (induction n)
  case (Suc n)
  have "calls_sim t (consistent ae t) (parse_memo no_find no_insert (parse_impl no_find no_insert ae t n))
      (parse_memo look ins (parse_impl look ins ae t n))"
    using memo_consistent [OF Suc.IH] by (simp add: plain_parse_def [abs_def] plain_impl_def)
  then show ?case using Suc.IH unfolding calls_sim_def plain_impl_def
    by (auto intro!: sim_nothrow sim_body simp: calls_sim_def)
qed (simp add: calls_sim_def plain_impl_def)

lemma memo_transparent:
  assumes "plain_parse ae t n p i () = Ret (r, ())" "at_pos t i" "holds (plain_result ae t) s"
  obtains s' where "parse_memo look ins (parse_impl look ins ae t n) p i s = Ret (r, s')"
    and "holds (plain_result ae t) s'"
  using memo_consistent [OF impl_consistent, of t ae n] assms
  unfolding calls_sim_def sim_def by blast

end

interpretation result_cache: memo_table cache_find cache_insert
  by unfold_locales
    (auto simp: cache_find_def cache_insert_def split: option.splits if_splits)

text \<open>A parse that starts with an empty cache.\<close>

lemma cache_transparent:
  assumes "plain_parse ae t n p i () = Ret (r, ())" "at_pos t i"
  obtains c where "parser_parse ae t n p i Map.empty = Ret (r, c)"
proof -
  have "result_cache.holds (result_cache.plain_result ae t) Map.empty"
    by (simp add: result_cache.holds_def cache_find_def)
  with assms obtain c where
    "parse_memo cache_find cache_insert (parse_impl cache_find cache_insert ae t n) p i Map.empty = Ret (r, c)"
    by (rule result_cache.memo_transparent)
  then show thesis by (auto simp: parser_parse_def intro: that)
qed

lemma parser_more_fuel:
  assumes "parser_parse ae t n p i Map.empty = Ret (r, c)" "n \<le> m" "at_pos t i"
  shows "parser_parse ae t m p i Map.empty = Ret (r, c)"
  using result_cache.more_fuel(1) [OF assms(1) [unfolded parser_parse_def] assms(2,3)]
  by (simp add: parser_parse_def result_cache.holds_def cache_find_def)

end
