(* ===== verification/HcpSpans.thy ===== *)
theory HcpSpans
  imports HcpCache
begin

text \<open>
  What a parse covers.  The items of a successful parse tile the text from where the parse started to
  where it ended, and so do, recursively, the children of every item: nothing of the text is lost
  or duplicated.  A failure is at a position of the text, not before the start, and is marked as at
  the end of the input only there.  The invariants are proved for the parsers without a cache; by
  HcpCache they hold with it.
\<close>

section \<open>Tilings\<close>

fun tree_ok :: "item \<Rightarrow> bool"
and tiles :: "item list \<Rightarrow> I \<Rightarrow> I \<Rightarrow> bool" where
  "tree_ok (Item t its b e) = (if its = [] then i_x b \<le> i_x e else tiles its b e)"
| "tiles [] b e = (b = e)"
| "tiles (x # xs) b e = (item_begin x = b \<and> tree_ok x \<and> tiles xs (item_end x) e)"

lemma tiles_append: "tiles (xs @ ys) b e \<longleftrightarrow> (\<exists>m. tiles xs b m \<and> tiles ys m e)"
  by (induction xs arbitrary: b) auto

lemma tiles_join: "tiles xs b m \<Longrightarrow> tiles ys m e \<Longrightarrow> tiles (xs @ ys) b e"
  by (auto simp: tiles_append)

lemma tiles_last: "tiles xs b e \<Longrightarrow> xs \<noteq> [] \<Longrightarrow> item_end (last xs) = e"
  by (induction xs arbitrary: b) auto

lemma tiles_hd: "tiles xs b e \<Longrightarrow> xs \<noteq> [] \<Longrightarrow> item_begin (hd xs) = b"
  by (cases xs) auto

lemma tree_ok_leaf [simp]: "tree_ok (leaf b e) \<longleftrightarrow> i_x b \<le> i_x e"
  by (simp add: leaf_def)

lemma tree_ok_composite: "tiles xs b e \<Longrightarrow> xs \<noteq> [] \<Longrightarrow> tree_ok (composite t xs)"
  by (simp add: composite_def tiles_last tiles_hd)

lemma tree_ok_le: "tree_ok x \<Longrightarrow> i_x (item_begin x) \<le> i_x (item_end x)"
  and tiles_le: "tiles xs b e \<Longrightarrow> i_x b \<le> i_x e"
proof (induction x and xs b e rule: tree_ok_tiles.induct)
  case (1 t its b e)
  show ?case
  proof (cases its)
    case Nil
    then show ?thesis using "1.prems" by simp
  next
    case (Cons y ys)
    have "tiles its b e" using "1.prems" Cons by simp
    then have "i_x b \<le> i_x e" "item_begin (hd its) = b" "item_end (last its) = e"
      using "1.IH" Cons tiles_hd [of its b e] tiles_last [of its b e] by auto
    then show ?thesis using Cons by simp
  qed
qed auto

lemma tiles_singleton: "tiles [x] b e \<longleftrightarrow> tree_ok x \<and> item_begin x = b \<and> item_end x = e"
  by auto

text \<open>The text of a tiling is the text it covers.\<close>

lemma tiles_reconstruct: "tiles xs b e \<Longrightarrow> reconstruct_IRs t xs = slice t b e"
proof (induction xs arbitrary: b)
  case (Cons x xs)
  then have "reconstruct_IRs t xs = slice t (item_end x) e" by simp
  moreover have "i_x b \<le> i_x (item_end x)" "i_x (item_end x) \<le> i_x e"
    using Cons.prems tree_ok_le [of x] tiles_le [of xs "item_end x" e] by auto
  ultimately show ?case using Cons.prems
    by (simp add: reconstruct_IRs_def reconstruct_def slice_append)
qed (simp add: reconstruct_IRs_def)

section \<open>Invariants of the results\<close>

definition gives :: "('a \<Rightarrow> bool) \<Rightarrow> ('e, 'a \<times> 's) outcome \<Rightarrow> bool" where
  "gives G m \<longleftrightarrow> (\<forall>a s. m = Ret (a, s) \<longrightarrow> G a)"

definition calls_give :: "string \<Rightarrow> (parser \<Rightarrow> I \<Rightarrow> parse_result \<Rightarrow> bool) \<Rightarrow> 's parse_fun \<Rightarrow> bool" where
  "calls_give t Q P \<longleftrightarrow> (\<forall>p i s. at_pos t i \<longrightarrow> gives (Q p i) (P p i s))"

lemma gives_Ret [simp]: "gives G (Ret (a, s)) \<longleftrightarrow> G a"
  by (simp add: gives_def)

lemma gives_other [simp]: "gives G Diverge" "gives G Undef" "gives G Abort" "gives G (Throw e)"
  by (simp_all add: gives_def)

lemma gives_mono: "gives G m \<Longrightarrow> (\<And>a. G a \<Longrightarrow> H a) \<Longrightarrow> gives H m"
  by (auto simp: gives_def)

lemma gives_conj: "gives G m \<Longrightarrow> gives H m \<Longrightarrow> gives (\<lambda>a. G a \<and> H a) m"
  by (auto simp: gives_def)

lemma gives_obind: "gives H m \<Longrightarrow> (\<And>a s. H a \<Longrightarrow> gives G (f (a, s))) \<Longrightarrow> gives G (obind m f)"
  unfolding gives_def by fastforce

lemma gives_pure: "(\<And>a. m = Ret a \<Longrightarrow> gives G (f a)) \<Longrightarrow> gives G (obind m f)"
  by (cases m) simp_all

lemma gives_nothrow [simp]: "gives G (nothrow m) \<longleftrightarrow> gives G m"
  by (simp add: gives_def)

lemma gives_call:
  assumes "calls_give t Q P" "at_pos t i"
    and "\<And>irs e s. Q p i (Parsed irs e) \<Longrightarrow> gives G (f (Parsed irs e, s))"
    and "\<And>x s. Q p i (Failed x) \<Longrightarrow> gives G (f (Failed x, s))"
  shows "gives G (obind (P p i s) f)"
proof (rule gives_obind)
  show "gives (Q p i) (P p i s)" using assms(1,2) by (simp add: calls_give_def)
  show "gives G (f (r, s))" if "Q p i r" for r s using that assms(3,4) by (cases r) simp_all
qed

lemma calls_giveD: "calls_give t Q P \<Longrightarrow> at_pos t i \<Longrightarrow> gives (Q p i) (P p i s)"
  by (simp add: calls_give_def)

text \<open>An invariant of the results that every body keeps, and that does not look at the context of a
  failure, holds of the parsers.\<close>

lemma plain_gives:
  assumes body: "\<And>n (P :: unit parse_fun) V. calls_give t Q P \<Longrightarrow> calls_give t Q V \<Longrightarrow>
      calls_give t Q (parse_body n ae t P V)"
    and ctx: "\<And>p i r. Q p i r \<Longrightarrow> Q p i (result_context p i r)"
  shows "calls_give t Q (plain_impl ae t n)" "calls_give t Q (plain_parse ae t n)"
proof -
  have memo: "calls_give t Q (parse_memo no_find no_insert V)" if "calls_give t Q V" for V
    using that ctx
    by (auto simp: calls_give_def gives_def parse_memo_def no_find_def no_insert_def)
  show impl: "calls_give t Q (plain_impl ae t n)"
  proof (induction n)
    case 0
    then show ?case by (simp add: calls_give_def plain_impl_def)
  next
    case (Suc n)
    then have V: "calls_give t Q (parse_impl no_find no_insert ae t n)" by (simp add: plain_impl_def)
    show ?case using body [OF memo [OF V] V, of n] by (simp add: calls_give_def plain_impl_def)
  qed
  show "calls_give t Q (plain_parse ae t n)"
    using memo [OF impl] by (simp add: plain_parse_def [abs_def])
qed

section \<open>Spans\<close>

definition spans :: "string \<Rightarrow> I \<Rightarrow> parse_result \<Rightarrow> bool" where
  "spans t i r \<longleftrightarrow>
     (case r of Parsed irs e \<Rightarrow> at_pos t e \<and> tiles irs i e
      | Failed x \<Rightarrow> at_pos t (ex_at x) \<and> i_x i \<le> i_x (ex_at x) \<and>
          (ex_atEnd x \<longrightarrow> I_atEnd t (ex_at x)))"

lemma spans_Parsed [simp]: "spans t i (Parsed irs e) \<longleftrightarrow> at_pos t e \<and> tiles irs i e"
  by (simp add: spans_def)

lemma spans_Failed:
  "spans t i (Failed x) \<longleftrightarrow> at_pos t (ex_at x) \<and> i_x i \<le> i_x (ex_at x) \<and>
     (ex_atEnd x \<longrightarrow> I_atEnd t (ex_at x))"
  by (simp add: spans_def)

lemma spans_exception [simp]:
  "spans t i (Failed (mk_Exception k j False)) \<longleftrightarrow> at_pos t j \<and> i_x i \<le> i_x j"
  "spans t i (Failed (EndOfInput j)) \<longleftrightarrow> at_pos t j \<and> i_x i \<le> i_x j \<and> I_atEnd t j"
  "spans t i (Failed (atEnd_context ae irs x)) \<longleftrightarrow> spans t i (Failed x)"
  "spans t i (result_context p j r) \<longleftrightarrow> spans t i r"
  by (auto simp: spans_Failed mk_Exception_def EndOfInput_def atEnd_context_def addAtEndIRs_def
      result_context_def addContext_def split: parse_result.splits)

lemma spans_FailedD: "spans t i (Failed x) \<Longrightarrow> at_pos t (ex_at x) \<and> i_x i \<le> i_x (ex_at x)"
  by (simp add: spans_Failed)

lemma spans_earlier: "spans t j (Failed x) \<Longrightarrow> i_x i \<le> i_x j \<Longrightarrow> spans t i (Failed x)"
  by (auto simp: spans_Failed)

abbreviation calls_span :: "string \<Rightarrow> 's parse_fun \<Rightarrow> bool" where
  "calls_span t \<equiv> calls_give t (\<lambda>p. spans t)"

lemma spans_call:
  assumes "calls_span t P" "at_pos t i" "i_x b \<le> i_x i"
    and "\<And>irs e s. at_pos t e \<Longrightarrow> tiles irs i e \<Longrightarrow> gives G (f (Parsed irs e, s))"
    and "\<And>x s. spans t b (Failed x) \<Longrightarrow> gives G (f (Failed x, s))"
  shows "gives G (obind (P p i s) f)"
proof (rule gives_call [OF assms(1,2)])
  show "gives G (f (Parsed irs e, s))" if "spans t i (Parsed irs e)" for irs e s
    using that assms(4) by simp
  show "gives G (f (Failed x, s))" if "spans t i (Failed x)" for x s
    by (rule assms(5), rule spans_earlier [OF that assms(3)])
qed

lemma spans_Optional:
  "calls_span t P \<Longrightarrow> at_pos t i \<Longrightarrow> gives (spans t i) (Optional_parse P x i s)"
  unfolding Optional_parse_def by (rule spans_call [where b = i]) simp_all

lemma spans_zeroOrMore:
  assumes "calls_span t P"
  shows "at_pos t i \<Longrightarrow> tiles irs b i \<Longrightarrow> gives (spans t b) (zeroOrMore_loop n P x irs i s)"
proof (induction n arbitrary: irs i s)
  case (Suc n)
  show ?case unfolding zeroOrMore_loop.simps
    by (rule spans_call [OF assms Suc.prems(1), where b = b])
      (use Suc in \<open>auto intro: tiles_join simp: tiles_le\<close>)
qed simp

lemma spans_and_loop:
  assumes "calls_span t P"
  shows "at_pos t i \<Longrightarrow> tiles irs b i \<Longrightarrow> gives (spans t b) (and_loop ae P ps irs i s)"
proof (induction ps arbitrary: irs i s)
  case (Cons p ps)
  show ?case unfolding and_loop.simps
    by (rule spans_call [OF assms Cons.prems(1), where b = b]) (use Cons in \<open>auto intro: tiles_join simp: tiles_le\<close>)
qed simp

lemma spans_ParseAnd:
  assumes "calls_span t P" "at_pos t i"
  shows "gives (spans t i) (ParseAnd_parse ae P ps i s)"
proof (cases ps)
  case (Cons p qs)
  show ?thesis unfolding Cons ParseAnd_parse.simps
    by (rule spans_call [OF assms order_refl]) (auto intro: spans_and_loop [OF assms(1)])
qed simp

lemma furthest_in: "furthest es = Some e \<Longrightarrow> e \<in> set es"
  by (induction es arbitrary: e) (auto split: option.splits if_splits)

lemma spans_or_loop:
  assumes "calls_span t P" "at_pos t i"
  shows "\<forall>x \<in> set fs. spans t i (Failed x) \<Longrightarrow> gives (spans t i) (or_loop P ps fs i s)"
proof (induction ps arbitrary: fs s)
  case Nil
  then show ?case by (auto dest: furthest_in split: option.split)
next
  case (Cons p ps)
  show ?case unfolding or_loop.simps
    by (rule spans_call [OF assms order_refl]) (use Cons in auto)
qed

lemma spans_ParseNot:
  "calls_span t P \<Longrightarrow> at_pos t i \<Longrightarrow> gives (spans t i) (ParseNot_parse P x i s)"
  unfolding ParseNot_parse_def by (rule spans_call [where b = i]) simp_all

lemma spans_list_loop:
  assumes "calls_span t P"
  shows "at_pos t i \<Longrightarrow> tiles irs b i \<Longrightarrow> gives (spans t b) (list_loop n ae P x m irs i s)"
proof (induction n arbitrary: irs i s)
  case (Suc n)
  have more: "gives (spans t b) (obind (P m j s') (\<lambda>(r, s). case r of
      Failed _ \<Rightarrow> Ret (Parsed (irs @ xs) j, s)
    | Parsed ms i \<Rightarrow> list_loop n ae P x m (irs @ xs @ ms) i s))"
    if "at_pos t j" "tiles xs i j" for xs j s'
    by (rule spans_call [OF assms that(1) order_refl])
      (use Suc.prems that in \<open>auto intro!: Suc.IH intro: tiles_join\<close>)
  show ?case unfolding list_loop.simps
    by (rule spans_call [OF assms Suc.prems(1), where b = b])
      (use Suc more in \<open>auto simp: tiles_le intro: tiles_join\<close>)
qed simp

lemma spans_ntom_loop:
  assumes "calls_span t P"
  shows "at_pos t i \<Longrightarrow> tiles irs b i \<Longrightarrow> gives (spans t b) (ntom_loop k P n got x irs i s)"
proof (induction k arbitrary: got irs i s)
  case (Suc k)
  show ?case unfolding ntom_loop.simps
    by (rule spans_call [OF assms Suc.prems(1), where b = b])
      (use Suc.prems in \<open>auto simp: tiles_le intro!: Suc.IH intro: tiles_join dest: spans_FailedD\<close>)
qed simp

lemma spans_until_loop:
  assumes "calls_span t V"
  shows "at_pos t e \<Longrightarrow> i_x b \<le> i_x e \<Longrightarrow> gives (spans t b) (until_loop n t V x b e s)"
proof (induction n arbitrary: e s)
  case (Suc n)
  show ?case unfolding until_loop.simps
    by (rule spans_call [OF assms Suc.prems(1,2)])
      (use Suc in \<open>auto intro!: gives_pure simp: I_incr_Ret at_pos_step\<close>)
qed simp

lemma spans_specific_until:
  assumes "calls_span t V"
  shows "at_pos t i \<Longrightarrow> tiles irs b i \<Longrightarrow> gives (spans t b) (specific_until_loop n ae V m x irs i s)"
proof (induction n arbitrary: irs i s)
  case (Suc n)
  have le: "i_x b \<le> i_x i" using Suc.prems by (simp add: tiles_le)
  show ?case unfolding specific_until_loop.simps
    by (rule spans_call [OF assms Suc.prems(1) le])
      (use Suc.prems in \<open>auto intro!: spans_call [OF assms Suc.prems(1) le] Suc.IH intro: tiles_join\<close>)
qed simp

lemma spans_one_char: "at_pos t i \<Longrightarrow> gives (spans t i) (one_char t f i s)"
  unfolding one_char_def
  by (auto intro!: gives_pure simp: I_incr_Ret at_pos_step split: option.split)

lemma mismatch_span:
  "mismatch_loop t w i = Ret (e, d) \<Longrightarrow> at_pos t i \<Longrightarrow> at_pos t e \<and> i_x i \<le> i_x e"
proof (induction w arbitrary: i)
  case (Cons c w)
  then show ?case by (fastforce simp: I_incr_Ret at_pos_step split: if_splits)
qed simp

lemma mismatch_throw:
  "mismatch_loop t w i = Throw j \<Longrightarrow> at_pos t i \<Longrightarrow> at_pos t j \<and> i_x i \<le> i_x j \<and> I_atEnd t j"
proof (induction w arbitrary: i)
  case (Cons c w)
  then show ?case
    by (cases "I_atEnd t i") (fastforce simp: I_deref_def I_incr_def at_pos_step split: if_splits)+
qed simp

lemma spans_ParseLiteral: "at_pos t i \<Longrightarrow> gives (spans t i) (ParseLiteral_parse t w i s)"
  unfolding ParseLiteral_parse_def catch_end_def
  by (auto dest: mismatch_span mismatch_throw split: outcome.split option.split)

lemma identifier_loop_span:
  "identifier_loop n t i = Ret e \<Longrightarrow> at_pos t i \<Longrightarrow> at_pos t e \<and> i_x i \<le> i_x e"
proof (induction n arbitrary: i)
  case (Suc n)
  then show ?case by (fastforce simp: I_incr_Ret at_pos_step split: if_splits)
qed simp

lemma spans_ParseIdentifier: "at_pos t i \<Longrightarrow> gives (spans t i) (ParseIdentifier_parse n t i s)"
  unfolding ParseIdentifier_parse_def
  by (auto intro!: gives_pure simp: I_incr_Ret at_pos_step
      dest!: identifier_loop_span [OF _ at_pos_step])

lemma spans_ParseHash: "at_pos t i \<Longrightarrow> gives (spans t i) (ParseHash_parse t i s)"
  unfolding ParseHash_parse_def by (auto intro!: gives_pure simp: I_incr_Ret at_pos_step)

lemma spans_ParseEndOfFile: "at_pos t i \<Longrightarrow> gives (spans t i) (ParseEndOfFile_parse t i s)"
  unfolding ParseEndOfFile_parse_def
  by (auto intro!: gives_pure simp: composite_def leaf_def)

lemma spans_NamedParser:
  assumes "calls_span t P" "at_pos t i"
  shows "gives (spans t i) (NamedParser_parse P y x i s)"
proof -
  have named: "item = composite y irs" if "construct y irs = Ret item" for irs item
    using that by (auto simp: construct_def split: option.splits)
  show ?thesis unfolding NamedParser_parse_def
    by (rule spans_call [OF assms order_refl])
      (auto intro!: gives_pure dest!: named simp: tree_ok_composite tiles_hd tiles_last tiles_singleton)
qed

lemma delimiter_loop_span:
  "delimiter_loop k t i = Ret (e, d) \<Longrightarrow> at_pos t i \<Longrightarrow> at_pos t e \<and> i_x i \<le> i_x e"
proof (induction k arbitrary: i)
  case (Suc k)
  then show ?case by (fastforce simp: I_incr_Ret at_pos_step split: if_splits)
qed simp

lemma delimiter_loop_throw:
  "delimiter_loop k t i = Throw j \<Longrightarrow> at_pos t i \<Longrightarrow> at_pos t j \<and> i_x i \<le> i_x j \<and> I_atEnd t j"
proof (induction k arbitrary: i)
  case (Suc k)
  then show ?case
    by (cases "I_atEnd t i") (fastforce simp: I_deref_def I_incr_def at_pos_step split: if_splits)+
qed simp

lemma obind_eq_Throw: "obind m f = Throw e \<longleftrightarrow> m = Throw e \<or> (\<exists>x. m = Ret x \<and> f x = Throw e)"
  by (cases m) simp_all

lemma raw_delimiter_span:
  "raw_delimiter t i = Ret (e, d) \<Longrightarrow> at_pos t i \<Longrightarrow> at_pos t e \<and> i_x i \<le> i_x e"
  by (auto simp: raw_delimiter_def dest: delimiter_loop_span split: option.splits)

lemma raw_delimiter_throw:
  "raw_delimiter t i = Throw j \<Longrightarrow> at_pos t i \<Longrightarrow> at_pos t j \<and> i_x i \<le> i_x j \<and> I_atEnd t j"
  by (auto simp: raw_delimiter_def obind_eq_Throw I_deref_Throw
      dest: delimiter_loop_span delimiter_loop_throw split: option.splits)

lemma gives_catch:
  assumes "\<And>a. m = Ret a \<Longrightarrow> gives G (f a)" "\<And>j. m = Throw j \<Longrightarrow> G (Failed (EndOfInput j))"
  shows "gives G (catch_end s m f)"
  using assms by (cases m) (simp_all add: catch_end_def)

lemma spans_raw_tail:
  assumes "calls_span t P" "at_pos t j" "i_x i \<le> i_x j"
  shows "gives (spans t i) (obind (P (ParseUntil l) j s) (\<lambda>(rr, s). case rr of
      Failed x \<Rightarrow> Ret (Failed (mk_Exception k (ex_at x) False), s)
    | Parsed _ e \<Rightarrow> obind (P l e s) (\<lambda>(rrr, s). case rrr of Failed _ \<Rightarrow> Abort
        | Parsed _ e' \<Rightarrow> Ret (Parsed [leaf i e'] e', s))))"
proof (rule spans_call [OF assms])
  fix irs e s
  assume e: "at_pos t e" "tiles irs j e"
  then have le: "i_x i \<le> i_x e" using assms(3) tiles_le by fastforce
  show "gives (spans t i) (case (Parsed irs e, s) of (rr, s) \<Rightarrow> (case rr of
      Failed x \<Rightarrow> Ret (Failed (mk_Exception k (ex_at x) False), s)
    | Parsed _ e \<Rightarrow> obind (P l e s) (\<lambda>(rrr, s). case rrr of Failed _ \<Rightarrow> Abort
        | Parsed _ e' \<Rightarrow> Ret (Parsed [leaf i e'] e', s))))"
    using tiles_le le by (auto intro!: spans_call [OF assms(1) e(1) le] simp: tiles_singleton dest: tiles_le)
qed (auto dest: spans_FailedD)

lemma spans_raw:
  assumes "calls_span t P" "at_pos t i"
  shows "gives (spans t i) (ParseRawStringLiteral_parse t P i s)"
proof -
  have "gives (spans t i) (catch_end s (raw_delimiter t b) (\<lambda>(j, bad). case bad of
      Some k \<Rightarrow> Ret (Failed (mk_Exception k j False), s)
    | None \<Rightarrow> let l = parseLiteral (raw_end t b j) in obind (P (ParseUntil l) j s) (\<lambda>(rr, s). case rr of
        Failed x \<Rightarrow> Ret (Failed (mk_Exception (EndDelimeterNotFound (raw_end t b j)) (ex_at x) False), s)
      | Parsed _ e \<Rightarrow> obind (P l e s) (\<lambda>(rrr, s). case rrr of Failed _ \<Rightarrow> Abort
          | Parsed _ e' \<Rightarrow> Ret (Parsed [leaf i e'] e', s)))))"
    if b: "at_pos t b" "tiles irs i b" for b irs s
  proof (rule gives_catch)
    have le: "i_x i \<le> i_x b" using b by (simp add: tiles_le)
    fix a
    assume a: "raw_delimiter t b = Ret a"
    obtain j bad where jb: "a = (j, bad)" by fastforce
    have j: "at_pos t j" "i_x i \<le> i_x j" using raw_delimiter_span a jb b(1) le by fastforce+
    then show "gives (spans t i) (case a of (j, bad) \<Rightarrow> (case bad of
        Some k \<Rightarrow> Ret (Failed (mk_Exception k j False), s)
      | None \<Rightarrow> let l = parseLiteral (raw_end t b j) in obind (P (ParseUntil l) j s) (\<lambda>(rr, s). case rr of
          Failed x \<Rightarrow> Ret (Failed (mk_Exception (EndDelimeterNotFound (raw_end t b j)) (ex_at x) False), s)
        | Parsed _ e \<Rightarrow> obind (P l e s) (\<lambda>(rrr, s). case rrr of Failed _ \<Rightarrow> Abort
            | Parsed _ e' \<Rightarrow> Ret (Parsed [leaf i e'] e', s)))))"
      by (simp add: jb Let_def spans_raw_tail [OF assms(1)] split: option.split)
  next
    fix j
    assume "raw_delimiter t b = Throw j"
    then show "spans t i (Failed (EndOfInput j))"
      using raw_delimiter_throw [of t b j] b tiles_le [OF b(2)] by simp
  qed
  then show ?thesis unfolding ParseRawStringLiteral_parse_def
    by (intro spans_call [OF assms order_refl]) auto
qed

text \<open>A turn of the loop of \<^verbatim>\<open>ParseBalanced\<close> moves forward.\<close>

definition skip_span :: "string \<Rightarrow> I \<Rightarrow> I \<Rightarrow> Exception + I \<Rightarrow> bool" where
  "skip_span t b i k \<longleftrightarrow>
     (case k of Inl x \<Rightarrow> spans t b (Failed x) | Inr e \<Rightarrow> at_pos t e \<and> i_x i \<le> i_x e)"

lemma skip_span_simps [simp]:
  "skip_span t b i (Inl x) \<longleftrightarrow> spans t b (Failed x)"
  "skip_span t b i (Inr e) \<longleftrightarrow> at_pos t e \<and> i_x i \<le> i_x e"
  by (simp_all add: skip_span_def)

lemma spans_skip_parsed:
  assumes "calls_span t V" "at_pos t i" "i_x b \<le> i_x i"
  shows "gives (skip_span t b i) (skip_parsed V p i s)"
  unfolding skip_parsed_def by (rule spans_call [OF assms]) (auto dest: tiles_le)

lemma spans_skip_char:
  "at_pos t i \<Longrightarrow> gives (skip_span t b i) (skip_char t i s)"
  unfolding skip_char_def by (auto intro!: gives_pure simp: I_incr_Ret at_pos_step)

lemma spans_skip_comment:
  assumes "calls_span t V" "at_pos t i" "i_x b \<le> i_x i"
  shows "gives (skip_span t b i) (skip_comment t V i s)"
  unfolding skip_comment_def
  by (rule spans_call [OF assms]) (auto dest: tiles_le intro: spans_skip_char assms)

lemma spans_skip_nested:
  assumes "calls_span t V" "at_pos t i" "i_x b \<le> i_x i"
  shows "gives (skip_span t b i) (skip_nested t V cl a i s)"
  unfolding skip_nested_def
proof (rule gives_pure)
  fix j
  assume "I_incr t i = Ret j"
  then have j: "at_pos t j" "i_x j = Suc (i_x i)" using assms(2) by (auto simp: I_incr_Ret at_pos_step)
  then have le: "i_x b \<le> i_x j" using assms(3) by simp
  show "gives (skip_span t b i) (obind (V (balanced (parseOneOfChars cl) a) j s) (\<lambda>(r, s).
      case r of Failed x \<Rightarrow> Ret (Inl x, s)
      | Parsed _ e \<Rightarrow> obind (I_incr t e) (\<lambda>e. Ret (Inr e, s))))"
    by (rule spans_call [OF assms(1) j(1) le])
      (use j in \<open>auto intro!: gives_pure simp: I_incr_Ret at_pos_step dest!: tiles_le\<close>)
qed

lemma spans_balanced_step:
  assumes "calls_span t V" "at_pos t i" "i_x b \<le> i_x i"
  shows "gives (skip_span t b i) (balanced_step t V a i s)"
  unfolding balanced_step_def
  by (auto intro!: gives_pure spans_skip_parsed [OF assms] spans_skip_nested [OF assms]
      spans_skip_comment [OF assms] spans_skip_char [OF assms(2)])

lemma spans_balanced_loop:
  assumes "calls_span t V"
  shows "at_pos t e \<Longrightarrow> i_x b \<le> i_x e \<Longrightarrow> gives (spans t b) (balanced_loop n t V u a b e s)"
proof (induction n arbitrary: e s)
  case (Suc n)
  have step: "gives (spans t b) (obind (balanced_step t V a e s') (\<lambda>(k, s). case k of
      Inl x \<Rightarrow> Ret (Failed x, s) | Inr e \<Rightarrow> balanced_loop n t V u a b e s))" for s'
    by (rule gives_obind [OF spans_balanced_step [OF assms Suc.prems]])
      (use Suc in \<open>auto split: sum.split\<close>)
  show ?case unfolding balanced_loop.simps
    by (rule spans_call [OF assms Suc.prems]) (use Suc.prems step in \<open>auto simp: tiles_singleton\<close>)
qed simp

lemma spans_body:
  assumes P: "calls_span t P" and V: "calls_span t V"
  shows "calls_span t (parse_body n ae t P V)"
  unfolding calls_give_def
proof (intro allI impI)
  fix p i s
  assume i: "at_pos t i"
  show "gives (spans t i) (parse_body n ae t P V p i s)" unfolding parse_body_def
    by (cases p)
      (use calls_giveD [OF P i] calls_giveD [OF V i] in \<open>simp_all add: spans_Optional [OF P i]
        spans_zeroOrMore [OF P i] spans_ParseAnd [OF P i] spans_or_loop [OF P i] spans_ParseNot [OF P i]
        spans_list_loop [OF P i] spans_ntom_loop [OF P i] spans_until_loop [OF V i]
        spans_specific_until [OF V i] spans_one_char [OF i] spans_ParseLiteral [OF i]
        spans_ParseIdentifier [OF i] spans_ParseHash [OF i] spans_ParseEndOfFile [OF i]
        spans_NamedParser [OF P i] spans_raw [OF P i] spans_balanced_loop [OF V i]
        ParseAnyChar_parse_def ParseOneOfChars_parse_def ParseOneOfChars2_parse_def
        ParseAnyCharExcept_parse_def ParseCharInRange_parse_def\<close>)
qed

lemma impl_spans: "calls_span t (plain_impl ae t n)"
  by (rule plain_gives(1)) (auto intro: spans_body)

lemma parse_spans: "calls_span t (plain_parse ae t n)"
  by (rule plain_gives(2)) (auto intro: spans_body)

end
