(* ===== verification/HcpProgress.thy ===== *)
theory HcpProgress
  imports HcpSpans
begin

text \<open>
  Facts about the successes of a parser that can be read off its structure: whether it consumes
  something whenever it succeeds (\<open>consumes\<close>), whether its items are sure to include one of a given
  type (\<open>contains\<close>), and where a few special forms stop (\<open>shape\<close>).  For the static parsers of the
  grammar, which refer to each other, \<open>eats\<close> is a table that is checked against their objects.
\<close>

definition may_be_empty :: "static list" where
  "may_be_empty =
     [S_eatWhite, S_s_chars, S_cv, S_function_qualifiers, S_function_post_qualifiers,
      S_not_function_proto, S_file]"

definition eats :: "static \<Rightarrow> bool" where
  "eats k \<longleftrightarrow> k \<notin> set may_be_empty"

fun consumes :: "parser \<Rightarrow> bool" where
  "consumes (Static k) = eats k"
| "consumes (ParseAnd ps) = list_ex consumes ps"
| "consumes (ParseOr ps) = list_all consumes ps"
| "consumes ParseAnyChar = True"
| "consumes (ParseOneOfChars cs) = True"
| "consumes (ParseOneOfChars2 cs) = True"
| "consumes (ParseAnyCharExcept cs) = True"
| "consumes (ParseCharInRange a b) = True"
| "consumes (ParseLiteral w) = (w \<noteq> [])"
| "consumes ParseIdentifier = True"
| "consumes ParseHash = True"
| "consumes ParseRawStringLiteral = True"
| "consumes (AnonParser name x) = consumes x"
| "consumes (NamedParser t name x) = consumes x"
| "consumes (NonEmptyListOf x m) = consumes x"
| "consumes (NToM l m x) = (l > 0 \<and> m > 0 \<and> consumes x)"
| "consumes VarFpBackref = eats S_var_fp"
| "consumes (SelfParser k) = eats k"
| "consumes (ParseClass tp p) = (consumes tp \<and> consumes p)"
| "consumes p = False"

fun contains :: "item_type \<Rightarrow> parser \<Rightarrow> bool" where
  "contains y (ParseAnd ps) = list_ex (contains y) ps"
| "contains y (ParseOr ps) = list_all (contains y) ps"
| "contains y (AnonParser name x) = contains y x"
| "contains y (NamedParser t name x) = (t = y)"
| "contains y p = False"

lemma list_ex_consumes_terms [simp]: "list_ex consumes (and_terms p) = consumes p"
  by (cases p) simp_all

lemma list_all_consumes_terms [simp]: "list_all consumes (or_terms p) = consumes p"
  by (cases p) simp_all

lemma list_ex_contains_terms [simp]: "list_ex (contains y) (and_terms p) = contains y p"
  by (cases p) simp_all

lemma list_all_contains_terms [simp]: "list_all (contains y) (or_terms p) = contains y p"
  by (cases p) simp_all

lemma consumes_plus [simp]: "consumes (parser_plus a b) \<longleftrightarrow> consumes a \<or> consumes b"
  and consumes_or [simp]: "consumes (parser_or a b) \<longleftrightarrow> consumes a \<and> consumes b"
  and contains_plus [simp]: "contains y (parser_plus a b) \<longleftrightarrow> contains y a \<or> contains y b"
  and contains_or [simp]: "contains y (parser_or a b) \<longleftrightarrow> contains y a \<and> contains y b"
  by (simp_all add: parser_plus_def parser_or_def)

lemmas builder_defs = seq_def alt_def atLeastOne_def listOf_def listOf3_def

lemma eats_object: "eats k \<Longrightarrow> consumes (static_object k)"
  by (cases k) (simp_all add: eats_def may_be_empty_def static_object_defs grammar_defs builder_defs)

section \<open>What the facts mean\<close>

definition shape :: "string \<Rightarrow> parser \<Rightarrow> I \<Rightarrow> parse_result \<Rightarrow> bool" where
  "shape t p i r \<longleftrightarrow>
     (case p of
        ParseOneOfChars cs \<Rightarrow> (\<exists>irs e. r = Parsed irs e) \<longrightarrow> \<not> I_atEnd t i
      | ParseLiteral w \<Rightarrow> (\<exists>irs e. r = Parsed irs e) \<longleftrightarrow> lookingAt t i w
      | ParseUntil (ParseLiteral w) \<Rightarrow> (\<forall>irs e. r = Parsed irs e \<longrightarrow> lookingAt t e w)
      | ParseBalanced (ParseOneOfChars cs) a \<Rightarrow> (\<forall>irs e. r = Parsed irs e \<longrightarrow> \<not> I_atEnd t e)
      | _ \<Rightarrow> True)"

definition progress :: "parser \<Rightarrow> I \<Rightarrow> parse_result \<Rightarrow> bool" where
  "progress p i r \<longleftrightarrow>
     (\<forall>irs e. r = Parsed irs e \<longrightarrow>
        (consumes p \<longrightarrow> i_x i < i_x e) \<and> (\<forall>y. contains y p \<longrightarrow> list_ex (isA y) irs))"

definition facts :: "string \<Rightarrow> parser \<Rightarrow> I \<Rightarrow> parse_result \<Rightarrow> bool" where
  "facts t p i r \<longleftrightarrow> spans t i r \<and> progress p i r \<and> shape t p i r"

lemma progress_Failed [simp]: "progress p i (Failed x)"
  by (simp add: progress_def)

lemma progress_Parsed:
  "progress p i (Parsed irs e) \<longleftrightarrow>
     (consumes p \<longrightarrow> i_x i < i_x e) \<and> (\<forall>y. contains y p \<longrightarrow> list_ex (isA y) irs)"
  by (simp add: progress_def)

lemma facts_context: "facts t p i r \<Longrightarrow> facts t p i (result_context p i r)"
  by (cases r) (auto simp: facts_def result_context_def shape_def progress_def addContext_def
      spans_Failed split: parser.splits)

text \<open>A call on another parser, for a parse that began at \<open>b\<close>.\<close>

lemma facts_call:
  assumes "calls_give t (facts t) P" "at_pos t i"
    and "\<And>irs e s. at_pos t e \<Longrightarrow> tiles irs i e \<Longrightarrow> i_x i \<le> i_x e \<Longrightarrow> progress p i (Parsed irs e) \<Longrightarrow>
           shape t p i (Parsed irs e) \<Longrightarrow> gives G (f (Parsed irs e, s))"
    and "\<And>x s. shape t p i (Failed x) \<Longrightarrow> gives G (f (Failed x, s))"
  shows "gives G (obind (P p i s) f)"
proof (rule gives_call [OF assms(1,2)])
  show "gives G (f (Parsed irs e, s))" if "facts t p i (Parsed irs e)" for irs e s
    using that tiles_le [of irs i e] by (intro assms(3)) (simp_all add: facts_def)
  show "gives G (f (Failed x, s))" if "facts t p i (Failed x)" for x s
    using that by (intro assms(4)) (simp add: facts_def)
qed

section \<open>The bodies\<close>

text \<open>That a run which began at \<open>b\<close> ends with \<open>irs\<close> at \<open>e\<close>, further on if \<open>c\<close>, and with items of
  the types \<open>Y\<close>.\<close>

definition advances :: "bool \<Rightarrow> item_type set \<Rightarrow> I \<Rightarrow> parse_result \<Rightarrow> bool" where
  "advances c Y b r \<longleftrightarrow>
     (\<forall>irs e. r = Parsed irs e \<longrightarrow>
        i_x b \<le> i_x e \<and> (c \<longrightarrow> i_x b < i_x e) \<and> (\<forall>y \<in> Y. list_ex (isA y) irs))"

lemma advances_simps [simp]:
  "advances c Y b (Failed x)"
  "advances c Y b (Parsed irs e) \<longleftrightarrow>
     i_x b \<le> i_x e \<and> (c \<longrightarrow> i_x b < i_x e) \<and> (\<forall>y \<in> Y. list_ex (isA y) irs)"
  by (simp_all add: advances_def)

lemma progress_advances: "advances (consumes p) {y. contains y p} i r \<Longrightarrow> progress p i r"
  by (cases r) (auto simp: progress_Parsed)

lemma progress_and_loop:
  assumes "calls_give t (facts t) P"
  shows "at_pos t i \<Longrightarrow> i_x b \<le> i_x i \<Longrightarrow>
     gives (advances (i_x b < i_x i \<or> list_ex consumes ps)
         {y. list_ex (isA y) irs \<or> list_ex (contains y) ps} b)
       (and_loop ae P ps irs i s)"
proof (induction ps arbitrary: irs i s)
  case (Cons p ps)
  show ?case unfolding and_loop.simps
  proof (rule facts_call [OF assms Cons.prems(1)])
    fix xs e s
    assume e: "at_pos t e" "i_x i \<le> i_x e" and p: "progress p i (Parsed xs e)"
    show "gives (advances (i_x b < i_x i \<or> list_ex consumes (p # ps))
        {y. list_ex (isA y) irs \<or> list_ex (contains y) (p # ps)} b)
      (case (Parsed xs e, s) of (r, s) \<Rightarrow> (case r of Parsed xs e \<Rightarrow> and_loop ae P ps (irs @ xs) e s
         | Failed x \<Rightarrow> Ret (Failed (atEnd_context ae irs x), s)))"
      using e p Cons.prems
      by (auto intro!: gives_mono [OF Cons.IH [of e "irs @ xs" s]] simp: advances_def progress_Parsed)
  qed simp
qed auto

lemma progress_ParseAnd:
  assumes "calls_give t (facts t) P" "at_pos t i"
  shows "gives (progress (ParseAnd ps) i) (ParseAnd_parse ae P ps i s)"
proof (cases ps)
  case (Cons p qs)
  show ?thesis unfolding Cons ParseAnd_parse.simps
  proof (rule facts_call [OF assms])
    fix xs e s
    assume e: "at_pos t e" "i_x i \<le> i_x e" and p: "progress p i (Parsed xs e)"
    show "gives (progress (ParseAnd (p # qs)) i)
      (case (Parsed xs e, s) of (r, s) \<Rightarrow> (case r of Parsed xs e \<Rightarrow> and_loop ae P qs xs e s
         | Failed x \<Rightarrow> Ret (Failed x, s)))"
      using p by (auto intro!: gives_mono [OF progress_and_loop [OF assms(1) e]]
          simp: advances_def progress_def)
  qed simp
qed simp

lemma progress_or_loop:
  assumes "calls_give t (facts t) P" "at_pos t i"
  shows "\<forall>p \<in> set ps. (c \<longrightarrow> consumes p) \<and> Y \<subseteq> {y. contains y p} \<Longrightarrow>
     gives (advances c Y i) (or_loop P ps fs i s)"
proof (induction ps arbitrary: fs s)
  case Nil
  then show ?case by (auto split: option.split)
next
  case (Cons p ps)
  show ?case unfolding or_loop.simps
    by (rule facts_call [OF assms]) (use Cons in \<open>auto simp: progress_Parsed\<close>)
qed

lemma progress_zeroOrMore:
  "gives (progress (ParseZeroOrMore x) i) m" "gives (progress (Optional x) i) m"
  "gives (progress (ParseNot x) i) m" "gives (progress (ParseUntil x) i) m"
  "gives (progress (ParseSpecificUntil q x) i) m" "gives (progress (ParseBalanced x a) i) m"
  "gives (progress ParseEndOfFile i) m"
  by (simp_all add: progress_def gives_def)

lemma progress_list_loop:
  assumes "calls_give t (facts t) P"
  shows "at_pos t i \<Longrightarrow> i_x b \<le> i_x i \<Longrightarrow>
     gives (advances (i_x b < i_x i \<or> consumes x) {} b) (list_loop n ae P x m irs i s)"
proof (induction n arbitrary: irs i s)
  case (Suc n)
  have more: "gives (advances (i_x b < i_x i \<or> consumes x) {} b)
      (obind (P m j s') (\<lambda>(r, s). case r of Failed _ \<Rightarrow> Ret (Parsed (irs @ xs) j, s)
         | Parsed ms i \<Rightarrow> list_loop n ae P x m (irs @ xs @ ms) i s))"
    if j: "at_pos t j" "i_x i \<le> i_x j" "consumes x \<longrightarrow> i_x i < i_x j" for xs j s'
  proof (rule facts_call [OF assms j(1)])
    fix ms k s
    assume "at_pos t k" "i_x j \<le> i_x k"
    then show "gives (advances (i_x b < i_x i \<or> consumes x) {} b)
      (case (Parsed ms k, s) of (r, s) \<Rightarrow> (case r of Failed _ \<Rightarrow> Ret (Parsed (irs @ xs) j, s)
         | Parsed ms i \<Rightarrow> list_loop n ae P x m (irs @ xs @ ms) i s))"
      using j Suc.prems by (auto intro!: gives_mono [OF Suc.IH] simp: advances_def)
  qed (use j Suc.prems in auto)
  show ?case unfolding list_loop.simps
    by (rule facts_call [OF assms Suc.prems(1)]) (use more in \<open>auto simp: progress_Parsed\<close>)
qed simp

lemma progress_ntom_loop:
  assumes "calls_give t (facts t) P"
  shows "at_pos t i \<Longrightarrow> i_x b \<le> i_x i \<Longrightarrow>
     gives (advances (i_x b < i_x i \<or> got < n \<and> k > 0 \<and> consumes x) {} b) (ntom_loop k P n got x irs i s)"
proof (induction k arbitrary: got irs i s)
  case (Suc k)
  show ?case unfolding ntom_loop.simps
  proof (rule facts_call [OF assms Suc.prems(1)])
    fix xs e s
    assume "at_pos t e" "i_x i \<le> i_x e" "progress x i (Parsed xs e)"
    then show "gives (advances (i_x b < i_x i \<or> got < n \<and> Suc k > 0 \<and> consumes x) {} b)
      (case (Parsed xs e, s) of (r, s) \<Rightarrow> (case r of Parsed xs e \<Rightarrow> ntom_loop k P n (got + 1) x (irs @ xs) e s
       | Failed e \<Rightarrow> if got \<ge> n then Ret (Parsed irs i, s)
           else Ret (Failed (mk_Exception (TooFew got) (ex_at e) False), s)))"
      using Suc.prems by (auto intro!: gives_mono [OF Suc.IH] simp: advances_def progress_Parsed)
  qed (use Suc.prems in auto)
qed auto

lemma progress_one_char:
  "(\<And>y. \<not> contains y p) \<Longrightarrow> gives (progress p i) (one_char t f i s)"
  unfolding one_char_def
  by (auto intro!: gives_pure simp: I_incr_Ret progress_Parsed split: option.split)

lemma mismatch_lookingAt:
  "mismatch_loop t w i = Ret (e, d) \<Longrightarrow> at_pos t i \<Longrightarrow>
     i_x e \<le> i_x i + length w \<and> (d = None \<longleftrightarrow> lookingAt t i w) \<and> (d = None \<longrightarrow> i_x e = i_x i + length w)"
proof (induction w arbitrary: i)
  case (Cons c w)
  then show ?case by (fastforce simp: I_incr_Ret I_deref_Ret at_pos_step split: if_splits)
qed simp

lemma mismatch_throw_lookingAt: "mismatch_loop t w i = Throw j \<Longrightarrow> \<not> lookingAt t i w"
proof (induction w arbitrary: i)
  case (Cons c w)
  then show ?case
    by (cases "I_atEnd t i") (auto simp: I_deref_def I_incr_def split: if_splits)
qed simp

lemma mismatch_not_other [simp]:
  "mismatch_loop t w i \<noteq> Abort" "mismatch_loop t w i \<noteq> Undef" "mismatch_loop t w i \<noteq> Diverge"
  by (induction t w i rule: mismatch_loop.induct)
    (auto simp: obind_eq_Abort obind_eq_Undef obind_eq_Diverge)

lemma progress_ParseLiteral:
  "at_pos t i \<Longrightarrow> gives (progress (ParseLiteral w) i) (ParseLiteral_parse t w i s)"
  unfolding ParseLiteral_parse_def
  by (rule gives_catch)
    (auto dest!: mismatch_lookingAt simp: progress_Parsed split: option.split)

lemma shape_ParseLiteral:
  "at_pos t i \<Longrightarrow> gives (shape t (ParseLiteral w) i) (ParseLiteral_parse t w i s)"
  unfolding ParseLiteral_parse_def
  by (rule gives_catch)
    (auto dest!: mismatch_lookingAt mismatch_throw_lookingAt simp: shape_def split: option.split)

lemma progress_ParseIdentifier:
  "at_pos t i \<Longrightarrow> gives (progress ParseIdentifier i) (ParseIdentifier_parse n t i s)"
  unfolding ParseIdentifier_parse_def
  by (auto intro!: gives_pure simp: I_incr_Ret progress_Parsed
      dest!: identifier_loop_span [OF _ at_pos_step])

lemma progress_ParseHash: "gives (progress ParseHash i) (ParseHash_parse t i s)"
  unfolding ParseHash_parse_def by (auto intro!: gives_pure simp: I_incr_Ret progress_Parsed)

lemma consumes_raw_prefix: "consumes raw_prefix"
  by (simp add: raw_prefix_def raw_prefix_r_def alt_def)

lemma progress_raw:
  assumes "calls_give t (facts t) P" "at_pos t i"
  shows "gives (progress ParseRawStringLiteral i) (ParseRawStringLiteral_parse t P i s)"
proof -
  have tail: "gives (progress ParseRawStringLiteral i) (obind (P l e s) (\<lambda>(rrr, s). case rrr of
      Failed _ \<Rightarrow> Abort | Parsed _ e' \<Rightarrow> Ret (Parsed [leaf i e'] e', s)))"
    if "at_pos t e" "i_x i < i_x e" for l e s
    by (rule facts_call [OF assms(1) that(1)]) (use that in \<open>auto simp: progress_Parsed\<close>)
  have "gives (progress ParseRawStringLiteral i) (catch_end s (raw_delimiter t b) (\<lambda>(j, bad). case bad of
      Some k \<Rightarrow> Ret (Failed (mk_Exception k j False), s)
    | None \<Rightarrow> let l = parseLiteral (raw_end t b j) in obind (P (ParseUntil l) j s) (\<lambda>(rr, s). case rr of
        Failed x \<Rightarrow> Ret (Failed (mk_Exception (EndDelimeterNotFound (raw_end t b j)) (ex_at x) False), s)
      | Parsed _ e \<Rightarrow> obind (P l e s) (\<lambda>(rrr, s). case rrr of Failed _ \<Rightarrow> Abort
          | Parsed _ e' \<Rightarrow> Ret (Parsed [leaf i e'] e', s)))))"
    if b: "at_pos t b" "i_x i < i_x b" for b s
  proof (rule gives_catch)
    fix a
    assume a: "raw_delimiter t b = Ret a"
    obtain j bad where jb: "a = (j, bad)" by fastforce
    have j: "at_pos t j" "i_x i < i_x j" using raw_delimiter_span a jb b by fastforce+
    have "gives (progress ParseRawStringLiteral i) (obind (P (ParseUntil l) j s) (\<lambda>(rr, s). case rr of
        Failed x \<Rightarrow> Ret (Failed (mk_Exception k (ex_at x) False), s)
      | Parsed _ e \<Rightarrow> obind (P l e s) (\<lambda>(rrr, s). case rrr of Failed _ \<Rightarrow> Abort
          | Parsed _ e' \<Rightarrow> Ret (Parsed [leaf i e'] e', s))))" for l k
      by (rule facts_call [OF assms(1) j(1)]) (use j tail in auto)
    then show "gives (progress ParseRawStringLiteral i) (case a of (j, bad) \<Rightarrow> (case bad of
        Some k \<Rightarrow> Ret (Failed (mk_Exception k j False), s)
      | None \<Rightarrow> let l = parseLiteral (raw_end t b j) in obind (P (ParseUntil l) j s) (\<lambda>(rr, s). case rr of
          Failed x \<Rightarrow> Ret (Failed (mk_Exception (EndDelimeterNotFound (raw_end t b j)) (ex_at x) False), s)
        | Parsed _ e \<Rightarrow> obind (P l e s) (\<lambda>(rrr, s). case rrr of Failed _ \<Rightarrow> Abort
            | Parsed _ e' \<Rightarrow> Ret (Parsed [leaf i e'] e', s)))))"
      by (simp add: jb Let_def split: option.split)
  qed simp
  then show ?thesis unfolding ParseRawStringLiteral_parse_def
    by (intro facts_call [OF assms]) (auto simp: progress_Parsed consumes_raw_prefix)
qed

lemma construct_composite: "construct y irs = Ret item \<Longrightarrow> item = composite y irs"
  by (auto simp: construct_def split: option.splits)

lemma progress_NamedParser:
  assumes "calls_give t (facts t) P" "at_pos t i"
  shows "gives (progress (NamedParser y name x) i) (NamedParser_parse P y x i s)"
  unfolding NamedParser_parse_def
  by (rule facts_call [OF assms])
    (auto intro!: gives_pure dest!: construct_composite simp: progress_Parsed isA_def)

lemma shape_until_loop:
  assumes "calls_give t (facts t) V"
  shows "at_pos t e \<Longrightarrow>
     gives (shape t (ParseUntil x) b) (until_loop n t V x b e s)"
proof (induction n arbitrary: e s)
  case (Suc n)
  show ?case unfolding until_loop.simps
    by (rule facts_call [OF assms Suc.prems])
      (use Suc in \<open>auto intro!: gives_pure simp: I_incr_Ret at_pos_step shape_def split: parser.split\<close>)
qed simp

lemma balanced_step_at_pos:
  assumes "calls_give t (facts t) V" "at_pos t e"
  shows "gives (\<lambda>k. \<forall>j. k = Inr j \<longrightarrow> at_pos t j) (balanced_step t V a e s)"
proof -
  have "calls_span t V" using assms(1) by (auto simp: calls_give_def gives_def facts_def)
  from spans_balanced_step [OF this assms(2) order_refl] show ?thesis
    by (rule gives_mono) (auto simp: skip_span_def split: sum.splits)
qed

lemma shape_balanced_Failed [simp]: "shape t (ParseBalanced u a) b (Failed x)"
  by (simp add: shape_def split: parser.split)

lemma shape_balanced_loop:
  assumes "calls_give t (facts t) V"
  shows "at_pos t e \<Longrightarrow>
     gives (shape t (ParseBalanced u a) b) (balanced_loop n t V u a b e s)"
proof (induction n arbitrary: e s)
  case (Suc n)
  have step: "gives (shape t (ParseBalanced u a) b) (obind (balanced_step t V a e s') (\<lambda>(k, s). case k of
      Inl x \<Rightarrow> Ret (Failed x, s) | Inr e \<Rightarrow> balanced_loop n t V u a b e s))" for s'
    by (rule gives_obind [OF balanced_step_at_pos [OF assms Suc.prems]])
      (use Suc.IH in \<open>auto split: sum.split\<close>)
  show ?case unfolding balanced_loop.simps
    by (rule facts_call [OF assms Suc.prems])
      (use step in \<open>auto, auto simp: shape_def split: parser.split\<close>)
qed simp

lemma shape_one_char: "gives (shape t (ParseOneOfChars cs) i) (one_char t f i s)"
  unfolding one_char_def
  by (auto intro!: gives_pure simp: shape_def I_incr_Ret split: option.split)

lemma shape_trivial:
  "(\<And>cs. p \<noteq> ParseOneOfChars cs) \<Longrightarrow> (\<And>w. p \<noteq> ParseLiteral w) \<Longrightarrow> (\<And>x. p \<noteq> ParseUntil x) \<Longrightarrow>
     (\<And>u a. p \<noteq> ParseBalanced u a) \<Longrightarrow> shape t p i r"
  by (cases p) (auto simp: shape_def)

lemma gives_shape_trivial:
  "(\<And>cs. p \<noteq> ParseOneOfChars cs) \<Longrightarrow> (\<And>w. p \<noteq> ParseLiteral w) \<Longrightarrow> (\<And>x. p \<noteq> ParseUntil x) \<Longrightarrow>
     (\<And>u a. p \<noteq> ParseBalanced u a) \<Longrightarrow> gives (shape t p i) m"
  unfolding gives_def by (intro allI impI shape_trivial)

lemma shape_body:
  assumes V: "calls_give t (facts t) V" and i: "at_pos t i"
  shows "gives (shape t p i) (parse_body n ae t P V p i s)"
  unfolding parse_body_def
  by (cases p)
    (simp_all add: gives_shape_trivial shape_ParseLiteral [OF i] shape_until_loop [OF V i]
      shape_balanced_loop [OF V i] shape_one_char ParseOneOfChars_parse_def)

lemma progress_body:
  assumes P: "calls_give t (facts t) P" and V: "calls_give t (facts t) V" and i: "at_pos t i"
  shows "gives (progress p i) (parse_body n ae t P V p i s)"
proof -
  have calls: "gives (progress q i) (P q i s)" "gives (progress q i) (V q i s)" for q
    using calls_giveD [OF P i] calls_giveD [OF V i] by (auto simp: gives_def facts_def)
  have V_other: "gives (progress p' i) (V q i s)"
    if "consumes p' \<Longrightarrow> consumes q" "\<And>y. \<not> contains y p'" for q p'
    using that calls(2) [of q] by (auto simp: gives_def progress_def)
  have others: "gives (progress (Static k) i) (V (static_object k) i s)"
    "gives (progress VarFpBackref i) (V var_fp i s)" "gives (progress (SelfParser k) i) (V (Static k) i s)"
    "gives (progress (ParseClass tp q) i) (V (parser_or tp q) i s)" for k tp q
    by (rule V_other; simp add: eats_object)+
  have Anon: "gives (progress (AnonParser name x) i) (P x i s)" for name x
    using calls(1) [of x] by (simp add: gives_def progress_def)
  have Or: "gives (progress (ParseOr ps) i) (or_loop P ps [] i s)" for ps
    by (rule gives_mono [OF progress_or_loop [OF P i] progress_advances]) (auto simp: list_all_iff)
  have ListOf: "gives (progress (NonEmptyListOf x m) i) (list_loop n ae P x m [] i s)" for x m
    by (rule gives_mono [OF progress_list_loop [OF P i order_refl]]) (auto simp: progress_def)
  have NToM: "gives (progress (NToM l m x) i) (ntom_loop m P l 0 x [] i s)" for l m x
    by (rule gives_mono [OF progress_ntom_loop [OF P i order_refl]]) (auto simp: progress_def)
  show ?thesis unfolding parse_body_def
    by (cases p)
      (simp_all add: others progress_zeroOrMore progress_ParseAnd [OF P i] Or Anon
        progress_one_char progress_ParseLiteral [OF i] progress_ParseIdentifier [OF i]
        progress_ParseHash progress_raw [OF P i] progress_NamedParser [OF P i] ListOf NToM
        ParseAnyChar_parse_def ParseOneOfChars_parse_def ParseOneOfChars2_parse_def
        ParseAnyCharExcept_parse_def ParseCharInRange_parse_def)
qed

lemma calls_span_facts: "calls_give t (facts t) P \<Longrightarrow> calls_span t P"
  by (auto simp: calls_give_def gives_def facts_def)

lemma facts_body:
  assumes "calls_give t (facts t) P" "calls_give t (facts t) V"
  shows "calls_give t (facts t) (parse_body n ae t P V)"
proof -
  have "calls_span t (parse_body n ae t P V)"
    using assms by (intro spans_body calls_span_facts)
  then show ?thesis
    using progress_body [OF assms] shape_body [OF assms(2)] unfolding calls_give_def
    by (auto simp: facts_def [abs_def] intro!: gives_conj)
qed

lemma impl_facts: "calls_give t (facts t) (plain_impl ae t n)"
  by (rule plain_gives(1)) (auto intro: facts_body facts_context)

lemma parse_facts: "calls_give t (facts t) (plain_parse ae t n)"
  by (rule plain_gives(2)) (auto intro: facts_body facts_context)

end
