(* ===== verification/HcpTermination.thy ===== *)
theory HcpTermination
  imports HcpProgress
begin

text \<open>
  The parsers of a well-formed grammar end on every text, without a failed assertion or undefined
  behaviour.  Well-formed (\<open>ranked\<close>) means that the body of a repetition consumes something, that sums
  and products are not empty, that an item type which looks for its name is given items with a name,
  and that no static parser calls itself again at the position where it started: the static parsers
  have ranks, and one that can be called before anything is consumed has a smaller rank than its
  caller.  The C++ grammar is well-formed.
\<close>

section \<open>Well-formed parsers\<close>

definition static_order :: "static list" where
  "static_order =
     [S_lineComment, S_blockComment, S_comments, S_eatWhite, S_s_chars, S_stringLiteral,
      S_rawStringLiteral, S_hashInclude, S_hashIncludeImpl, S_hash, S_attributes, S_whitespace,
      S_scoped_name, S_cv, S_type_name, S_type_qual, S_type_ref, S_using_statement, S_enum_name,
      S_scoped_enum_def, S_enum_def, S_enum_decl, S_operator_name, S_destructor_name,
      S_empty_throw, S_throw_list, S_function_qualifiers, S_virt_specifier_seq,
      S_function_post_qualifiers, S_block_open, S_block, S_init_list, S_function_impl,
      S_template_empty_preamble, S_template_preamble, S_function_initialiser, S_post_result_type,
      S_var_initialiser_open, S_var_initialiser_1, S_var_initialiser_2, S_var_initialiser,
      S_var_non_fp, S_var_fp, S_param, S_params, S_function_proto, S_function_decl,
      S_function_def, S_template_function_def, S_base_specifier, S_class_decl, S_typedef_fp,
      S_typedef_statement, S_global_var_def, S_static_var_def, S_extern_var_def,
      S_access_modifier, S_class_def, S_not_function_proto, S_anonymous_namespace,
      S_namespace_def, S_file]"

definition rank :: "static \<Rightarrow> nat" where
  "rank k = Suc (length (takeWhile (\<lambda>j. j \<noteq> k) static_order))"

definition any_rank :: nat where
  "any_rank = 100"

fun ranked :: "nat \<Rightarrow> parser \<Rightarrow> bool"
and ranked_seq :: "nat \<Rightarrow> parser list \<Rightarrow> bool"
and ranked_all :: "nat \<Rightarrow> parser list \<Rightarrow> bool" where
  "ranked r (Static k) = (rank k < r)"
| "ranked r (Optional x) = ranked r x"
| "ranked r (ParseZeroOrMore x) = (ranked r x \<and> consumes x)"
| "ranked r (ParseAnd ps) = (ps \<noteq> [] \<and> ranked_seq r ps)"
| "ranked r (ParseOr ps) = (ps \<noteq> [] \<and> ranked_all r ps)"
| "ranked r (ParseNot x) = ranked r x"
| "ranked r (ParseUntil x) = ranked r x"
| "ranked r (ParseSpecificUntil m x) = (ranked r m \<and> ranked r x \<and> consumes m)"
| "ranked r ParseRawStringLiteral = (0 < r)"
| "ranked r (ParseBalanced u a) =
     (ranked r u \<and> rank S_comments < r \<and> rank S_stringLiteral < r \<and> rank S_rawStringLiteral < r)"
| "ranked r (AnonParser name x) = ranked r x"
| "ranked r (NamedParser t name x) =
     (ranked r x \<and> (case name_tag t of None \<Rightarrow> True | Some n \<Rightarrow> contains n x))"
| "ranked r (NonEmptyListOf x m) = (ranked r x \<and> consumes x \<and> ranked any_rank m)"
| "ranked r (NToM l m x) = ranked r x"
| "ranked r VarFpBackref = (rank S_var_fp < r)"
| "ranked r (SelfParser k) = (rank k < r)"
| "ranked r (ParseClass tp p) = (ranked r tp \<and> ranked r p)"
| "ranked r p = True"
| "ranked_seq r [] = True"
| "ranked_seq r (p # ps) = (ranked r p \<and> ranked_seq (if consumes p then any_rank else r) ps)"
| "ranked_all r [] = True"
| "ranked_all r (p # ps) = (ranked r p \<and> ranked_all r ps)"

lemma ranked_all_iff: "ranked_all r ps \<longleftrightarrow> (\<forall>p \<in> set ps. ranked r p)"
  by (induction ps) simp_all

lemma ranked_or_terms: "ranked r p \<Longrightarrow> ranked_all r (or_terms p) \<and> or_terms p \<noteq> []"
  by (cases p) simp_all

lemma static_objects_ranked: "list_all (\<lambda>k. ranked (rank k) (static_object k)) static_order"
  by code_simp

lemma static_object_ranked: "ranked (rank k) (static_object k)"
proof -
  have "k \<in> set static_order" by (cases k) (simp_all add: static_order_def)
  then show ?thesis using static_objects_ranked by (simp add: list_all_iff)
qed

section \<open>Runs with enough fuel\<close>

text \<open>With enough fuel, for the loops as well as for the nested calls, a run returns, always the
  same.\<close>

definition runs :: "('a \<Rightarrow> bool) \<Rightarrow> (nat \<Rightarrow> nat \<Rightarrow> ('e, 'a \<times> unit) outcome) \<Rightarrow> bool" where
  "runs G F \<longleftrightarrow> (\<exists>a n. G a \<and> (\<forall>k m. n \<le> k \<longrightarrow> n \<le> m \<longrightarrow> F k m = Ret (a, ())))"

lemma runs_Ret [simp]: "G a \<Longrightarrow> runs G (\<lambda>k m. Ret (a, s))"
  by (auto simp: runs_def)

lemma runs_obind:
  assumes "runs H F" "\<And>a. H a \<Longrightarrow> runs G (\<lambda>k m. f k m (a, ()))"
  shows "runs G (\<lambda>k m. obind (F k m) (f k m))"
proof -
  from assms(1) obtain a n where a: "H a" and F: "\<And>k m. n \<le> k \<Longrightarrow> n \<le> m \<Longrightarrow> F k m = Ret (a, ())"
    unfolding runs_def by blast
  from assms(2) [OF a] obtain b n' where b: "G b"
    and f: "\<And>k m. n' \<le> k \<Longrightarrow> n' \<le> m \<Longrightarrow> f k m (a, ()) = Ret (b, ())"
    unfolding runs_def by blast
  have "obind (F k m) (f k m) = Ret (b, ())" if "max n n' \<le> k" "max n n' \<le> m" for k m
    using F f that by simp
  with b show ?thesis unfolding runs_def by blast
qed

lemma runs_pure: "q = Ret a \<Longrightarrow> runs G (\<lambda>k m. f k m a) \<Longrightarrow> runs G (\<lambda>k m. obind q (f k m))"
  by simp

lemma runs_mono: "runs H F \<Longrightarrow> (\<And>a. H a \<Longrightarrow> G a) \<Longrightarrow> runs G F"
  unfolding runs_def by blast

lemma runs_if:
  "(c \<Longrightarrow> runs G F) \<Longrightarrow> (\<not> c \<Longrightarrow> runs G F') \<Longrightarrow> runs G (\<lambda>k m. if c then F k m else F' k m)"
  by (cases c) simp_all

text \<open>A turn of a loop spends a unit of the loop's fuel.\<close>

lemma runs_Suc: "runs G (\<lambda>k m. F (Suc k) m) \<Longrightarrow> runs G F"
  unfolding runs_def
proof (elim exE conjE)
  fix a n
  assume "G a" and F: "\<forall>k m. n \<le> k \<longrightarrow> n \<le> m \<longrightarrow> F (Suc k) m = Ret (a, ())"
  have "F k m = Ret (a, ())" if "Suc n \<le> k" "Suc n \<le> m" for k m
    using F [rule_format, of "k - 1" m] that by (cases k) simp_all
  with \<open>G a\<close> show "\<exists>a n. G a \<and> (\<forall>k m. n \<le> k \<longrightarrow> n \<le> m \<longrightarrow> F k m = Ret (a, ()))" by blast
qed

definition halts :: "bool \<Rightarrow> string \<Rightarrow> parser \<Rightarrow> I \<Rightarrow> bool" where
  "halts ae t p i \<longleftrightarrow> (\<exists>n r. plain_impl ae t n p i () = Ret (r, ()))"

lemma impl_fuel:
  assumes "plain_impl ae t n p i () = Ret (r, ())" "at_pos t i" "n \<le> m"
  shows "plain_impl ae t m p i () = Ret (r, ())"
proof -
  have "sim (on_result t) (no_table.on_table t) (plain_impl ae t n p i ()) (plain_impl ae t m p i ())"
    using no_table.impl_more_fuel [OF assms(3), of t ae] assms(2)
    by (simp add: calls_sim_def plain_impl_def no_table.holds_def no_find_def)
  from simD [OF this assms(1)] show ?thesis by auto
qed

lemma runs_V: "halts ae t p i \<Longrightarrow> at_pos t i \<Longrightarrow> runs (facts t p i) (\<lambda>k m. plain_impl ae t m p i ())"
proof -
  assume "halts ae t p i" and i: "at_pos t i"
  then obtain n r where run: "plain_impl ae t n p i () = Ret (r, ())" unfolding halts_def by blast
  have "facts t p i r" using calls_giveD [OF impl_facts i] run unfolding gives_def by blast
  then show ?thesis unfolding runs_def using impl_fuel [OF run i] by blast
qed

lemma runs_P: "halts ae t p i \<Longrightarrow> at_pos t i \<Longrightarrow> runs (facts t p i) (\<lambda>k m. plain_parse ae t m p i ())"
  unfolding plain_parse_def parse_memo_def no_find_def no_insert_def
  by (simp, rule runs_obind [OF runs_V]) (simp_all add: facts_context)

lemma halts_runs:
  assumes "runs G (\<lambda>k m. parse_body k ae t (plain_parse ae t m) (plain_impl ae t m) p i ())"
  shows "halts ae t p i"
proof -
  from assms obtain r n where
    "parse_body n ae t (plain_parse ae t n) (plain_impl ae t n) p i () = Ret (r, ())"
    unfolding runs_def by blast
  then have "plain_impl ae t (Suc n) p i () = Ret (r, ())"
    by (simp add: plain_impl_def plain_parse_def [abs_def])
  then show ?thesis unfolding halts_def by blast
qed

lemma runs_call_P:
  assumes "halts ae t p i" "at_pos t i"
    and "\<And>irs e. at_pos t e \<Longrightarrow> i_x i \<le> i_x e \<Longrightarrow> progress p i (Parsed irs e) \<Longrightarrow>
           shape t p i (Parsed irs e) \<Longrightarrow> runs G (\<lambda>k m. f k m (Parsed irs e, ()))"
    and "\<And>x. shape t p i (Failed x) \<Longrightarrow> runs G (\<lambda>k m. f k m (Failed x, ()))"
  shows "runs G (\<lambda>k m. obind (plain_parse ae t m p i ()) (f k m))"
proof (rule runs_obind [OF runs_P [OF assms(1,2)]])
  show "runs G (\<lambda>k m. f k m (r, ()))" if "facts t p i r" for r
    using that assms(3,4) by (cases r) (auto simp: facts_def dest: tiles_le)
qed

lemma runs_call_V:
  assumes "halts ae t p i" "at_pos t i"
    and "\<And>irs e. at_pos t e \<Longrightarrow> i_x i \<le> i_x e \<Longrightarrow> progress p i (Parsed irs e) \<Longrightarrow>
           shape t p i (Parsed irs e) \<Longrightarrow> runs G (\<lambda>k m. f k m (Parsed irs e, ()))"
    and "\<And>x. shape t p i (Failed x) \<Longrightarrow> runs G (\<lambda>k m. f k m (Failed x, ()))"
  shows "runs G (\<lambda>k m. obind (plain_impl ae t m p i ()) (f k m))"
proof (rule runs_obind [OF runs_V [OF assms(1,2)]])
  show "runs G (\<lambda>k m. f k m (r, ()))" if "facts t p i r" for r
    using that assms(3,4) by (cases r) (auto simp: facts_def dest: tiles_le)
qed

abbreviation returns :: "(nat \<Rightarrow> nat \<Rightarrow> ('e, 'a \<times> unit) outcome) \<Rightarrow> bool" where
  "returns \<equiv> runs (\<lambda>_. True)"

section \<open>The bodies\<close>

text \<open>A parser that returns from every position on.\<close>

definition halts_from :: "bool \<Rightarrow> string \<Rightarrow> parser \<Rightarrow> I \<Rightarrow> bool" where
  "halts_from ae t p i \<longleftrightarrow> (\<forall>j. at_pos t j \<longrightarrow> i_x i \<le> i_x j \<longrightarrow> halts ae t p j)"

lemma halts_fromD: "halts_from ae t p i \<Longrightarrow> at_pos t j \<Longrightarrow> i_x i \<le> i_x j \<Longrightarrow> halts ae t p j"
  by (simp add: halts_from_def)

lemma runs_Optional:
  "halts ae t x i \<Longrightarrow> at_pos t i \<Longrightarrow> returns (\<lambda>k m. Optional_parse (plain_parse ae t m) x i ())"
  unfolding Optional_parse_def by (rule runs_call_P) simp_all

lemma runs_ParseNot:
  "halts ae t x i \<Longrightarrow> at_pos t i \<Longrightarrow> returns (\<lambda>k m. ParseNot_parse (plain_parse ae t m) x i ())"
  unfolding ParseNot_parse_def by (rule runs_call_P) simp_all

lemma runs_zeroOrMore:
  assumes "consumes x" "halts_from ae t x b"
  shows "at_pos t i \<Longrightarrow> i_x b \<le> i_x i \<Longrightarrow>
     returns (\<lambda>k m. zeroOrMore_loop k (plain_parse ae t m) x irs i ())"
proof (induction "length t - i_x i" arbitrary: i irs rule: less_induct)
  case less
  show ?case
  proof (rule runs_Suc, unfold zeroOrMore_loop.simps, rule runs_call_P)
    fix xs e
    assume e: "at_pos t e" "i_x i \<le> i_x e" "progress x i (Parsed xs e)"
    then have "i_x i < i_x e" using assms(1) by (simp add: progress_Parsed)
    then have "length t - i_x e < length t - i_x i" using at_pos_le [OF e(1)] by simp
    then show "returns (\<lambda>k m. case (Parsed xs e, ()) of (r, s) \<Rightarrow> (case r of
        Parsed xs e \<Rightarrow> zeroOrMore_loop k (plain_parse ae t m) x (irs @ xs) e s
      | Failed _ \<Rightarrow> Ret (Parsed irs i, s)))"
      using less e by simp
  qed (use less.prems assms(2) in \<open>auto intro: halts_fromD\<close>)
qed

lemma runs_specific_until:
  assumes "consumes q" "halts_from ae t q b" "halts_from ae t x b"
  shows "at_pos t i \<Longrightarrow> i_x b \<le> i_x i \<Longrightarrow>
     returns (\<lambda>k m. specific_until_loop k ae (plain_impl ae t m) q x irs i ())"
proof (induction "length t - i_x i" arbitrary: i irs rule: less_induct)
  case less
  have q: "returns (\<lambda>k m. obind (plain_impl ae t m q i ()) (\<lambda>(r, s). case r of
      Failed e \<Rightarrow> Ret (Failed (atEnd_context ae irs e), s)
    | Parsed xs e \<Rightarrow> specific_until_loop k ae (plain_impl ae t m) q x (irs @ xs) e s))"
  proof (rule runs_call_V)
    fix xs e
    assume e: "at_pos t e" "i_x i \<le> i_x e" "progress q i (Parsed xs e)"
    then have "i_x i < i_x e" using assms(1) by (simp add: progress_Parsed)
    then have "length t - i_x e < length t - i_x i" using at_pos_le [OF e(1)] by simp
    then show "returns (\<lambda>k m. case (Parsed xs e, ()) of (r, s) \<Rightarrow> (case r of
        Failed e \<Rightarrow> Ret (Failed (atEnd_context ae irs e), s)
      | Parsed xs e \<Rightarrow> specific_until_loop k ae (plain_impl ae t m) q x (irs @ xs) e s))"
      using less e by simp
  qed (use less.prems assms(2) in \<open>auto intro: halts_fromD\<close>)
  show ?case
    by (rule runs_Suc, unfold specific_until_loop.simps, rule runs_call_V)
      (use less.prems assms(3) q in \<open>auto intro: halts_fromD\<close>)
qed

lemma runs_until_loop:
  assumes "halts_from ae t x b"
  shows "at_pos t e \<Longrightarrow> i_x b \<le> i_x e \<Longrightarrow> returns (\<lambda>k m. until_loop k t (plain_impl ae t m) x c e ())"
proof (induction "length t - i_x e" arbitrary: e rule: less_induct)
  case less
  have "returns (\<lambda>k m. if I_atEnd t e then Ret (Failed (EndOfInput e), ())
      else obind (I_incr t e) (\<lambda>e. until_loop k t (plain_impl ae t m) x c e ()))"
  proof (cases "I_atEnd t e")
    case False
    then have "length t - i_x (I_step t e) < length t - i_x e"
      using at_pos_less [OF less.prems(1)] by simp
    then have "returns (\<lambda>k m. until_loop k t (plain_impl ae t m) x c (I_step t e) ())"
      using less.hyps less.prems False by (simp add: at_pos_step)
    then show ?thesis using False by (simp add: I_incr_def)
  qed simp
  then show ?case
    by (intro runs_Suc [of _ "\<lambda>k m. until_loop k t (plain_impl ae t m) x c e ()"], unfold until_loop.simps,
        intro runs_call_V)
      (use less.prems assms in \<open>auto intro: halts_fromD\<close>)
qed

text \<open>Where a product stands: still at its start \<open>b\<close>, with the ranks of the start, or further on.\<close>

definition and_ready :: "nat \<Rightarrow> I \<Rightarrow> parser list \<Rightarrow> I \<Rightarrow> bool" where
  "and_ready r b ps i \<longleftrightarrow> i = b \<and> ranked_seq r ps \<or> i_x b < i_x i \<and> (\<exists>r'. ranked_seq r' ps)"

lemma and_ready_next:
  "ranked_seq r' (p # ps) \<Longrightarrow> i_x b < i_x e \<Longrightarrow> and_ready r b ps e"
  unfolding and_ready_def by (rule disjI2) (simp only: ranked_seq.simps, blast)

lemma and_ready_stay:
  "ranked_seq r (p # ps) \<Longrightarrow> \<not> consumes p \<Longrightarrow> and_ready r b ps b"
  unfolding and_ready_def by (rule disjI1) simp

lemma and_ready_cases:
  "and_ready r b ps i \<Longrightarrow> (i = b \<Longrightarrow> ranked_seq r ps \<Longrightarrow> G) \<Longrightarrow>
     (\<And>r'. i_x b < i_x i \<Longrightarrow> ranked_seq r' ps \<Longrightarrow> G) \<Longrightarrow> G"
  unfolding and_ready_def by blast

lemma and_ready_step:
  assumes ready: "and_ready r b (p # ps) i" and "at_pos t b" "at_pos t e" "i_x i \<le> i_x e"
    and p: "progress p i (Parsed irs e)"
  shows "and_ready r b ps e"
  using ready
proof (rule and_ready_cases)
  assume i: "i = b" and seq: "ranked_seq r (p # ps)"
  show ?thesis
  proof (cases "i_x b < i_x e")
    case True
    then show ?thesis using seq by (rule and_ready_next [rotated])
  next
    case False
    then have "e = b" using i assms(2-4) by (intro at_pos_unique [of t]) simp_all
    moreover have "\<not> consumes p" using p False unfolding i progress_Parsed by blast
    ultimately show ?thesis using and_ready_stay [OF seq] by simp
  qed
next
  fix r'
  assume "i_x b < i_x i" "ranked_seq r' (p # ps)"
  then show ?thesis using assms(4) and_ready_next order_less_le_trans by blast
qed

lemma and_ready_hd: "and_ready r b (p # ps) i \<Longrightarrow> ranked r p \<and> i = b \<or> i_x b < i_x i \<and> (\<exists>r'. ranked r' p)"
  by (erule and_ready_cases) (simp, auto)

lemma runs_and_loop:
  assumes later: "\<And>q j r'. at_pos t j \<Longrightarrow> i_x b < i_x j \<Longrightarrow> ranked r' q \<Longrightarrow> halts ae t q j"
    and here: "\<And>q. q \<in> set qs \<Longrightarrow> ranked r q \<Longrightarrow> halts ae t q b"
    and b: "at_pos t b"
  shows "at_pos t i \<Longrightarrow> set ps \<subseteq> set qs \<Longrightarrow> and_ready r b ps i \<Longrightarrow>
     returns (\<lambda>k m. and_loop ae (plain_parse ae t m) ps irs i ())"
proof (induction ps arbitrary: i irs)
  case (Cons p ps)
  have p: "halts ae t p i"
    using and_ready_hd [OF Cons.prems(3)] Cons.prems(2) here [of p] later [OF Cons.prems(1), of _ p] by auto
  show ?case unfolding and_loop.simps
  proof (rule runs_call_P [OF p Cons.prems(1)])
    fix xs e
    assume e: "at_pos t e" "i_x i \<le> i_x e" "progress p i (Parsed xs e)"
    have "and_ready r b ps e" using and_ready_step [OF Cons.prems(3) b e] .
    then show "returns (\<lambda>k m. case (Parsed xs e, ()) of (r, s) \<Rightarrow> (case r of
        Parsed xs e \<Rightarrow> and_loop ae (plain_parse ae t m) ps (irs @ xs) e s
      | Failed x \<Rightarrow> Ret (Failed (atEnd_context ae irs x), s)))"
      using Cons.IH [OF e(1)] Cons.prems(2) by simp
  qed simp
qed simp

lemma runs_ParseAnd:
  assumes later: "\<And>q j r'. at_pos t j \<Longrightarrow> i_x i < i_x j \<Longrightarrow> ranked r' q \<Longrightarrow> halts ae t q j"
    and here: "\<And>q. q \<in> set ps \<Longrightarrow> ranked r q \<Longrightarrow> halts ae t q i"
    and i: "at_pos t i" and "ranked r (ParseAnd ps)"
  shows "returns (\<lambda>k m. ParseAnd_parse ae (plain_parse ae t m) ps i ())"
proof -
  obtain p qs where ps: "ps = p # qs" using assms(4) by (cases ps) auto
  then have ready: "and_ready r i (p # qs) i" using assms(4) by (simp add: and_ready_def)
  have p: "halts ae t p i" using here [of p] assms(4) ps by simp
  show ?thesis unfolding ps ParseAnd_parse.simps
  proof (rule runs_call_P [OF p i])
    fix xs e
    assume e: "at_pos t e" "i_x i \<le> i_x e" "progress p i (Parsed xs e)"
    have "returns (\<lambda>k m. and_loop ae (plain_parse ae t m) qs xs e ())"
      by (rule runs_and_loop [where qs = ps, OF _ _ i e(1) _ and_ready_step [OF ready i e]])
        (auto simp: ps intro: later here [unfolded ps])
    then show "returns (\<lambda>k m. case (Parsed xs e, ()) of (r, s) \<Rightarrow> (case r of
        Parsed xs e \<Rightarrow> and_loop ae (plain_parse ae t m) qs xs e s | Failed x \<Rightarrow> Ret (Failed x, s)))"
      by simp
  qed simp
qed

lemma furthest_Some: "es \<noteq> [] \<Longrightarrow> \<exists>e. furthest es = Some e"
  by (cases es) (auto split: option.split)

lemma runs_or_loop:
  assumes "at_pos t i"
  shows "\<forall>p \<in> set ps. halts ae t p i \<Longrightarrow> ps \<noteq> [] \<or> fs \<noteq> [] \<Longrightarrow>
     returns (\<lambda>k m. or_loop (plain_parse ae t m) ps fs i ())"
proof (induction ps arbitrary: fs)
  case Nil
  then show ?case using furthest_Some [of fs] by auto
next
  case (Cons p ps)
  then show ?case unfolding or_loop.simps
    by (intro runs_call_P [OF _ assms]) auto
qed

lemma runs_list_loop:
  assumes "consumes x" "halts_from ae t x b" "\<And>j. at_pos t j \<Longrightarrow> i_x b < i_x j \<Longrightarrow> halts ae t q j"
  shows "at_pos t i \<Longrightarrow> i_x b \<le> i_x i \<Longrightarrow>
     returns (\<lambda>k m. list_loop k ae (plain_parse ae t m) x q irs i ())"
proof (induction "length t - i_x i" arbitrary: i irs rule: less_induct)
  case less
  have more: "returns (\<lambda>k m. obind (plain_parse ae t m q j ()) (\<lambda>(r, s). case r of
      Failed _ \<Rightarrow> Ret (Parsed (irs @ xs) j, s)
    | Parsed ms i \<Rightarrow> list_loop k ae (plain_parse ae t m) x q (irs @ xs @ ms) i s))"
    if j: "at_pos t j" "i_x i < i_x j" for j xs
  proof (rule runs_call_P [OF assms(3) j(1)])
    show "at_pos t j" "i_x b < i_x j" using j less.prems by simp_all
    fix ms e
    assume e: "at_pos t e" "i_x j \<le> i_x e"
    then have "length t - i_x e < length t - i_x i" using at_pos_le [OF e(1)] j by simp
    then show "returns (\<lambda>k m. case (Parsed ms e, ()) of (r, s) \<Rightarrow> (case r of
        Failed _ \<Rightarrow> Ret (Parsed (irs @ xs) j, s)
      | Parsed ms i \<Rightarrow> list_loop k ae (plain_parse ae t m) x q (irs @ xs @ ms) i s))"
      using less e j by simp
  qed simp
  show ?case
    by (rule runs_Suc, unfold list_loop.simps, rule runs_call_P)
      (use less.prems assms(1,2) more in \<open>auto intro: halts_fromD simp: progress_Parsed\<close>)
qed

lemma runs_ntom_loop:
  assumes "halts_from ae t x b"
  shows "at_pos t i \<Longrightarrow> i_x b \<le> i_x i \<Longrightarrow>
     returns (\<lambda>k m. ntom_loop l (plain_parse ae t m) n got x irs i ())"
proof (induction l arbitrary: got i irs)
  case (Suc l)
  show ?case unfolding ntom_loop.simps
    by (rule runs_call_P) (use Suc assms in \<open>auto intro: halts_fromD\<close>)
qed simp

lemma runs_one_char: "returns (\<lambda>k m. one_char t f i ())"
  unfolding one_char_def
  by (cases "I_atEnd t i") (auto simp: I_deref_def I_incr_def split: option.split)

lemma runs_catch:
  assumes "\<And>a. q = Ret a \<Longrightarrow> runs G (\<lambda>k m. f k m a)" "\<And>j. q = Throw j \<Longrightarrow> G (Failed (EndOfInput j))"
    and "q \<noteq> Abort" "q \<noteq> Undef" "q \<noteq> Diverge"
  shows "runs G (\<lambda>k m. catch_end () q (f k m))"
  using assms by (cases q) (auto simp: catch_end_def)

lemma runs_ParseLiteral: "returns (\<lambda>k m. ParseLiteral_parse t w i ())"
  unfolding ParseLiteral_parse_def by (rule runs_catch) (auto split: option.split)

lemma runs_identifier_loop:
  "at_pos t i \<Longrightarrow> \<exists>e n. \<forall>k \<ge> n. identifier_loop k t i = Ret e"
proof (induction "length t - i_x i" arbitrary: i rule: less_induct)
  case less
  show ?case
  proof (cases "I_atEnd t i \<or> \<not> isIdentifierContChar (t ! i_x i)")
    case True
    have "identifier_loop k t i = Ret i" if "1 \<le> k" for k
      using that True by (cases k) (auto simp: I_deref_def)
    then show ?thesis by blast
  next
    case False
    then have "length t - i_x (I_step t i) < length t - i_x i"
      using at_pos_less [OF less.prems] by simp
    with less False obtain e n where n: "\<forall>k \<ge> n. identifier_loop k t (I_step t i) = Ret e"
      using at_pos_step by blast
    have "identifier_loop k t i = Ret e" if "Suc n \<le> k" for k
      using that n False by (cases k) (auto simp: I_deref_def I_incr_def)
    then show ?thesis by blast
  qed
qed

lemma runs_ParseIdentifier:
  assumes "at_pos t i"
  shows "returns (\<lambda>k m. ParseIdentifier_parse k t i ())"
proof (cases "I_atEnd t i \<or> \<not> isIdentifierChar (t ! i_x i)")
  case True
  then show ?thesis by (cases "I_atEnd t i") (simp_all add: ParseIdentifier_parse_def I_deref_def)
next
  case False
  then have "at_pos t (I_step t i)" using assms by (simp add: at_pos_step)
  from runs_identifier_loop [OF this] obtain e n
    where "\<forall>k \<ge> n. identifier_loop k t (I_step t i) = Ret e" by blast
  then have "\<forall>k m. n \<le> k \<longrightarrow> n \<le> m \<longrightarrow> ParseIdentifier_parse k t i () = Ret (Parsed [leaf i e] e, ())"
    using False by (simp add: ParseIdentifier_parse_def I_deref_def I_incr_def)
  then show ?thesis unfolding runs_def by blast
qed

lemma runs_ParseHash: "returns (\<lambda>k m. ParseHash_parse t i ())"
  unfolding ParseHash_parse_def by (cases "I_atEnd t i") (auto simp: I_deref_def I_incr_def)

lemma runs_ParseEndOfFile: "returns (\<lambda>k m. ParseEndOfFile_parse t i ())"
  unfolding ParseEndOfFile_parse_def by (cases "I_atEnd t i") (auto simp: I_deref_def)

lemma runs_NamedParser:
  assumes "halts ae t x i" "at_pos t i" "\<And>n. name_tag y = Some n \<Longrightarrow> contains n x"
  shows "returns (\<lambda>k m. NamedParser_parse (plain_parse ae t m) y x i ())"
  unfolding NamedParser_parse_def
proof (rule runs_call_P [OF assms(1,2)])
  fix irs e
  assume p: "progress x i (Parsed irs e)"
  have "\<exists>item. construct y (if irs = [] then [leaf i i] else irs) = Ret item"
  proof (cases "name_tag y")
    case (Some n)
    then have "list_ex (isA n) irs" using assms(3) p by (simp add: progress_Parsed)
    moreover from this have "irs \<noteq> []" by auto
    ultimately show ?thesis using Some by (simp add: construct_def)
  qed (simp add: construct_def)
  then show "returns (\<lambda>k m. case (Parsed irs e, ()) of (r, s) \<Rightarrow> (case r of
      Failed e \<Rightarrow> Ret (Failed e, s)
    | Parsed irs e \<Rightarrow> obind (construct y (if irs = [] then [leaf i i] else irs)) (\<lambda>item. Ret (Parsed [item] e, s))))"
    by auto
qed simp

lemma runs_delimiter_loop:
  "(\<exists>j bad. delimiter_loop l t i = Ret (j, bad) \<and> (at_pos t i \<longrightarrow> at_pos t j \<and> i_x i \<le> i_x j)) \<or>
   (\<exists>j. delimiter_loop l t i = Throw j)"
proof (induction l arbitrary: i)
  case (Suc l)
  show ?case
  proof (cases "I_atEnd t i")
    case False
    then show ?thesis using Suc.IH [of "I_step t i"] at_pos_step [of t i]
      by (auto simp: I_deref_def I_incr_def)
  qed (simp add: I_deref_def)
qed simp

lemma runs_raw_delimiter:
  "(\<exists>j bad. raw_delimiter t i = Ret (j, bad) \<and> (at_pos t i \<longrightarrow> at_pos t j \<and> i_x i \<le> i_x j)) \<or>
   (\<exists>j. raw_delimiter t i = Throw j)"
  using runs_delimiter_loop [of 16 t i]
proof (elim disjE exE conjE)
  fix j bad
  assume "delimiter_loop 16 t i = Ret (j, bad)" "at_pos t i \<longrightarrow> at_pos t j \<and> i_x i \<le> i_x j"
  then show ?thesis
    by (cases bad; cases "I_atEnd t j") (simp_all add: raw_delimiter_def I_deref_def)
qed (simp add: raw_delimiter_def)

lemma runs_raw:
  assumes i: "at_pos t i" and prefix: "halts ae t raw_prefix i"
    and later: "\<And>w j. at_pos t j \<Longrightarrow> i_x i < i_x j \<Longrightarrow>
      halts ae t (ParseUntil (ParseLiteral w)) j \<and> halts ae t (ParseLiteral w) j"
  shows "returns (\<lambda>k m. ParseRawStringLiteral_parse t (plain_parse ae t m) i ())"
proof -
  have last: "returns (\<lambda>k m. obind (plain_parse ae t m (parseLiteral w) e ()) (\<lambda>(rrr, s). case rrr of
      Failed _ \<Rightarrow> Abort | Parsed _ e' \<Rightarrow> Ret (Parsed [leaf i e'] e', s)))"
    if "at_pos t e" "i_x i < i_x e" "lookingAt t e w" for w e
    by (rule runs_call_P [OF _ that(1)]) (use later that in \<open>auto simp: shape_def\<close>)
  have until: "returns (\<lambda>k m. obind (plain_parse ae t m (ParseUntil (parseLiteral w)) j ()) (\<lambda>(rr, s). case rr of
      Failed x \<Rightarrow> Ret (Failed (mk_Exception (EndDelimeterNotFound w) (ex_at x) False), s)
    | Parsed _ e \<Rightarrow> obind (plain_parse ae t m (parseLiteral w) e s) (\<lambda>(rrr, s). case rrr of
        Failed _ \<Rightarrow> Abort | Parsed _ e' \<Rightarrow> Ret (Parsed [leaf i e'] e', s))))"
    if "at_pos t j" "i_x i < i_x j" for w j
    by (rule runs_call_P [OF _ that(1)])
      (use later last that in \<open>auto simp: shape_def\<close>)
  have tail: "returns (\<lambda>k m. catch_end () (raw_delimiter t b) (\<lambda>(j, bad). case bad of
      Some k \<Rightarrow> Ret (Failed (mk_Exception k j False), ())
    | None \<Rightarrow> let l = parseLiteral (raw_end t b j)
        in obind (plain_parse ae t m (ParseUntil l) j ()) (\<lambda>(rr, s). case rr of
             Failed x \<Rightarrow> Ret (Failed (mk_Exception (EndDelimeterNotFound (raw_end t b j)) (ex_at x) False), s)
           | Parsed _ e \<Rightarrow> obind (plain_parse ae t m l e s) (\<lambda>(rrr, s). case rrr of
               Failed _ \<Rightarrow> Abort | Parsed _ e' \<Rightarrow> Ret (Parsed [leaf i e'] e', s)))))"
    if b: "at_pos t b" "i_x i < i_x b" for b
    using runs_raw_delimiter [of t b]
  proof (elim disjE exE conjE)
    fix j bad
    assume "raw_delimiter t b = Ret (j, bad)" "at_pos t b \<longrightarrow> at_pos t j \<and> i_x b \<le> i_x j"
    then show ?thesis using b until by (cases bad) (simp_all add: catch_end_def Let_def)
  qed (simp add: catch_end_def)
  show ?thesis unfolding ParseRawStringLiteral_parse_def
    by (rule runs_call_P [OF prefix i])
      (use tail consumes_raw_prefix in \<open>auto simp: progress_Parsed\<close>)
qed

section \<open>Balanced text\<close>

text \<open>One turn of the loop gets further.\<close>

abbreviation skips :: "string \<Rightarrow> I \<Rightarrow> (Exception + I) \<Rightarrow> bool" where
  "skips t e k \<equiv> \<forall>j. k = Inr j \<longrightarrow> at_pos t j \<and> i_x e < i_x j"

lemma skip_parsed_runs:
  assumes "halts ae t p e" "at_pos t e" "consumes p"
  shows "runs (skips t e) (\<lambda>k m. skip_parsed (plain_impl ae t m) p e ())"
  unfolding skip_parsed_def
  by (rule runs_call_V [OF assms(1,2)]) (use assms(3) in \<open>auto simp: progress_Parsed\<close>)

lemma skip_char_runs:
  "at_pos t e \<Longrightarrow> \<not> I_atEnd t e \<Longrightarrow> runs (skips t e) (\<lambda>k m. skip_char t e ())"
  by (simp add: skip_char_def I_incr_def at_pos_step)

lemma skip_comment_runs:
  assumes "halts ae t comments e" "at_pos t e" "\<not> I_atEnd t e" "consumes comments"
  shows "runs (skips t e) (\<lambda>k m. skip_comment t (plain_impl ae t m) e ())"
  unfolding skip_comment_def
  by (rule runs_call_V [OF assms(1,2)])
    (use assms skip_char_runs [OF assms(2,3)] in \<open>auto simp: progress_Parsed\<close>)

lemma skip_nested_runs:
  assumes "at_pos t e" "\<not> I_atEnd t e"
    and "halts ae t (balanced (parseOneOfChars close) a) (I_step t e)"
  shows "runs (skips t e) (\<lambda>k m. skip_nested t (plain_impl ae t m) close a e ())"
proof -
  have e: "at_pos t (I_step t e)" using assms(1,2) by (rule at_pos_step)
  have "runs (skips t e) (\<lambda>k m. obind (plain_impl ae t m (balanced (parseOneOfChars close) a) (I_step t e) ())
      (\<lambda>(r, s). case r of Failed x \<Rightarrow> Ret (Inl x, s)
         | Parsed _ e \<Rightarrow> obind (I_incr t e) (\<lambda>e. Ret (Inr e, s))))"
    by (rule runs_call_V [OF assms(3) e])
      (auto simp: shape_def I_incr_def intro!: runs_Ret at_pos_step)
  then show ?thesis using assms(2) by (simp add: skip_nested_def I_incr_def)
qed

lemma consumes_skipped:
  "consumes comments" "consumes stringLiteral" "consumes rawStringLiteral" "consumes char_literal"
  by (simp_all add: eats_def may_be_empty_def char_literal_def builder_defs)

definition skippable :: "bool \<Rightarrow> string \<Rightarrow> I \<Rightarrow> bool" where
  "skippable ae t e \<longleftrightarrow>
     halts ae t comments e \<and> halts ae t stringLiteral e \<and> halts ae t rawStringLiteral e \<and>
     halts ae t char_literal e"

lemma balanced_step_runs:
  assumes "at_pos t e" "\<not> I_atEnd t e" "skippable ae t e"
    and "\<And>c. halts ae t (balanced (parseOneOfChars c) a) (I_step t e)"
  shows "runs (skips t e) (\<lambda>k m. balanced_step t (plain_impl ae t m) a e ())"
proof -
  have parts: "halts ae t comments e" "halts ae t stringLiteral e" "halts ae t rawStringLiteral e"
    "halts ae t char_literal e"
    using assms(3) by (simp_all add: skippable_def)
  note skip = skip_parsed_runs [OF parts(2) assms(1) consumes_skipped(2)]
    skip_parsed_runs [OF parts(3) assms(1) consumes_skipped(3)]
    skip_parsed_runs [OF parts(4) assms(1) consumes_skipped(4)]
    skip_comment_runs [OF parts(1) assms(1,2) consumes_skipped(1)]
    skip_char_runs [OF assms(1,2)] skip_nested_runs [OF assms(1,2,4)]
  have "I_deref t e = Ret (t ! i_x e)" using assms(2) by (simp add: I_deref_def)
  then show ?thesis unfolding balanced_step_def
    by (simp only: obind.simps) (intro runs_if skip)
qed

lemma runs_balanced_loop:
  assumes "halts_from ae t u b"
    and "\<And>e. at_pos t e \<Longrightarrow> i_x b \<le> i_x e \<Longrightarrow> skippable ae t e"
    and "\<And>c j. at_pos t j \<Longrightarrow> i_x b < i_x j \<Longrightarrow> halts ae t (balanced (parseOneOfChars c) a) j"
  shows "at_pos t e \<Longrightarrow> i_x b \<le> i_x e \<Longrightarrow>
     returns (\<lambda>k m. balanced_loop k t (plain_impl ae t m) u a i e ())"
proof (induction "length t - i_x e" arbitrary: e rule: less_induct)
  case less
  have turn: "returns (\<lambda>k m. obind (balanced_step t (plain_impl ae t m) a e ()) (\<lambda>(x, s). case x of
      Inl x \<Rightarrow> Ret (Failed x, s) | Inr e \<Rightarrow> balanced_loop k t (plain_impl ae t m) u a i e s))"
    if "\<not> I_atEnd t e"
  proof (rule runs_obind [of "skips t e"])
    show "runs (skips t e) (\<lambda>k m. balanced_step t (plain_impl ae t m) a e ())"
      using less.prems that assms(2,3) by (intro balanced_step_runs) (simp_all add: at_pos_step)
    fix x
    assume "skips t e x"
    then show "returns (\<lambda>k m. case (x, ()) of (x, s) \<Rightarrow> (case x of
        Inl x \<Rightarrow> Ret (Failed x, s) | Inr e \<Rightarrow> balanced_loop k t (plain_impl ae t m) u a i e s))"
      using less.hyps less.prems at_pos_less [OF less.prems(1) that]
      by (cases x) (simp_all add: diff_less_mono2)
  qed
  have "returns (\<lambda>k m. obind (plain_impl ae t m u e ()) (\<lambda>(r, s). case r of
      Parsed _ _ \<Rightarrow> Ret (Parsed [leaf i e] e, s)
    | Failed _ \<Rightarrow> if I_atEnd t e then Ret (Failed (EndOfInput e), s)
        else obind (balanced_step t (plain_impl ae t m) a e s) (\<lambda>(x, s). case x of
          Inl x \<Rightarrow> Ret (Failed x, s) | Inr e \<Rightarrow> balanced_loop k t (plain_impl ae t m) u a i e s)))"
    by (rule runs_call_V [OF halts_fromD [OF assms(1) less.prems] less.prems(1)])
      (use turn in \<open>auto intro!: runs_if\<close>)
  then show ?case
    by (intro runs_Suc [of _ "\<lambda>k m. balanced_loop k t (plain_impl ae t m) u a i e ()"])
      (simp only: balanced_loop.simps)
qed

section \<open>Every well-formed parser\<close>

lemma halts_fromI:
  assumes "halts ae t p i" "at_pos t i" "\<And>j. at_pos t j \<Longrightarrow> i_x i < i_x j \<Longrightarrow> halts ae t p j"
  shows "halts_from ae t p i"
  unfolding halts_from_def
proof (intro allI impI)
  fix j
  assume j: "at_pos t j" "i_x i \<le> i_x j"
  show "halts ae t p j"
  proof (cases "i_x i = i_x j")
    case True
    then show ?thesis using assms(1) at_pos_unique [OF assms(2) j(1)] by simp
  qed (use assms(3) j in simp)
qed

lemma halts_object: "halts ae t (static_object k) i \<Longrightarrow> at_pos t i \<Longrightarrow> halts ae t (Static k) i"
  by (rule halts_runs) (auto simp: parse_body_def intro: runs_mono [OF runs_V])

lemma size_or_terms: "q \<in> set (or_terms p) \<Longrightarrow> size q \<le> size p"
proof (cases p)
  case (ParseOr ps)
  assume "q \<in> set (or_terms p)"
  then have "size q \<le> size_list size ps" using ParseOr by (auto intro: size_list_estimation')
  then show ?thesis using ParseOr by simp
qed auto

lemma size_terms: "q \<in> set ps \<Longrightarrow> size q < size (ParseAnd ps) \<and> size q < size (ParseOr ps)"
  by (induction ps) auto

lemma ranked_small:
  "ranked 0 raw_prefix" "ranked 0 char_literal" "ranked 0 (ParseLiteral w)" "ranked 0 (ParseUntil (ParseLiteral w))"
  by code_simp+

lemma ranked_any: "ranked any_rank (balanced (parseOneOfChars c) a)"
  by (simp add: any_rank_def) code_simp

text \<open>The position does not change on the way down to a parser of the same rank; \<open>here\<close> is the
  induction over the structure.\<close>

lemma halts_here:
  assumes i: "at_pos t i"
    and later: "\<And>q j r'. at_pos t j \<Longrightarrow> i_x i < i_x j \<Longrightarrow> ranked r' q \<Longrightarrow> halts ae t q j"
    and lower: "\<And>q r'. r' < r \<Longrightarrow> ranked r' q \<Longrightarrow> halts ae t q i"
    and here: "\<And>q. size q < size p \<Longrightarrow> ranked r q \<Longrightarrow> halts ae t q i"
    and ranked: "ranked r p"
  shows "returns (\<lambda>k m. parse_body k ae t (plain_parse ae t m) (plain_impl ae t m) p i ())"
proof -
  have onward: "halts_from ae t q i" if "size q < size p" "ranked r q" for q
    using here [OF that] i later that(2) by (blast intro: halts_fromI)
  have call: "returns (\<lambda>k m. plain_impl ae t m q i ())" "returns (\<lambda>k m. plain_parse ae t m q i ())"
    if "halts ae t q i" for q
    using runs_V [OF that i] runs_P [OF that i] by (auto intro: runs_mono)
  have static: "halts ae t (static_object k) i" if "rank k < r" for k
    using lower [OF that static_object_ranked] .
  have statics: "halts ae t (Static k) i" if "rank k < r" for k
    using static [OF that] i by (rule halts_object)
  show ?thesis
  proof (cases p)
    case (Static k)
    then show ?thesis using ranked call static by (simp add: parse_body_def)
  next
    case (Optional x)
    then show ?thesis using ranked here i by (simp add: parse_body_def runs_Optional)
  next
    case (ParseZeroOrMore x)
    then show ?thesis using ranked onward i by (simp add: parse_body_def runs_zeroOrMore [where b = i])
  next
    case (ParseAnd ps)
    have "halts ae t q i" if "q \<in> set ps" "ranked r q" for q
      using here that size_terms [OF that(1)] unfolding ParseAnd by blast
    from runs_ParseAnd [OF later this i] ranked show ?thesis
      by (simp add: parse_body_def ParseAnd)
  next
    case (ParseOr ps)
    then have "\<forall>q \<in> set ps. halts ae t q i"
      using here ranked size_terms by (auto simp: ranked_all_iff)
    then show ?thesis using ranked i by (simp add: parse_body_def ParseOr runs_or_loop)
  next
    case (ParseNot x)
    then show ?thesis using ranked here i by (simp add: parse_body_def runs_ParseNot)
  next
    case (ParseUntil x)
    then show ?thesis using ranked onward i by (simp add: parse_body_def runs_until_loop [where b = i])
  next
    case (ParseSpecificUntil q x)
    then show ?thesis using ranked onward i by (simp add: parse_body_def runs_specific_until [where b = i])
  next
    case ParseRawStringLiteral
    have "halts ae t raw_prefix i" using lower ranked_small ranked ParseRawStringLiteral by simp
    from runs_raw [OF i this] later ranked_small(3,4) show ?thesis
      by (simp add: parse_body_def ParseRawStringLiteral)
  next
    case (NonEmptyListOf x q)
    then have "halts_from ae t x i" "consumes x" "ranked any_rank q" using ranked onward by simp_all
    then show ?thesis using runs_list_loop [of x ae t i q, OF _ _ _ i order_refl] later
      by (simp add: parse_body_def NonEmptyListOf)
  next
    case (NToM l h x)
    then show ?thesis using ranked onward i by (simp add: parse_body_def runs_ntom_loop [where b = i])
  next
    case (NamedParser y name x)
    then have x: "halts ae t x i" and y: "case name_tag y of None \<Rightarrow> True | Some n \<Rightarrow> contains n x"
      using ranked here by simp_all
    have "contains n x" if "name_tag y = Some n" for n using y that by simp
    from runs_NamedParser [OF x i this] show ?thesis by (simp add: parse_body_def NamedParser)
  next
    case (ParseClass tp q)
    have tp: "ranked_all r (or_terms tp)" "or_terms tp \<noteq> []" and q: "ranked_all r (or_terms q)"
      using ranked ranked_or_terms unfolding ParseClass ranked.simps by blast+
    have "halts ae t x i" if "x \<in> set (or_terms tp @ or_terms q)" for x
      using that tp(1) q size_or_terms [of x tp] size_or_terms [of x q]
      by (intro here) (auto simp: ranked_all_iff ParseClass)
    then have "halts ae t (parser_or tp q) i"
      using tp(2) by (intro halts_runs [where G = "\<lambda>_. True"]) (simp add: parse_body_def parser_or_def runs_or_loop i)
    then show ?thesis using call by (simp add: parse_body_def ParseClass)
  next
    case (ParseBalanced u a)
    have ranks: "rank S_comments < r" "rank S_stringLiteral < r" "rank S_rawStringLiteral < r"
      using ranked by (simp_all add: ParseBalanced)
    have skip: "skippable ae t e" if e: "at_pos t e" "i_x i \<le> i_x e" for e
    proof (cases "i_x i = i_x e")
      case True
      then have "e = i" using at_pos_unique [OF e(1) i] by simp
      then show ?thesis
        using statics ranks lower [OF _ ranked_small(2)] by (simp add: skippable_def)
    next
      case False
      then have "i_x i < i_x e" using e(2) by simp
      note later [OF e(1) this, of r] later [OF e(1) this ranked_small(2)]
      then show ?thesis using ranks by (simp add: skippable_def)
    qed
    have "halts ae t (balanced (parseOneOfChars c) a) j" if "at_pos t j" "i_x i < i_x j" for c j
      using later [OF that, of any_rank] ranked_any by simp
    from runs_balanced_loop [of ae t u i, OF _ skip this i order_refl] onward ranked show ?thesis
      by (simp add: parse_body_def ParseBalanced)
  qed (use ranked here call static statics i in
      \<open>simp_all add: parse_body_def ParseAnyChar_parse_def ParseOneOfChars_parse_def
        ParseOneOfChars2_parse_def ParseAnyCharExcept_parse_def ParseCharInRange_parse_def
        runs_one_char runs_ParseLiteral runs_ParseIdentifier runs_ParseHash runs_ParseEndOfFile\<close>)
qed

lemma ranked_halts: "ranked r p \<Longrightarrow> at_pos t i \<Longrightarrow> halts ae t p i"
proof (induction "length t - i_x i" arbitrary: i r p rule: less_induct)
  case less
  have later: "halts ae t q j" if "at_pos t j" "i_x i < i_x j" "ranked r' q" for q j r'
    using less.hyps [OF _ that(3,1)] that(2) at_pos_le [OF that(1)] by simp
  have "ranked r p \<Longrightarrow> halts ae t p i" for r p
  proof (induction r arbitrary: p rule: less_induct)
    case rank: (less r)
    show ?case using rank.prems
    proof (induction p rule: measure_induct_rule [of size])
      case here: (less p)
      show ?case
        by (rule halts_runs, rule halts_here [where r = r, OF less.prems(2)])
          (use later rank.IH here in blast)+
    qed
  qed
  then show ?case using less.prems(1) .
qed

lemma static_halts: "at_pos t i \<Longrightarrow> halts ae t (Static k) i"
  by (rule ranked_halts [of any_rank]; cases k) (simp_all add: any_rank_def rank_def static_order_def)

text \<open>With the cache of the code: there is an amount of fuel with which every static parser returns
  from every position, and more fuel gives the same.\<close>

lemma static_returns:
  assumes "at_pos t i"
  shows "\<exists>n r. \<forall>m \<ge> n. plain_parse ae t m (Static k) i () = Ret (r, ()) \<and>
    (\<exists>c. parser_parse ae t m (Static k) i Map.empty = Ret (r, c))"
proof -
  from runs_P [OF static_halts [OF assms] assms] obtain r n
    where "\<forall>m. n \<le> m \<longrightarrow> plain_parse ae t m (Static k) i () = Ret (r, ())"
    unfolding runs_def by blast
  then show ?thesis using assms by (blast elim: cache_transparent)
qed

end
