(* ===== verification/HcpResults.thy ===== *)
theory HcpResults
  imports HcpTermination
begin

text \<open>
  What holds of the static parsers as they are called, with a cache: the results of HcpSpans and
  HcpProgress, carried over by HcpCache and HcpTermination, and what follows for the functions that
  parse a whole text.
\<close>

lemma static_plain:
  assumes "parser_parse ae t n (Static k) i Map.empty = Ret (r, c)" "at_pos t i"
  shows "\<exists>m. plain_parse ae t m (Static k) i () = Ret (r, ())"
proof -
  from static_returns [OF assms(2)] obtain n0 r0 where n0: "\<forall>m \<ge> n0.
      plain_parse ae t m (Static k) i () = Ret (r0, ()) \<and>
      (\<exists>c. parser_parse ae t m (Static k) i Map.empty = Ret (r0, c))"
    by blast
  have "parser_parse ae t (n + n0) (Static k) i Map.empty = Ret (r, c)"
    using parser_more_fuel [OF assms(1) _ assms(2)] by simp
  then show ?thesis using n0 [rule_format, of "n + n0"] by fastforce
qed

lemma static_facts:
  assumes "parser_parse ae t n (Static k) i Map.empty = Ret (r, c)" "at_pos t i"
  shows "spans t i r" "progress (Static k) i r"
proof -
  from static_plain [OF assms] obtain m where "plain_parse ae t m (Static k) i () = Ret (r, ())"
    by blast
  then have "facts t (Static k) i r"
    using calls_giveD [OF parse_facts [of t ae m] assms(2), of "Static k" "()"] by (simp add: gives_def)
  then show "spans t i r" "progress (Static k) i r" by (simp_all add: facts_def)
qed

lemma static_returns_at:
  assumes "at_pos t i"
  obtains n r c where "\<And>m. parser_parse ae t (n + m) (Static k) i Map.empty = Ret (r, c)"
proof -
  from static_returns [OF assms] obtain n r where
    "\<forall>m \<ge> n. \<exists>c. parser_parse ae t m (Static k) i Map.empty = Ret (r, c)" by blast
  then obtain c where c: "parser_parse ae t n (Static k) i Map.empty = Ret (r, c)" by blast
  show thesis by (rule that [of n r c], rule parser_more_fuel [OF c _ assms]) simp
qed

lemma parseString_Ret:
  assumes "parseString n t (Static k) = Ret root"
  obtains irs e c where "parser_parse False t n (Static k) I_begin Map.empty = Ret (Parsed irs e, c)"
    and "I_atEnd t e" and "root = (if irs = []
        then leaf I_begin \<lparr>i_line = 1, i_column = 1, i_offset = 0, i_x = length t\<rparr>
        else composite ItemTag irs)"
proof -
  from assms obtain irs e where p: "hcp_parse n t I_begin (Static k) False = Ret (irs, e)"
    by (auto simp: parseString_def)
  then obtain c where "parser_parse False t n (Static k) I_begin Map.empty = Ret (Parsed irs e, c)"
    by (auto simp: hcp_parse_def split: outcome.splits parse_result.splits)
  with p assms show thesis by (intro that) (auto simp: parseString_def split: if_splits)
qed

lemma parseString_covers:
  assumes "parseString n t (Static k) = Ret root"
  shows "tree_ok root \<and> item_begin root = I_begin \<and> i_x (item_end root) = length t"
proof -
  from assms obtain irs e c where
    p: "parser_parse False t n (Static k) I_begin Map.empty = Ret (Parsed irs e, c)"
    and e: "I_atEnd t e" and root: "root = (if irs = []
        then leaf I_begin \<lparr>i_line = 1, i_column = 1, i_offset = 0, i_x = length t\<rparr>
        else composite ItemTag irs)"
    by (rule parseString_Ret)
  have "tiles irs I_begin e" using static_facts(1) [OF p] by simp
  then show ?thesis
    using e tiles_hd [of irs I_begin e] tiles_last [of irs I_begin e]
    by (auto simp: root tree_ok_composite I_atEnd_def I_begin_def)
qed

lemma tree_ok_children:
  "tree_ok x \<Longrightarrow> items x \<noteq> [] \<Longrightarrow> tiles (items x) (item_begin x) (item_end x)"
  by (cases x; cases "items x") (auto dest: tiles_last)

text \<open>A run that is known to return, for evaluating concrete parses.\<close>

fun returned :: "('e, 'a) outcome \<Rightarrow> bool" where
  "returned (Ret a) = True"
| "returned _ = False"

lemma returnedE: "returned m \<Longrightarrow> (\<And>a. m = Ret a \<Longrightarrow> G) \<Longrightarrow> G"
  by (cases m) simp_all

fun fails :: "'s run \<Rightarrow> bool" where
  "fails (Ret (Failed x, s)) = True"
| "fails _ = False"

lemma failsE: "fails m \<Longrightarrow> (\<And>x s. m = Ret (Failed x, s) \<Longrightarrow> G) \<Longrightarrow> G"
  by (cases m rule: fails.cases) simp_all

lemma reconstruct_whole:
  assumes "item_begin x = I_begin" "i_x (item_end x) = length t"
  shows "reconstruct t x = t"
  using assms by (simp add: reconstruct_def slice_def I_begin_def)

end
