(* ===== verification/HcpPeg.thy ===== *)
theory HcpPeg
  imports HcpResults
begin

text \<open>
  What the parser objects mean, without exceptions, cache or fuel: a parsing expression grammar with
  items.  \<open>peg t p i (Some (irs, e))\<close> says that \<open>p\<close> succeeds at \<open>i\<close> with the items \<open>irs\<close> up to \<open>e\<close>, and
  \<open>peg t p i None\<close> that it fails.  The engine refines this specification: what a run returns is
  derivable, and derivations are unique.
\<close>

section \<open>The specification\<close>

definition advance :: "string \<Rightarrow> nat \<Rightarrow> I \<Rightarrow> I" where
  "advance t k i = (I_step t ^^ k) i"

text \<open>The parsers of one character.\<close>

fun char_test :: "parser \<Rightarrow> (char \<Rightarrow> bool) option" where
  "char_test ParseAnyChar = Some (\<lambda>c. True)"
| "char_test (ParseOneOfChars cs) = Some (\<lambda>c. c \<in> set cs)"
| "char_test (ParseOneOfChars2 cs) = Some (Chars_test cs)"
| "char_test (ParseAnyCharExcept cs) = Some (\<lambda>c. c \<notin> set cs)"
| "char_test (ParseCharInRange a b) =
     Some (\<lambda>c. signed_char a \<le> signed_char c \<and> signed_char c \<le> signed_char b)"
| "char_test p = None"

definition next_char :: "string \<Rightarrow> I \<Rightarrow> char option" where
  "next_char t i = (if I_atEnd t i then None else Some (t ! i_x i))"

definition identifier_length :: "string \<Rightarrow> I \<Rightarrow> nat" where
  "identifier_length t i = length (takeWhile isIdentifierContChar (drop (i_x i) t))"

text \<open>The bracket that closes a nested text; angle brackets count only where they are asked for.\<close>

definition bracket :: "bool \<Rightarrow> char \<Rightarrow> char option" where
  "bracket angles c =
     (if c = CHR ''{'' then Some CHR ''}'' else if c = CHR ''<'' \<and> angles then Some CHR ''>''
      else if c = CHR ''['' then Some CHR '']'' else if c = CHR ''('' then Some CHR '')'' else None)"

type_synonym peg_result = "(item list \<times> I) option"

inductive peg :: "string \<Rightarrow> parser \<Rightarrow> I \<Rightarrow> peg_result \<Rightarrow> bool"
and peg_skip :: "string \<Rightarrow> bool \<Rightarrow> I \<Rightarrow> I option \<Rightarrow> bool" for t where
  Static: "peg t (static_object k) i r \<Longrightarrow> peg t (Static k) i r"
| Optional_Some: "peg t x i (Some v) \<Longrightarrow> peg t (Optional x) i (Some v)"
| Optional_None: "peg t x i None \<Longrightarrow> peg t (Optional x) i (Some ([], i))"
| Star_end: "peg t x i None \<Longrightarrow> peg t (ParseZeroOrMore x) i (Some ([], i))"
| Star_more: "peg t x i (Some (xs, m)) \<Longrightarrow> peg t (ParseZeroOrMore x) m (Some (ys, e)) \<Longrightarrow>
    peg t (ParseZeroOrMore x) i (Some (xs @ ys, e))"
| And_Nil: "peg t (ParseAnd []) i (Some ([], i))"
| And_fail: "peg t p i None \<Longrightarrow> peg t (ParseAnd (p # ps)) i None"
| And_later: "peg t p i (Some (xs, m)) \<Longrightarrow> peg t (ParseAnd ps) m None \<Longrightarrow> peg t (ParseAnd (p # ps)) i None"
| And_Cons: "peg t p i (Some (xs, m)) \<Longrightarrow> peg t (ParseAnd ps) m (Some (ys, e)) \<Longrightarrow>
    peg t (ParseAnd (p # ps)) i (Some (xs @ ys, e))"
| Or_Nil: "peg t (ParseOr []) i None"
| Or_here: "peg t p i (Some v) \<Longrightarrow> peg t (ParseOr (p # ps)) i (Some v)"
| Or_later: "peg t p i None \<Longrightarrow> peg t (ParseOr ps) i r \<Longrightarrow> peg t (ParseOr (p # ps)) i r"
| Not_None: "peg t x i None \<Longrightarrow> peg t (ParseNot x) i (Some ([], i))"
| Not_Some: "peg t x i (Some v) \<Longrightarrow> peg t (ParseNot x) i None"
| Char: "char_test p = Some f \<Longrightarrow>
    peg t p i (case next_char t i of None \<Rightarrow> None
      | Some c \<Rightarrow> if f c then Some ([leaf i (I_step t i)], I_step t i) else None)"
| Until_here: "peg t x i (Some v) \<Longrightarrow> peg t (ParseUntil x) i (Some ([leaf i i], i))"
| Until_end: "peg t x i None \<Longrightarrow> I_atEnd t i \<Longrightarrow> peg t (ParseUntil x) i None"
| Until_next: "peg t x i None \<Longrightarrow> \<not> I_atEnd t i \<Longrightarrow> peg t (ParseUntil x) (I_step t i) r \<Longrightarrow>
    peg t (ParseUntil x) i (map_option (\<lambda>(_, e). ([leaf i e], e)) r)"
| SUntil_here: "peg t x i (Some v) \<Longrightarrow> peg t (ParseSpecificUntil q x) i (Some ([], i))"
| SUntil_fail: "peg t x i None \<Longrightarrow> peg t q i None \<Longrightarrow> peg t (ParseSpecificUntil q x) i None"
| SUntil_next: "peg t x i None \<Longrightarrow> peg t q i (Some (xs, m)) \<Longrightarrow> peg t (ParseSpecificUntil q x) m r \<Longrightarrow>
    peg t (ParseSpecificUntil q x) i (map_option (\<lambda>(ys, e). (xs @ ys, e)) r)"
| Literal: "peg t (ParseLiteral w) i
    (if lookingAt t i w then Some ([leaf i (advance t (length w) i)], advance t (length w) i) else None)"
| Identifier: "peg t ParseIdentifier i
    (case next_char t i of None \<Rightarrow> None
     | Some c \<Rightarrow> if isIdentifierChar c
         then let e = advance t (identifier_length t i) i in Some ([leaf i e], e) else None)"
| Hash: "peg t ParseHash i
    (if i_column i = 1 \<and> next_char t i = Some CHR ''#''
     then Some ([leaf i (I_step t i)], I_step t i) else None)"
| EndOfFile: "peg t ParseEndOfFile i
    (if I_atEnd t i then Some ([composite EndOfFile [leaf i i]], i) else None)"
| Raw_prefix: "peg t raw_prefix i None \<Longrightarrow> peg t ParseRawStringLiteral i None"
| Raw_end: "peg t raw_prefix i (Some (xs, b)) \<Longrightarrow> raw_delimiter t b = Throw j \<Longrightarrow>
    peg t ParseRawStringLiteral i None"
| Raw_bad: "peg t raw_prefix i (Some (xs, b)) \<Longrightarrow> raw_delimiter t b = Ret (j, Some c) \<Longrightarrow>
    peg t ParseRawStringLiteral i None"
| Raw: "peg t raw_prefix i (Some (xs, b)) \<Longrightarrow> raw_delimiter t b = Ret (j, None) \<Longrightarrow>
    peg t (ParseAnd [ParseUntil (parseLiteral (raw_end t b j)), parseLiteral (raw_end t b j)]) j r \<Longrightarrow>
    peg t ParseRawStringLiteral i (map_option (\<lambda>(_, e). ([leaf i e], e)) r)"
| Balanced_here: "peg t u i (Some v) \<Longrightarrow> peg t (ParseBalanced u a) i (Some ([leaf i i], i))"
| Balanced_end: "peg t u i None \<Longrightarrow> I_atEnd t i \<Longrightarrow> peg t (ParseBalanced u a) i None"
| Balanced_fail: "peg t u i None \<Longrightarrow> \<not> I_atEnd t i \<Longrightarrow> peg_skip t a i None \<Longrightarrow>
    peg t (ParseBalanced u a) i None"
| Balanced_next: "peg t u i None \<Longrightarrow> \<not> I_atEnd t i \<Longrightarrow> peg_skip t a i (Some m) \<Longrightarrow>
    peg t (ParseBalanced u a) m r \<Longrightarrow>
    peg t (ParseBalanced u a) i (map_option (\<lambda>(_, e). ([leaf i e], e)) r)"
| Anon: "peg t x i r \<Longrightarrow> peg t (AnonParser name x) i r"
| Named: "peg t x i r \<Longrightarrow> peg t (NamedParser y name x) i
    (map_option (\<lambda>(irs, e). ([composite y (if irs = [] then [leaf i i] else irs)], e)) r)"
| List_fail: "peg t x i None \<Longrightarrow> peg t (NonEmptyListOf x q) i None"
| List_last: "peg t x i (Some (xs, m)) \<Longrightarrow> peg t q m None \<Longrightarrow> peg t (NonEmptyListOf x q) i (Some (xs, m))"
| List_more: "peg t x i (Some (xs, m)) \<Longrightarrow> peg t q m (Some (ms, j)) \<Longrightarrow> peg t (NonEmptyListOf x q) j r \<Longrightarrow>
    peg t (NonEmptyListOf x q) i (map_option (\<lambda>(ys, e). (xs @ ms @ ys, e)) r)"
| NToM_end: "peg t (NToM n 0 x) i (Some ([], i))"
| NToM_stop: "peg t x i None \<Longrightarrow> peg t (NToM n (Suc m) x) i (if n = 0 then Some ([], i) else None)"
| NToM_more: "peg t x i (Some (xs, j)) \<Longrightarrow> peg t (NToM (n - 1) m x) j r \<Longrightarrow>
    peg t (NToM n (Suc m) x) i (map_option (\<lambda>(ys, e). (xs @ ys, e)) r)"
| VarFp: "peg t (Static S_var_fp) i r \<Longrightarrow> peg t VarFpBackref i r"
| Self: "peg t (Static k) i r \<Longrightarrow> peg t (SelfParser k) i r"
| Class: "peg t (parser_or tp q) i r \<Longrightarrow> peg t (ParseClass tp q) i r"
| skip_raw: "looking_at_raw t i \<Longrightarrow> peg t rawStringLiteral i r \<Longrightarrow> peg_skip t a i (map_option snd r)"
| skip_quote: "\<not> looking_at_raw t i \<Longrightarrow> t ! i_x i = CHR 0x27 \<Longrightarrow> peg t char_literal i r \<Longrightarrow>
    peg_skip t a i (map_option snd r)"
| skip_string: "\<not> looking_at_raw t i \<Longrightarrow> t ! i_x i = CHR 0x22 \<Longrightarrow> peg t stringLiteral i r \<Longrightarrow>
    peg_skip t a i (map_option snd r)"
| skip_nested: "\<not> looking_at_raw t i \<Longrightarrow> bracket a (t ! i_x i) = Some c \<Longrightarrow>
    peg t (balanced (parseOneOfChars [c]) a) (I_step t i) r \<Longrightarrow>
    peg_skip t a i (map_option (\<lambda>(_, e). I_step t e) r)"
| skip_comment: "\<not> looking_at_raw t i \<Longrightarrow> t ! i_x i = CHR ''/'' \<Longrightarrow> peg t comments i r \<Longrightarrow>
    peg_skip t a i (Some (case r of Some (_, e) \<Rightarrow> e | None \<Rightarrow> I_step t i))"
| skip_other: "\<not> looking_at_raw t i \<Longrightarrow> bracket a (t ! i_x i) = None \<Longrightarrow>
    t ! i_x i \<notin> {CHR 0x27, CHR 0x22, CHR ''/''} \<Longrightarrow> peg_skip t a i (Some (I_step t i))"

section \<open>The engine refines the specification\<close>

fun peg_of :: "parse_result \<Rightarrow> peg_result" where
  "peg_of (Parsed irs e) = Some (irs, e)"
| "peg_of (Failed x) = None"

definition derives :: "string \<Rightarrow> parser \<Rightarrow> I \<Rightarrow> parse_result \<Rightarrow> bool" where
  "derives t p i r \<longleftrightarrow> spans t i r \<and> peg t p i (peg_of r)"

abbreviation calls_derive :: "string \<Rightarrow> 's parse_fun \<Rightarrow> bool" where
  "calls_derive t \<equiv> calls_give t (derives t)"

lemma derives_call:
  assumes "calls_derive t P" "at_pos t i"
    and "\<And>irs e s. at_pos t e \<Longrightarrow> peg t p i (Some (irs, e)) \<Longrightarrow> gives G (f (Parsed irs e, s))"
    and "\<And>x s. peg t p i None \<Longrightarrow> gives G (f (Failed x, s))"
  shows "gives G (obind (P p i s) f)"
  by (rule gives_call [OF assms(1,2)]) (use assms(3,4) in \<open>simp_all add: derives_def\<close>)

text \<open>A loop that has collected \<open>irs\<close>, and one that began at \<open>b\<close>.\<close>

definition prefixed :: "item list \<Rightarrow> peg_result \<Rightarrow> peg_result" where
  "prefixed irs q = map_option (\<lambda>(ys, e). (irs @ ys, e)) q"

definition leaf_from :: "I \<Rightarrow> peg_result \<Rightarrow> peg_result" where
  "leaf_from b q = map_option (\<lambda>(_, e). ([leaf b e], e)) q"

lemma prefixed_simps [simp]:
  "prefixed irs None = None" "prefixed irs (Some (ys, e)) = Some (irs @ ys, e)" "prefixed [] q = q"
  "prefixed xs (prefixed ys q) = prefixed (xs @ ys) q"
  "leaf_from b None = None" "leaf_from b (Some (ys, e)) = Some ([leaf b e], e)"
  "leaf_from b (leaf_from i q) = leaf_from b q"
  by (cases q; auto simp: prefixed_def leaf_from_def)+

lemma peg_loop_intros:
  "peg t x i (Some (xs, m)) \<Longrightarrow> peg t (ParseZeroOrMore x) m q \<Longrightarrow> q \<noteq> None \<Longrightarrow>
     peg t (ParseZeroOrMore x) i (prefixed xs q)"
  "peg t p i (Some (xs, m)) \<Longrightarrow> peg t (ParseAnd ps) m q \<Longrightarrow> peg t (ParseAnd (p # ps)) i (prefixed xs q)"
  "peg t x i None \<Longrightarrow> \<not> I_atEnd t i \<Longrightarrow> peg t (ParseUntil x) (I_step t i) q \<Longrightarrow>
     peg t (ParseUntil x) i (leaf_from i q)"
  "peg t x i None \<Longrightarrow> peg t y i (Some (xs, m)) \<Longrightarrow> peg t (ParseSpecificUntil y x) m q \<Longrightarrow>
     peg t (ParseSpecificUntil y x) i (prefixed xs q)"
  "peg t x i (Some (xs, m)) \<Longrightarrow> peg t y m (Some (ms, j)) \<Longrightarrow> peg t (NonEmptyListOf x y) j q \<Longrightarrow>
     peg t (NonEmptyListOf x y) i (prefixed (xs @ ms) q)"
  "peg t x i (Some (xs, j)) \<Longrightarrow> peg t (NToM (n - 1) k x) j q \<Longrightarrow>
     peg t (NToM n (Suc k) x) i (prefixed xs q)"
  "peg t u i None \<Longrightarrow> \<not> I_atEnd t i \<Longrightarrow> peg_skip t a i (Some m) \<Longrightarrow> peg t (ParseBalanced u a) m q \<Longrightarrow>
     peg t (ParseBalanced u a) i (leaf_from i q)"
proof -
  show "peg t x i (Some (xs, m)) \<Longrightarrow> peg t (ParseZeroOrMore x) m q \<Longrightarrow> q \<noteq> None \<Longrightarrow>
     peg t (ParseZeroOrMore x) i (prefixed xs q)"
    by (cases q) (auto intro: Star_more)
  show "peg t p i (Some (xs, m)) \<Longrightarrow> peg t (ParseAnd ps) m q \<Longrightarrow> peg t (ParseAnd (p # ps)) i (prefixed xs q)"
    by (cases q) (auto intro: And_later And_Cons)
qed (auto simp: prefixed_def leaf_from_def dest: Until_next SUntil_next List_more NToM_more Balanced_next)

lemma derives_Optional:
  "calls_derive t P \<Longrightarrow> at_pos t i \<Longrightarrow>
     gives (\<lambda>r. peg t (Optional x) i (peg_of r)) (Optional_parse P x i s)"
  unfolding Optional_parse_def by (rule derives_call) (auto intro: peg_peg_skip.intros)

lemma derives_ParseNot:
  "calls_derive t P \<Longrightarrow> at_pos t i \<Longrightarrow>
     gives (\<lambda>r. peg t (ParseNot x) i (peg_of r)) (ParseNot_parse P x i s)"
  unfolding ParseNot_parse_def by (rule derives_call) (auto intro: peg_peg_skip.intros)

lemma derives_zeroOrMore:
  assumes "calls_derive t P"
  shows "at_pos t i \<Longrightarrow> gives (\<lambda>r. \<exists>q. peg t (ParseZeroOrMore x) i (Some q) \<and> peg_of r = prefixed irs (Some q))
     (zeroOrMore_loop n P x irs i s)"
proof (induction n arbitrary: irs i s)
  case (Suc n)
  show ?case unfolding zeroOrMore_loop.simps
  proof (rule derives_call [OF assms Suc.prems])
    fix xs e s
    assume "at_pos t e" "peg t x i (Some (xs, e))"
    then show "gives (\<lambda>r. \<exists>q. peg t (ParseZeroOrMore x) i (Some q) \<and> peg_of r = prefixed irs (Some q))
        (case (Parsed xs e, s) of (r, s) \<Rightarrow> (case r of Parsed xs e \<Rightarrow> zeroOrMore_loop n P x (irs @ xs) e s
           | Failed _ \<Rightarrow> Ret (Parsed irs i, s)))"
      by (auto intro!: gives_mono [OF Suc.IH] dest: Star_more)
  qed (auto intro!: Star_end)
qed simp

lemma derives_and_loop:
  assumes "calls_derive t P"
  shows "at_pos t i \<Longrightarrow> gives (\<lambda>r. \<exists>q. peg t (ParseAnd ps) i q \<and> peg_of r = prefixed irs q)
     (and_loop ae P ps irs i s)"
proof (induction ps arbitrary: irs i s)
  case Nil
  then show ?case using And_Nil [of t i] by (auto intro!: exI [of _ "Some ([], i)"])
next
  case (Cons p ps)
  show ?case unfolding and_loop.simps
  proof (rule derives_call [OF assms Cons.prems])
    fix xs e s
    assume "at_pos t e" "peg t p i (Some (xs, e))"
    then show "gives (\<lambda>r. \<exists>q. peg t (ParseAnd (p # ps)) i q \<and> peg_of r = prefixed irs q)
        (case (Parsed xs e, s) of (r, s) \<Rightarrow> (case r of Parsed xs e \<Rightarrow> and_loop ae P ps (irs @ xs) e s
           | Failed x \<Rightarrow> Ret (Failed (atEnd_context ae irs x), s)))"
      by (fastforce intro!: gives_mono [OF Cons.IH] dest: peg_loop_intros(2))
  qed (auto intro!: exI [of _ None] And_fail)
qed

lemma derives_ParseAnd:
  assumes "calls_derive t P" "at_pos t i"
  shows "gives (\<lambda>r. peg t (ParseAnd ps) i (peg_of r)) (ParseAnd_parse ae P ps i s)"
proof (cases ps)
  case (Cons p qs)
  show ?thesis unfolding Cons ParseAnd_parse.simps
  proof (rule derives_call [OF assms])
    fix xs e s
    assume "at_pos t e" "peg t p i (Some (xs, e))"
    then show "gives (\<lambda>r. peg t (ParseAnd (p # qs)) i (peg_of r))
        (case (Parsed xs e, s) of (r, s) \<Rightarrow> (case r of Parsed xs e \<Rightarrow> and_loop ae P qs xs e s
           | Failed x \<Rightarrow> Ret (Failed x, s)))"
      by (fastforce intro!: gives_mono [OF derives_and_loop [OF assms(1)]] dest: peg_loop_intros(2))
  qed (auto intro: And_fail)
qed simp

lemma derives_or_loop:
  assumes "calls_derive t P" "at_pos t i"
  shows "gives (\<lambda>r. peg t (ParseOr ps) i (peg_of r)) (or_loop P ps fs i s)"
proof (induction ps arbitrary: fs s)
  case Nil
  then show ?case by (auto intro: Or_Nil split: option.split)
next
  case (Cons p ps)
  show ?case unfolding or_loop.simps
    by (rule derives_call [OF assms])
      (simp add: Or_here, use gives_mono [OF Cons.IH Or_later] in simp)
qed

lemma derives_until:
  assumes "calls_derive t V"
  shows "at_pos t e \<Longrightarrow> gives (\<lambda>r. \<exists>q. peg t (ParseUntil x) e q \<and> peg_of r = leaf_from b q)
     (until_loop n t V x b e s)"
proof (induction n arbitrary: e s)
  case (Suc n)
  show ?case unfolding until_loop.simps
  proof (rule derives_call [OF assms Suc.prems])
    fix y s
    assume x: "peg t x e None"
    show "gives (\<lambda>r. \<exists>q. peg t (ParseUntil x) e q \<and> peg_of r = leaf_from b q)
        (case (Failed y, s) of (r, s) \<Rightarrow> (case r of Parsed _ _ \<Rightarrow> Ret (Parsed [leaf b e] e, s)
         | Failed _ \<Rightarrow> if I_atEnd t e then Ret (Failed (EndOfInput e), s)
             else obind (I_incr t e) (\<lambda>e. until_loop n t V x b e s)))"
    proof (cases "I_atEnd t e")
      case True
      then show ?thesis using Until_end [OF x] by (auto intro!: exI [of _ None])
    next
      case False
      then show ?thesis using peg_loop_intros(3) [OF x False] at_pos_step [OF Suc.prems False]
        by (fastforce simp: I_incr_def intro!: gives_mono [OF Suc.IH])
    qed
  qed (auto intro!: exI [of _ "Some ([leaf e e], e)"] Until_here)
qed simp

lemma derives_specific_until:
  assumes "calls_derive t V"
  shows "at_pos t i \<Longrightarrow> gives (\<lambda>r. \<exists>q. peg t (ParseSpecificUntil y x) i q \<and> peg_of r = prefixed irs q)
     (specific_until_loop n ae V y x irs i s)"
proof (induction n arbitrary: irs i s)
  case (Suc n)
  have more: "gives (\<lambda>r. \<exists>q. peg t (ParseSpecificUntil y x) i q \<and> peg_of r = prefixed irs q)
      (obind (V y i s) (\<lambda>(r, s). case r of Failed e \<Rightarrow> Ret (Failed (atEnd_context ae irs e), s)
       | Parsed xs e \<Rightarrow> specific_until_loop n ae V y x (irs @ xs) e s))"
    if x: "peg t x i None" for s
  proof (rule derives_call [OF assms Suc.prems])
    fix xs e s
    assume "at_pos t e" "peg t y i (Some (xs, e))"
    then show "gives (\<lambda>r. \<exists>q. peg t (ParseSpecificUntil y x) i q \<and> peg_of r = prefixed irs q)
        (case (Parsed xs e, s) of (r, s) \<Rightarrow> (case r of Failed e \<Rightarrow> Ret (Failed (atEnd_context ae irs e), s)
         | Parsed xs e \<Rightarrow> specific_until_loop n ae V y x (irs @ xs) e s))"
      using peg_loop_intros(4) [OF x] by (fastforce intro!: gives_mono [OF Suc.IH])
  qed (use x in \<open>auto intro!: exI [of _ None] SUntil_fail\<close>)
  show ?case unfolding specific_until_loop.simps
    by (rule derives_call [OF assms Suc.prems])
      (use more in \<open>auto intro!: exI [of _ "Some ([], i)"] SUntil_here\<close>)
qed simp

lemma derives_list_loop:
  assumes "calls_derive t P"
  shows "at_pos t i \<Longrightarrow> gives (\<lambda>r. \<exists>q. peg t (NonEmptyListOf x y) i q \<and> peg_of r = prefixed irs q)
     (list_loop n ae P x y irs i s)"
proof (induction n arbitrary: irs i s)
  case (Suc n)
  have more: "gives (\<lambda>r. \<exists>q. peg t (NonEmptyListOf x y) i q \<and> peg_of r = prefixed irs q)
      (obind (P y j s') (\<lambda>(r, s). case r of Failed _ \<Rightarrow> Ret (Parsed (irs @ xs) j, s)
         | Parsed ms i \<Rightarrow> list_loop n ae P x y (irs @ xs @ ms) i s))"
    if x: "at_pos t j" "peg t x i (Some (xs, j))" for xs j s'
  proof (rule derives_call [OF assms x(1)])
    fix ms k s
    assume "at_pos t k" "peg t y j (Some (ms, k))"
    then show "gives (\<lambda>r. \<exists>q. peg t (NonEmptyListOf x y) i q \<and> peg_of r = prefixed irs q)
      (case (Parsed ms k, s) of (r, s) \<Rightarrow> (case r of Failed _ \<Rightarrow> Ret (Parsed (irs @ xs) j, s)
         | Parsed ms i \<Rightarrow> list_loop n ae P x y (irs @ xs @ ms) i s))"
      using peg_loop_intros(5) [OF x(2)] by (fastforce intro!: gives_mono [OF Suc.IH])
  next
    fix z s
    assume "peg t y j None"
    then show "gives (\<lambda>r. \<exists>q. peg t (NonEmptyListOf x y) i q \<and> peg_of r = prefixed irs q)
      (case (Failed z, s) of (r, s) \<Rightarrow> (case r of Failed _ \<Rightarrow> Ret (Parsed (irs @ xs) j, s)
         | Parsed ms i \<Rightarrow> list_loop n ae P x y (irs @ xs @ ms) i s))"
      using List_last [OF x(2)] by (auto intro!: exI [of _ "Some (xs, j)"])
  qed
  show ?case unfolding list_loop.simps
    by (rule derives_call [OF assms Suc.prems])
      (use more in \<open>auto intro!: exI [of _ None] List_fail\<close>)
qed simp

lemma derives_ntom_loop:
  assumes "calls_derive t P"
  shows "at_pos t i \<Longrightarrow> gives (\<lambda>r. \<exists>q. peg t (NToM (n - got) k x) i q \<and> peg_of r = prefixed irs q)
     (ntom_loop k P n got x irs i s)"
proof (induction k arbitrary: got irs i s)
  case 0
  then show ?case using NToM_end [of t "n - got" x i] by (auto intro!: exI [of _ "Some ([], i)"])
next
  case (Suc k)
  show ?case unfolding ntom_loop.simps
  proof (rule derives_call [OF assms Suc.prems])
    fix xs e s
    assume e: "at_pos t e" "peg t x i (Some (xs, e))"
    have "n - (got + 1) = n - got - 1" by simp
    then show "gives (\<lambda>r. \<exists>q. peg t (NToM (n - got) (Suc k) x) i q \<and> peg_of r = prefixed irs q)
      (case (Parsed xs e, s) of (r, s) \<Rightarrow> (case r of Parsed xs e \<Rightarrow> ntom_loop k P n (got + 1) x (irs @ xs) e s
       | Failed e \<Rightarrow> if got \<ge> n then Ret (Parsed irs i, s)
           else Ret (Failed (mk_Exception (TooFew got) (ex_at e) False), s)))"
      using peg_loop_intros(6) [OF e(2), of "n - got" k] Suc.IH [of e "got + 1" "irs @ xs" s] e(1)
      by (fastforce intro!: gives_mono [OF Suc.IH])
  next
    fix y s
    assume "peg t x i None"
    note stop = NToM_stop [OF this, of "n - got" k]
    show "gives (\<lambda>r. \<exists>q. peg t (NToM (n - got) (Suc k) x) i q \<and> peg_of r = prefixed irs q)
      (case (Failed y, s) of (r, s) \<Rightarrow> (case r of Parsed xs e \<Rightarrow> ntom_loop k P n (got + 1) x (irs @ xs) e s
       | Failed e \<Rightarrow> if got \<ge> n then Ret (Parsed irs i, s)
           else Ret (Failed (mk_Exception (TooFew got) (ex_at e) False), s)))"
    proof (cases "got \<ge> n")
      case True
      then show ?thesis using stop by (auto intro!: exI [of _ "Some ([], i)"])
    next
      case False
      then show ?thesis using stop by (auto intro!: exI [of _ None])
    qed
  qed
qed

section \<open>Characters and literals\<close>

lemma derives_one_char:
  assumes "char_test p = Some f" "\<And>c. (reject c = None) = f c"
  shows "gives (\<lambda>r. peg t p i (peg_of r)) (one_char t reject i s)"
proof -
  note c = Char [OF assms(1), of t i]
  show ?thesis
  proof (cases "I_atEnd t i")
    case True
    then show ?thesis using c by (simp add: one_char_def next_char_def)
  next
    case False
    then show ?thesis using c assms(2) [of "t ! i_x i"]
      by (cases "reject (t ! i_x i)") (auto simp: one_char_def next_char_def I_deref_def I_incr_def)
  qed
qed

lemma mismatch_advance:
  "mismatch_loop t w i = Ret (e, None) \<Longrightarrow> e = advance t (length w) i"
proof (induction w arbitrary: i)
  case (Cons c w)
  then show ?case by (auto simp: I_incr_Ret I_deref_Ret advance_def funpow_swap1 split: if_splits)
qed (simp add: advance_def)

lemma derives_ParseLiteral:
  assumes "at_pos t i"
  shows "gives (\<lambda>r. peg t (ParseLiteral w) i (peg_of r)) (ParseLiteral_parse t w i s)"
  unfolding ParseLiteral_parse_def
proof (rule gives_catch)
  fix a
  assume m: "mismatch_loop t w i = Ret a"
  obtain e d where a: "a = (e, d)" by (cases a)
  show "gives (\<lambda>r. peg t (ParseLiteral w) i (peg_of r)) (case a of (e, d) \<Rightarrow>
       (case d of Some (got, wanted) \<Rightarrow> Ret (Failed (mk_Exception (Mismatch got wanted) e False), s)
       | None \<Rightarrow> Ret (Parsed [leaf i e] e, s)))"
    using Literal [of t w i] mismatch_lookingAt [OF m [unfolded a] assms] mismatch_advance m
    by (auto simp: a split: option.split if_splits)
qed (use Literal [of t w i] mismatch_throw_lookingAt in \<open>auto\<close>)

lemma identifier_loop_advance:
  "identifier_loop n t i = Ret e \<Longrightarrow> i_x i \<le> length t \<Longrightarrow> e = advance t (identifier_length t i) i"
proof (induction n arbitrary: i)
  case (Suc n)
  show ?case
  proof (cases "I_atEnd t i")
    case True
    then show ?thesis using Suc.prems by (simp add: identifier_length_def advance_def I_atEnd_def)
  next
    case False
    then have less: "i_x i < length t" using Suc.prems by (simp add: I_atEnd_def)
    then have d: "drop (i_x i) t = t ! i_x i # drop (Suc (i_x i)) t" by (simp add: Cons_nth_drop_Suc)
    show ?thesis
    proof (cases "isIdentifierContChar (t ! i_x i)")
      case True
      then have "identifier_length t i = Suc (identifier_length t (I_step t i))"
        by (simp add: identifier_length_def d)
      then show ?thesis using Suc.IH [of "I_step t i"] Suc.prems True False less
        by (simp add: I_deref_def I_incr_def advance_def funpow_swap1)
    next
      case no: False
      then show ?thesis using Suc.prems False d
        by (simp add: I_deref_def identifier_length_def advance_def)
    qed
  qed
qed simp

lemma derives_ParseIdentifier:
  assumes "at_pos t i"
  shows "gives (\<lambda>r. peg t ParseIdentifier i (peg_of r)) (ParseIdentifier_parse n t i s)"
proof (cases "I_atEnd t i")
  case True
  then show ?thesis using Identifier [of t i] by (simp add: ParseIdentifier_parse_def next_char_def)
next
  case False
  then have less: "i_x i < length t" using at_pos_less [OF assms] by simp
  then have d: "drop (i_x i) t = t ! i_x i # drop (Suc (i_x i)) t" by (simp add: Cons_nth_drop_Suc)
  show ?thesis
  proof (cases "isIdentifierChar (t ! i_x i)")
    case True
    then have "isIdentifierContChar (t ! i_x i)" by (simp add: isIdentifierContChar_def)
    then have "identifier_length t i = Suc (identifier_length t (I_step t i))"
      by (simp add: identifier_length_def d)
    then have "e = advance t (identifier_length t i) i" if "identifier_loop n t (I_step t i) = Ret e" for e
      using identifier_loop_advance [OF that] less by (simp add: advance_def funpow_swap1)
    then show ?thesis using Identifier [of t i] True False
      by (auto intro!: gives_pure simp: ParseIdentifier_parse_def next_char_def I_deref_def I_incr_def Let_def)
  next
    case no: False
    then show ?thesis using Identifier [of t i] False
      by (simp add: ParseIdentifier_parse_def next_char_def I_deref_def)
  qed
qed

lemma derives_ParseHash: "gives (\<lambda>r. peg t ParseHash i (peg_of r)) (ParseHash_parse t i s)"
  using Hash [of t i]
  by (auto simp: ParseHash_parse_def next_char_def I_deref_def I_incr_def split: if_splits)

lemma derives_ParseEndOfFile:
  "gives (\<lambda>r. peg t ParseEndOfFile i (peg_of r)) (ParseEndOfFile_parse t i s)"
  using EndOfFile [of t i] by (auto simp: ParseEndOfFile_parse_def I_deref_def)

lemma derives_NamedParser:
  assumes "calls_derive t P" "at_pos t i"
  shows "gives (\<lambda>r. peg t (NamedParser y name x) i (peg_of r)) (NamedParser_parse P y x i s)"
  unfolding NamedParser_parse_def
proof (rule derives_call [OF assms])
  fix irs e s
  assume "peg t x i (Some (irs, e))"
  from Named [OF this, of y name] show "gives (\<lambda>r. peg t (NamedParser y name x) i (peg_of r))
      (case (Parsed irs e, s) of (r, s) \<Rightarrow> (case r of Failed e \<Rightarrow> Ret (Failed e, s)
       | Parsed irs e \<Rightarrow> obind (construct y (if irs = [] then [leaf i i] else irs)) (\<lambda>z. Ret (Parsed [z] e, s))))"
    by (auto intro!: gives_pure dest: construct_composite)
next
  fix z s
  assume "peg t x i None"
  from Named [OF this, of y name] show "gives (\<lambda>r. peg t (NamedParser y name x) i (peg_of r))
      (case (Failed z, s) of (r, s) \<Rightarrow> (case r of Failed e \<Rightarrow> Ret (Failed e, s)
       | Parsed irs e \<Rightarrow> obind (construct y (if irs = [] then [leaf i i] else irs)) (\<lambda>z. Ret (Parsed [z] e, s))))"
    by simp
qed

section \<open>Raw strings and balanced text\<close>

lemma derives_raw_tail:
  assumes "calls_derive t P" "at_pos t i" "at_pos t j"
    and "peg t raw_prefix i (Some (xs, b))" "raw_delimiter t b = Ret (j, None)"
  shows "gives (\<lambda>r. peg t ParseRawStringLiteral i (peg_of r))
    (obind (P (ParseUntil (parseLiteral (raw_end t b j))) j s) (\<lambda>(rr, s). case rr of
        Failed x \<Rightarrow> Ret (Failed (mk_Exception (EndDelimeterNotFound (raw_end t b j)) (ex_at x) False), s)
      | Parsed _ e \<Rightarrow> obind (P (parseLiteral (raw_end t b j)) e s) (\<lambda>(rrr, s). case rrr of
          Failed _ \<Rightarrow> Abort | Parsed _ e' \<Rightarrow> Ret (Parsed [leaf i e'] e', s))))"
proof (rule derives_call [OF assms(1,3)])
  let ?l = "parseLiteral (raw_end t b j)"
  fix ys e s
  assume e: "at_pos t e" and u: "peg t (ParseUntil ?l) j (Some (ys, e))"
  have "gives (\<lambda>r. peg t ParseRawStringLiteral i (peg_of r)) (obind (P ?l e s) (\<lambda>(rrr, s). case rrr of
          Failed _ \<Rightarrow> Abort | Parsed _ e' \<Rightarrow> Ret (Parsed [leaf i e'] e', s)))"
  proof (rule derives_call [OF assms(1) e])
    fix zs e' s
    assume "peg t ?l e (Some (zs, e'))"
    from And_Cons [OF u And_Cons [OF this And_Nil]] have
      "peg t (ParseAnd [ParseUntil ?l, ?l]) j (Some (ys @ zs @ [], e'))" .
    from Raw [OF assms(4,5) this] show "gives (\<lambda>r. peg t ParseRawStringLiteral i (peg_of r))
        (case (Parsed zs e', s) of (rrr, s) \<Rightarrow> (case rrr of
          Failed _ \<Rightarrow> Abort | Parsed _ e' \<Rightarrow> Ret (Parsed [leaf i e'] e', s)))"
      by simp
  qed simp
  then show "gives (\<lambda>r. peg t ParseRawStringLiteral i (peg_of r)) (case (Parsed ys e, s) of (rr, s) \<Rightarrow> (case rr of
        Failed x \<Rightarrow> Ret (Failed (mk_Exception (EndDelimeterNotFound (raw_end t b j)) (ex_at x) False), s)
      | Parsed _ e \<Rightarrow> obind (P ?l e s) (\<lambda>(rrr, s). case rrr of
          Failed _ \<Rightarrow> Abort | Parsed _ e' \<Rightarrow> Ret (Parsed [leaf i e'] e', s))))"
    by simp
next
  fix x s
  assume "peg t (ParseUntil (parseLiteral (raw_end t b j))) j None"
  from Raw [OF assms(4,5) And_fail [OF this]] show "gives (\<lambda>r. peg t ParseRawStringLiteral i (peg_of r))
      (case (Failed x, s) of (rr, s) \<Rightarrow> (case rr of
        Failed x \<Rightarrow> Ret (Failed (mk_Exception (EndDelimeterNotFound (raw_end t b j)) (ex_at x) False), s)
      | Parsed _ e \<Rightarrow> obind (P (parseLiteral (raw_end t b j)) e s) (\<lambda>(rrr, s). case rrr of
          Failed _ \<Rightarrow> Abort | Parsed _ e' \<Rightarrow> Ret (Parsed [leaf i e'] e', s))))"
    by simp
qed

lemma derives_raw:
  assumes "calls_derive t P" "at_pos t i"
  shows "gives (\<lambda>r. peg t ParseRawStringLiteral i (peg_of r)) (ParseRawStringLiteral_parse t P i s)"
  unfolding ParseRawStringLiteral_parse_def
proof (rule derives_call [OF assms])
  fix xs b s
  assume b: "at_pos t b" and p: "peg t raw_prefix i (Some (xs, b))"
  have "gives (\<lambda>r. peg t ParseRawStringLiteral i (peg_of r)) (catch_end s (raw_delimiter t b) (\<lambda>(j, bad).
      case bad of Some k \<Rightarrow> Ret (Failed (mk_Exception k j False), s)
      | None \<Rightarrow> let l = parseLiteral (raw_end t b j) in obind (P (ParseUntil l) j s) (\<lambda>(rr, s). case rr of
          Failed x \<Rightarrow> Ret (Failed (mk_Exception (EndDelimeterNotFound (raw_end t b j)) (ex_at x) False), s)
        | Parsed _ e \<Rightarrow> obind (P l e s) (\<lambda>(rrr, s). case rrr of
            Failed _ \<Rightarrow> Abort | Parsed _ e' \<Rightarrow> Ret (Parsed [leaf i e'] e', s)))))"
  proof (rule gives_catch)
    fix a
    assume a: "raw_delimiter t b = Ret a"
    obtain j bad where j: "a = (j, bad)" by (cases a)
    have "at_pos t j" using raw_delimiter_at_pos b a j by blast
    then show "gives (\<lambda>r. peg t ParseRawStringLiteral i (peg_of r)) (case a of (j, bad) \<Rightarrow> (
      case bad of Some k \<Rightarrow> Ret (Failed (mk_Exception k j False), s)
      | None \<Rightarrow> let l = parseLiteral (raw_end t b j) in obind (P (ParseUntil l) j s) (\<lambda>(rr, s). case rr of
          Failed x \<Rightarrow> Ret (Failed (mk_Exception (EndDelimeterNotFound (raw_end t b j)) (ex_at x) False), s)
        | Parsed _ e \<Rightarrow> obind (P l e s) (\<lambda>(rrr, s). case rrr of
            Failed _ \<Rightarrow> Abort | Parsed _ e' \<Rightarrow> Ret (Parsed [leaf i e'] e', s)))))"
      using Raw_bad [OF p] derives_raw_tail [OF assms _ p] a j by (cases bad) (simp_all add: Let_def)
  qed (use Raw_end [OF p] in simp)
  then show "gives (\<lambda>r. peg t ParseRawStringLiteral i (peg_of r)) (case (Parsed xs b, s) of (r, s) \<Rightarrow> (
      case r of Failed x \<Rightarrow> Ret (Failed x, s) | Parsed _ b \<Rightarrow> catch_end s (raw_delimiter t b) (\<lambda>(j, bad).
      case bad of Some k \<Rightarrow> Ret (Failed (mk_Exception k j False), s)
      | None \<Rightarrow> let l = parseLiteral (raw_end t b j) in obind (P (ParseUntil l) j s) (\<lambda>(rr, s). case rr of
          Failed x \<Rightarrow> Ret (Failed (mk_Exception (EndDelimeterNotFound (raw_end t b j)) (ex_at x) False), s)
        | Parsed _ e \<Rightarrow> obind (P l e s) (\<lambda>(rrr, s). case rrr of
            Failed _ \<Rightarrow> Abort | Parsed _ e' \<Rightarrow> Ret (Parsed [leaf i e'] e', s))))))"
    by simp
qed (simp add: Raw_prefix)

fun skip_of :: "Exception + I \<Rightarrow> I option" where
  "skip_of (Inl x) = None"
| "skip_of (Inr e) = Some e"

lemma derives_skip_parsed:
  assumes "calls_derive t V" "at_pos t e" "\<And>r. peg t p e r \<Longrightarrow> peg_skip t a e (map_option snd r)"
  shows "gives (\<lambda>k. peg_skip t a e (skip_of k)) (skip_parsed V p e s)"
  unfolding skip_parsed_def
  by (rule derives_call [OF assms(1,2)]) (use assms(3) in fastforce)+

lemma derives_skip_nested:
  assumes V: "calls_derive t V" and e: "at_pos t e" "\<not> I_atEnd t e"
    and nested: "\<not> looking_at_raw t e" "bracket a (t ! i_x e) = Some c"
  shows "gives (\<lambda>k. peg_skip t a e (skip_of k)) (skip_nested t V [c] a e s)"
proof -
  note rule = skip_nested [OF nested]
  have "gives (\<lambda>k. peg_skip t a e (skip_of k))
     (obind (V (balanced (parseOneOfChars [c]) a) (I_step t e) s) (\<lambda>(r, s).
         case r of Failed x \<Rightarrow> Ret (Inl x, s)
         | Parsed _ e \<Rightarrow> obind (I_incr t e) (\<lambda>e. Ret (Inr e, s))))"
  proof (rule derives_call [OF V at_pos_step [OF e]])
    fix xs j s
    assume "peg t (balanced (parseOneOfChars [c]) a) (I_step t e) (Some (xs, j))"
    from rule [OF this] show "gives (\<lambda>k. peg_skip t a e (skip_of k)) (case (Parsed xs j, s) of (r, s) \<Rightarrow>
         (case r of Failed x \<Rightarrow> Ret (Inl x, s) | Parsed _ e \<Rightarrow> obind (I_incr t e) (\<lambda>e. Ret (Inr e, s))))"
      by (auto intro!: gives_pure simp: I_incr_Ret)
  next
    fix x s
    assume "peg t (balanced (parseOneOfChars [c]) a) (I_step t e) None"
    from rule [OF this] show "gives (\<lambda>k. peg_skip t a e (skip_of k)) (case (Failed x, s) of (r, s) \<Rightarrow>
         (case r of Failed x \<Rightarrow> Ret (Inl x, s) | Parsed _ e \<Rightarrow> obind (I_incr t e) (\<lambda>e. Ret (Inr e, s))))"
      by simp
  qed
  then show ?thesis using e(2) by (simp add: skip_nested_def I_incr_def)
qed

lemma derives_skip_comment:
  assumes "calls_derive t V" "at_pos t e" "\<not> I_atEnd t e"
    and "\<not> looking_at_raw t e" "t ! i_x e = CHR ''/''"
  shows "gives (\<lambda>k. peg_skip t a e (skip_of k)) (skip_comment t V e s)"
  unfolding skip_comment_def
proof (rule derives_call [OF assms(1,2)])
  note rule = skip_comment [OF assms(4,5)]
  show "gives (\<lambda>k. peg_skip t a e (skip_of k)) (case (Parsed xs j, s) of (r, s) \<Rightarrow>
      (case r of Parsed _ e' \<Rightarrow> Ret (Inr e', s) | Failed _ \<Rightarrow> skip_char t e s))"
    if "peg t comments e (Some (xs, j))" for xs j s
    using rule [OF that] by simp
  show "gives (\<lambda>k. peg_skip t a e (skip_of k)) (case (Failed x, s) of (r, s) \<Rightarrow>
      (case r of Parsed _ e' \<Rightarrow> Ret (Inr e', s) | Failed _ \<Rightarrow> skip_char t e s))"
    if "peg t comments e None" for x s
    using rule [OF that] assms(3) by (simp add: skip_char_def I_incr_def)
qed

lemma derives_balanced_step:
  assumes "calls_derive t V" "at_pos t e" "\<not> I_atEnd t e"
  shows "gives (\<lambda>k. peg_skip t a e (skip_of k)) (balanced_step t V a e s)"
proof (cases "looking_at_raw t e")
  case True
  then show ?thesis
    by (simp add: balanced_step_def derives_skip_parsed [OF assms(1,2)] skip_raw)
next
  case False
  let ?c = "t ! i_x e"
  have char: "gives (\<lambda>k. peg_skip t a e (skip_of k)) (skip_char t e s)"
    if "bracket a ?c = None" "?c \<notin> {CHR 0x27, CHR 0x22, CHR ''/''}"
    using skip_other [OF False that] assms(3) by (simp add: skip_char_def I_incr_def)
  note nested = derives_skip_nested [OF assms False]
  show ?thesis using False assms(3)
    by (simp add: balanced_step_def I_deref_def derives_skip_parsed [OF assms(1,2)] skip_quote skip_string
        derives_skip_comment [OF assms False] nested bracket_def char)
qed

lemma calls_derive_span: "calls_derive t V \<Longrightarrow> calls_span t V"
  by (auto simp: calls_give_def gives_def derives_def)

lemma balanced_step_positions:
  assumes "calls_derive t V" "at_pos t e"
  shows "gives (\<lambda>k. \<forall>j. k = Inr j \<longrightarrow> at_pos t j) (balanced_step t V a e s)"
  by (rule gives_mono [OF spans_balanced_step [OF calls_derive_span [OF assms(1)] assms(2) order_refl]])
    (auto simp: skip_span_def split: sum.splits)

lemma derives_balanced_loop:
  assumes "calls_derive t V"
  shows "at_pos t e \<Longrightarrow> gives (\<lambda>r. \<exists>q. peg t (ParseBalanced u a) e q \<and> peg_of r = leaf_from b q)
     (balanced_loop n t V u a b e s)"
proof (induction n arbitrary: e s)
  case (Suc n)
  have step: "gives (\<lambda>r. \<exists>q. peg t (ParseBalanced u a) e q \<and> peg_of r = leaf_from b q)
      (obind (balanced_step t V a e s) (\<lambda>(k, s). case k of
         Inl x \<Rightarrow> Ret (Failed x, s) | Inr e \<Rightarrow> balanced_loop n t V u a b e s))"
    if u: "peg t u e None" and more: "\<not> I_atEnd t e" for s
  proof (rule gives_obind [OF gives_conj [OF derives_balanced_step [OF assms Suc.prems more]
        balanced_step_positions [OF assms Suc.prems]]])
    fix k s
    assume k: "peg_skip t a e (skip_of k) \<and> (\<forall>j. k = Inr j \<longrightarrow> at_pos t j)"
    show "gives (\<lambda>r. \<exists>q. peg t (ParseBalanced u a) e q \<and> peg_of r = leaf_from b q)
      (case (k, s) of (k, s) \<Rightarrow> (case k of Inl x \<Rightarrow> Ret (Failed x, s) | Inr e \<Rightarrow> balanced_loop n t V u a b e s))"
    proof (cases k)
      case (Inl x)
      then show ?thesis using Balanced_fail [OF u more] k by (auto intro!: exI [of _ None])
    next
      case (Inr j)
      then have "at_pos t j" "peg_skip t a e (Some j)" using k by simp_all
      then show ?thesis using peg_loop_intros(7) [OF u more] Inr
        by (fastforce intro!: gives_mono [OF Suc.IH])
    qed
  qed
  show ?case unfolding balanced_loop.simps
  proof (rule derives_call [OF assms Suc.prems])
    fix y s
    assume u: "peg t u e None"
    show "gives (\<lambda>r. \<exists>q. peg t (ParseBalanced u a) e q \<and> peg_of r = leaf_from b q)
      (case (Failed y, s) of (r, s) \<Rightarrow> (case r of Parsed _ _ \<Rightarrow> Ret (Parsed [leaf b e] e, s)
       | Failed _ \<Rightarrow> if I_atEnd t e then Ret (Failed (EndOfInput e), s)
           else obind (balanced_step t V a e s) (\<lambda>(k, s). case k of
             Inl x \<Rightarrow> Ret (Failed x, s) | Inr e \<Rightarrow> balanced_loop n t V u a b e s)))"
      using step [OF u] Balanced_end [OF u] by (auto intro!: exI [of _ None])
  qed (auto intro!: exI [of _ "Some ([leaf e e], e)"] Balanced_here)
qed simp

section \<open>The engine\<close>

lemma derives_loops:
  "gives (\<lambda>r. \<exists>q. peg t p i q \<and> peg_of r = prefixed [] q) m \<Longrightarrow> gives (\<lambda>r. peg t p i (peg_of r)) m"
  "gives (\<lambda>r. \<exists>q. peg t p i (Some q) \<and> peg_of r = prefixed [] (Some q)) m \<Longrightarrow>
     gives (\<lambda>r. peg t p i (peg_of r)) m"
  by (erule gives_mono; auto)+

lemma leaf_from_idem [simp]:
  "leaf_from i (map_option (\<lambda>(_, e). ([leaf i e], e)) r) = map_option (\<lambda>(_, e). ([leaf i e], e)) r"
  by (cases r) (auto simp: leaf_from_def)

inductive_cases Until_E: "peg t (ParseUntil x) i r"
inductive_cases Balanced_E: "peg t (ParseBalanced u a) i r"

lemma leaf_from_same:
  "peg t (ParseUntil x) i q \<Longrightarrow> leaf_from i q = q"
  "peg t (ParseBalanced u a) i q \<Longrightarrow> leaf_from i q = q"
  by (erule Until_E; simp) (erule Balanced_E; simp)

lemma peg_body:
  assumes P: "calls_derive t P" and V: "calls_derive t V" and i: "at_pos t i"
  shows "gives (\<lambda>r. peg t p i (peg_of r)) (parse_body n ae t P V p i s)"
proof -
  have calls: "gives (\<lambda>r. peg t q i (peg_of r)) (P q i s)" "gives (\<lambda>r. peg t q i (peg_of r)) (V q i s)" for q
    using calls_giveD [OF P i] calls_giveD [OF V i] by (auto simp: gives_def derives_def)
  have Until: "gives (\<lambda>r. peg t (ParseUntil x) i (peg_of r)) (until_loop n t V x i i s)" for x
    by (rule gives_mono [OF derives_until [OF V i]]) (auto simp: leaf_from_same)
  have Balanced: "gives (\<lambda>r. peg t (ParseBalanced u a) i (peg_of r)) (balanced_loop n t V u a i i s)" for u a
    by (rule gives_mono [OF derives_balanced_loop [OF V i]]) (auto simp: leaf_from_same)
  have NToM: "gives (\<lambda>r. peg t (NToM l m x) i (peg_of r)) (ntom_loop m P l 0 x [] i s)" for l m x
    using derives_ntom_loop [OF P i, of l 0 m x "[]" s] by (intro derives_loops(1)) simp
  show ?thesis unfolding parse_body_def
    by (cases p)
      (simp_all add: derives_Optional [OF P i] derives_ParseNot [OF P i] derives_ParseAnd [OF P i]
        derives_or_loop [OF P i] derives_zeroOrMore [OF P i, THEN derives_loops(2)] Until Balanced NToM
        derives_specific_until [OF V i, THEN derives_loops(1)] derives_list_loop [OF P i, THEN derives_loops(1)]
        derives_ParseLiteral [OF i] derives_ParseIdentifier [OF i] derives_ParseHash derives_ParseEndOfFile
        derives_NamedParser [OF P i] derives_raw [OF P i] gives_mono [OF calls(1) Anon]
        gives_mono [OF calls(2) Static] gives_mono [OF calls(2) VarFp] gives_mono [OF calls(2) Self]
        gives_mono [OF calls(2) Class] derives_one_char ParseAnyChar_parse_def ParseOneOfChars_parse_def
        ParseOneOfChars2_parse_def ParseAnyCharExcept_parse_def ParseCharInRange_parse_def)
qed

lemma derives_body:
  assumes "calls_derive t P" "calls_derive t V"
  shows "calls_derive t (parse_body n ae t P V)"
proof -
  have "calls_span t (parse_body n ae t P V)"
    using assms by (intro spans_body calls_derive_span)
  then show ?thesis using peg_body [OF assms] unfolding calls_give_def
    by (auto simp: derives_def [abs_def] intro!: gives_conj)
qed

lemma derives_context: "derives t p i r \<Longrightarrow> derives t p i (result_context p i r)"
  by (cases r) (auto simp: derives_def result_context_def addContext_def spans_Failed)

lemma parse_derives: "calls_derive t (plain_parse ae t n)"
  by (rule plain_gives(2)) (auto intro: derives_body derives_context)

section \<open>Derivations are unique\<close>

inductive_cases peg_elims:
  "peg t (Static k) i r" "peg t (Optional x) i r" "peg t (ParseZeroOrMore x) i r" "peg t (ParseAnd []) i r"
  "peg t (ParseAnd (p # ps)) i r" "peg t (ParseOr []) i r" "peg t (ParseOr (p # ps)) i r"
  "peg t (ParseNot x) i r" "peg t (ParseSpecificUntil q x) i r" "peg t (ParseLiteral w) i r"
  "peg t ParseIdentifier i r" "peg t ParseHash i r" "peg t ParseEndOfFile i r"
  "peg t ParseRawStringLiteral i r" "peg t (AnonParser name x) i r" "peg t (NamedParser y name x) i r"
  "peg t (NonEmptyListOf x q) i r" "peg t (NToM n 0 x) i r" "peg t (NToM n (Suc m) x) i r"
  "peg t VarFpBackref i r" "peg t (SelfParser k) i r" "peg t (ParseClass tp q) i r"

inductive_cases skip_E: "peg_skip t a i r"

lemma char_test_E:
  assumes "peg t p i r" "char_test p = Some f"
  shows "r = (case next_char t i of None \<Rightarrow> None
      | Some c \<Rightarrow> if f c then Some ([leaf i (I_step t i)], I_step t i) else None)"
  using assms by (cases rule: peg.cases) auto

lemmas peg_inversions = Until_E Balanced_E peg_elims

lemma bracket_other [simp]:
  "bracket a CHR 0x27 = None" "bracket a CHR 0x22 = None" "bracket a CHR ''/'' = None"
  by (simp_all add: bracket_def)

lemma peg_unique:
  "peg t p i r \<Longrightarrow> (\<And>r'. peg t p i r' \<Longrightarrow> r' = r)"
  "peg_skip t a i v \<Longrightarrow> (\<And>v'. peg_skip t a i v' \<Longrightarrow> v' = v)"
proof (induction p i r and a i v rule: peg_peg_skip.inducts)
  case Static
  from Static.prems show ?case by - (erule peg_inversions; (auto dest!: Static.IH(2)))
next
  case Optional_Some
  from Optional_Some.prems show ?case by - (erule peg_inversions; (auto dest!: Optional_Some.IH(2)))
next
  case Optional_None
  from Optional_None.prems show ?case by - (erule peg_inversions; (auto dest!: Optional_None.IH(2)))
next
  case Star_end
  from Star_end.prems show ?case by - (erule peg_inversions; (auto dest!: Star_end.IH(2)))
next
  case Star_more
  from Star_more.prems show ?case by - (erule peg_inversions; (auto dest!: Star_more.IH(2,4)))
next
  case And_Nil
  from And_Nil.prems show ?case by - (erule peg_inversions; (auto))
next
  case And_fail
  from And_fail.prems show ?case by - (erule peg_inversions; (auto dest!: And_fail.IH(2)))
next
  case And_later
  from And_later.prems show ?case by - (erule peg_inversions; (auto dest!: And_later.IH(2,4)))
next
  case And_Cons
  from And_Cons.prems show ?case by - (erule peg_inversions; (auto dest!: And_Cons.IH(2,4)))
next
  case Or_Nil
  from Or_Nil.prems show ?case by - (erule peg_inversions; (auto))
next
  case Or_here
  from Or_here.prems show ?case by - (erule peg_inversions; (auto dest!: Or_here.IH(2)))
next
  case Or_later
  from Or_later.prems show ?case by - (erule peg_inversions; (auto dest!: Or_later.IH(2,4)))
next
  case Not_None
  from Not_None.prems show ?case by - (erule peg_inversions; (auto dest!: Not_None.IH(2)))
next
  case Not_Some
  from Not_Some.prems show ?case by - (erule peg_inversions; (auto dest!: Not_Some.IH(2)))
next
  case (Char p f i r')
  then show ?case using char_test_E by blast
next
  case Until_here
  from Until_here.prems show ?case by - (erule peg_inversions; (auto dest!: Until_here.IH(2)))
next
  case Until_end
  from Until_end.prems show ?case by - (erule peg_inversions; use Until_end.IH(3) in \<open>(auto dest!: Until_end.IH(2))\<close>)
next
  case Until_next
  from Until_next.prems show ?case by - (erule peg_inversions; use Until_next.IH(3) in \<open>(auto dest!: Until_next.IH(2,5))\<close>)
next
  case SUntil_here
  from SUntil_here.prems show ?case by - (erule peg_inversions; (auto dest!: SUntil_here.IH(2)))
next
  case SUntil_fail
  from SUntil_fail.prems show ?case by - (erule peg_inversions; (auto dest!: SUntil_fail.IH(2,4)))
next
  case SUntil_next
  from SUntil_next.prems show ?case by - (erule peg_inversions; (auto dest!: SUntil_next.IH(2,4,6)))
next
  case Literal
  from Literal.prems show ?case by - (erule peg_inversions; (auto))
next
  case Identifier
  from Identifier.prems show ?case by - (erule peg_inversions; (auto))
next
  case Hash
  from Hash.prems show ?case by - (erule peg_inversions; (auto))
next
  case EndOfFile
  from EndOfFile.prems show ?case by - (erule peg_inversions; (auto))
next
  case Raw_prefix
  from Raw_prefix.prems show ?case by - (erule peg_inversions; (auto dest!: Raw_prefix.IH(2)))
next
  case Raw_end
  from Raw_end.prems show ?case by - (erule peg_inversions; use Raw_end.IH(3) in \<open>(auto dest!: Raw_end.IH(2))\<close>)
next
  case Raw_bad
  from Raw_bad.prems show ?case by - (erule peg_inversions; use Raw_bad.IH(3) in \<open>(auto dest!: Raw_bad.IH(2))\<close>)
next
  case Raw
  from Raw.prems show ?case by - (erule peg_inversions; use Raw.IH(3) in \<open>(auto dest!: Raw.IH(2,5))\<close>)
next
  case Balanced_here
  from Balanced_here.prems show ?case by - (erule peg_inversions; (auto dest!: Balanced_here.IH(2)))
next
  case Balanced_end
  from Balanced_end.prems show ?case by - (erule peg_inversions; use Balanced_end.IH(3) in \<open>(auto dest!: Balanced_end.IH(2))\<close>)
next
  case Balanced_fail
  from Balanced_fail.prems show ?case by - (erule peg_inversions; use Balanced_fail.IH(3) in \<open>(auto dest!: Balanced_fail.IH(2,5))\<close>)
next
  case Balanced_next
  from Balanced_next.prems show ?case by - (erule peg_inversions; use Balanced_next.IH(3) in \<open>(auto dest!: Balanced_next.IH(2,5,7))\<close>)
next
  case Anon
  from Anon.prems show ?case by - (erule peg_inversions; (auto dest!: Anon.IH(2)))
next
  case Named
  from Named.prems show ?case by - (erule peg_inversions; (auto dest!: Named.IH(2)))
next
  case List_fail
  from List_fail.prems show ?case by - (erule peg_inversions; (auto dest!: List_fail.IH(2)))
next
  case List_last
  from List_last.prems show ?case by - (erule peg_inversions; (auto dest!: List_last.IH(2,4)))
next
  case List_more
  from List_more.prems show ?case by - (erule peg_inversions; (auto dest!: List_more.IH(2,4,6)))
next
  case NToM_end
  from NToM_end.prems show ?case by - (erule peg_inversions; (auto))
next
  case NToM_stop
  from NToM_stop.prems show ?case by - (erule peg_inversions; (auto dest!: NToM_stop.IH(2)))
next
  case NToM_more
  from NToM_more.prems show ?case by - (erule peg_inversions; auto dest!: NToM_more.IH(2) NToM_more.IH(4) [simplified])
next
  case VarFp
  from VarFp.prems show ?case by - (erule peg_inversions; (auto dest!: VarFp.IH(2)))
next
  case Self
  from Self.prems show ?case by - (erule peg_inversions; (auto dest!: Self.IH(2)))
next
  case Class
  from Class.prems show ?case by - (erule peg_inversions; (auto dest!: Class.IH(2)))
next
  case skip_raw
  from skip_raw.prems show ?case by - (erule skip_E; use skip_raw.IH(1) in \<open>(auto dest!: skip_raw.IH(3))\<close>)
next
  case skip_quote
  from skip_quote.prems show ?case by - (erule skip_E; use skip_quote.IH(1,2) in \<open>(auto dest!: skip_quote.IH(4))\<close>)
next
  case skip_string
  from skip_string.prems show ?case by - (erule skip_E; use skip_string.IH(1,2) in \<open>(auto dest!: skip_string.IH(4))\<close>)
next
  case skip_nested
  from skip_nested.prems show ?case by - (erule skip_E; use skip_nested.IH(1,2) in \<open>(auto dest!: skip_nested.IH(4))\<close>)
next
  case skip_comment
  from skip_comment.prems show ?case by - (erule skip_E; use skip_comment.IH(1,2) in \<open>(auto dest!: skip_comment.IH(4))\<close>)
next
  case skip_other
  from skip_other.prems show ?case by - (erule skip_E; use skip_other.IH(1,2,3) in \<open>(auto)\<close>)
qed

section \<open>The static parsers\<close>

lemma parser_derives:
  assumes "parser_parse ae t n (Static k) i Map.empty = Ret (r, c)" "at_pos t i"
  shows "peg t (Static k) i (peg_of r)"
proof -
  from static_plain [OF assms] obtain m where "plain_parse ae t m (Static k) i () = Ret (r, ())" by blast
  then show ?thesis
    using calls_giveD [OF parse_derives [of t ae m] assms(2), of "Static k" "()"]
    by (simp add: gives_def derives_def)
qed

lemma parser_complete:
  assumes "peg t (Static k) i q" "at_pos t i"
  shows "\<exists>n r c. parser_parse ae t n (Static k) i Map.empty = Ret (r, c) \<and> peg_of r = q"
proof -
  obtain n r c where "\<And>m. parser_parse ae t (n + m) (Static k) i Map.empty = Ret (r, c)"
    using static_returns_at [OF assms(2)] by blast
  from this [of 0] have run: "parser_parse ae t n (Static k) i Map.empty = Ret (r, c)" by simp
  have "peg_of r = q" using peg_unique(1) [OF assms(1) parser_derives [OF run assms(2)]] .
  with run show ?thesis by blast
qed

end
