(* ===== verification/HcpOffsets.thy ===== *)
theory HcpOffsets
  imports HcpSplit
begin

text \<open>
  The offset maps of \<^verbatim>\<open>hcp-split\<close> are exact.  An output stream is a sequence of segments, parts of the
  source and text made up; whatever the \<open>gen\<close> functions do, the map of the stream sends the offset of
  every copied character to its offset in the source, and later output does not change that.
\<close>

section \<open>Offset maps\<close>

definition map_ok :: "nat \<Rightarrow> offset_map \<Rightarrow> bool" where
  "map_ok n m \<longleftrightarrow> sorted_wrt (<) (map fst m) \<and> (\<forall>e \<in> set m. fst e \<le> n)"

lemma takeWhile_sorted_append:
  "k < (k' :: nat) \<Longrightarrow> takeWhile (\<lambda>e. fst e \<le> k) (m @ [(k', v)]) = takeWhile (\<lambda>e. fst e \<le> k) m"
  by (induction m) auto

lemma map_offset_append_less: "k < k' \<Longrightarrow> map_offset (m @ [(k', v)]) k = map_offset m k"
  by (simp add: map_offset_def takeWhile_sorted_append)

lemma map_offset_last:
  assumes "\<forall>e \<in> set m. fst e \<le> k"
  shows "map_offset m k = (if m = [] then k else k - fst (last m) + snd (last m))"
proof -
  have "takeWhile (\<lambda>e. fst e \<le> k) m = m" using assms by (simp add: takeWhile_eq_all_conv)
  then show ?thesis by (simp only: map_offset_def Let_def)
qed

lemma insort_append:
  "\<forall>e \<in> set m. fst e < fst x \<Longrightarrow> insort_key fst x m = m @ [x]" for x :: "nat \<times> nat"
  by (induction m) auto

lemma offset_insert_new:
  "\<forall>e \<in> set m. fst e < k \<Longrightarrow> offset_insert k v m = m @ [(k, v)]"
  by (auto simp: offset_insert_def insort_append)

section \<open>Segments\<close>

datatype segment = Source I I | Made string

primrec segment_text :: "string \<Rightarrow> segment \<Rightarrow> string" where
  "segment_text txt (Source b e) = slice txt b e"
| "segment_text txt (Made s) = s"

definition segments_text :: "string \<Rightarrow> segment list \<Rightarrow> string" where
  "segments_text txt ss = concat (map (segment_text txt) ss)"

lemma segments_text_simps [simp]:
  "segments_text txt [] = []"
  "segments_text txt (s # ss) = segment_text txt s @ segments_text txt ss"
  "segments_text txt (ss @ ss') = segments_text txt ss @ segments_text txt ss'"
  by (simp_all add: segments_text_def)

text \<open>The characters of the source segments of an output that starts at offset \<open>k\<close> have the right
  entries.\<close>

fun maps_exactly :: "string \<Rightarrow> offset_map \<Rightarrow> nat \<Rightarrow> segment list \<Rightarrow> bool" where
  "maps_exactly txt m k [] = True"
| "maps_exactly txt m k (Source b e # ss) =
     ((\<forall>j < length (slice txt b e). map_offset m (k + j) = i_offset b + j) \<and>
      maps_exactly txt m (k + length (slice txt b e)) ss)"
| "maps_exactly txt m k (Made s # ss) = maps_exactly txt m (k + length s) ss"

lemma exact_append:
  "maps_exactly txt m k (ss @ ss') \<longleftrightarrow> maps_exactly txt m k ss \<and> maps_exactly txt m (k + length (segments_text txt ss)) ss'"
  by (induction "txt" m k ss rule: maps_exactly.induct) (auto simp: add.assoc)

lemma exact_cong:
  "maps_exactly txt m k ss \<Longrightarrow> (\<And>n. n < k + length (segments_text txt ss) \<Longrightarrow> map_offset m' n = map_offset m n) \<Longrightarrow>
     maps_exactly txt m' k ss"
  by (induction "txt" m k ss rule: maps_exactly.induct) auto

section \<open>Writing\<close>

definition stream_ok :: "OStream \<Rightarrow> bool" where
  "stream_ok os \<longleftrightarrow> os_offset os = length (os_text os) \<and> map_ok (os_offset os) (os_map os)"

definition writes_segments :: "string \<Rightarrow> segment list \<Rightarrow> OStream \<Rightarrow> OStream \<Rightarrow> bool" where
  "writes_segments txt ss os os' \<longleftrightarrow>
     (stream_ok os \<longrightarrow> stream_ok os' \<and> os_text os' = os_text os @ segments_text txt ss \<and>
        (\<forall>n < os_offset os. map_offset (os_map os') n = map_offset (os_map os) n) \<and>
        maps_exactly txt (os_map os') (os_offset os) ss)"

lemma stream_ok_new: "stream_ok OStream_new"
  by (simp add: stream_ok_def OStream_new_def map_ok_def)

lemma writes_refl: "writes_segments txt [] os os"
  by (simp add: writes_segments_def)

lemma writes_trans:
  assumes "writes_segments txt ss os os1" "writes_segments txt ss' os1 os2"
  shows "writes_segments txt (ss @ ss') os os2"
  unfolding writes_segments_def
proof (intro impI conjI)
  assume ok: "stream_ok os"
  from assms(1) ok have 1: "stream_ok os1" "os_text os1 = os_text os @ segments_text txt ss"
    "\<forall>n < os_offset os. map_offset (os_map os1) n = map_offset (os_map os) n"
    "maps_exactly txt (os_map os1) (os_offset os) ss"
    by (simp_all add: writes_segments_def)
  from assms(2) 1(1) have 2: "stream_ok os2" "os_text os2 = os_text os1 @ segments_text txt ss'"
    "\<forall>n < os_offset os1. map_offset (os_map os2) n = map_offset (os_map os1) n"
    "maps_exactly txt (os_map os2) (os_offset os1) ss'"
    by (simp_all add: writes_segments_def)
  have off: "os_offset os1 = os_offset os + length (segments_text txt ss)"
    using ok 1(1,2) by (simp add: stream_ok_def)
  show "stream_ok os2" by fact
  show "os_text os2 = os_text os @ segments_text txt (ss @ ss')" using 1 2 by simp
  show "\<forall>n < os_offset os. map_offset (os_map os2) n = map_offset (os_map os) n"
    using 1(3) 2(3) off by simp
  show "maps_exactly txt (os_map os2) (os_offset os) (ss @ ss')"
    using exact_cong [OF 1(4)] 2(3,4) off by (simp add: exact_append)
qed

lemma map_ok_later: "map_ok n m \<Longrightarrow> map_ok (n + k) m"
  unfolding map_ok_def by fastforce

lemma writes_put: "writes_segments txt [Made s] os (put_text s os)"
  by (auto simp: writes_segments_def stream_ok_def put_text_def intro: map_ok_later)

lemma writes_put_nil: "writes_segments txt [] os (put_text [] os)"
  using writes_put [of "txt" "[]" os] by (auto simp: writes_segments_def)

text \<open>Copying: when the map had to be extended, the entry is new or the assertion fails.\<close>

lemma map_here_ok:
  assumes "stream_ok os" "mappedOffset (map_here b os) = i_offset b"
  shows "stream_ok (map_here b os)" "os_text (map_here b os) = os_text os"
    "os_offset (map_here b os) = os_offset os"
    "\<forall>n < os_offset os. map_offset (os_map (map_here b os)) n = map_offset (os_map os) n"
    "\<forall>j. map_offset (os_map (map_here b os)) (os_offset os + j) = i_offset b + j"
proof -
  let ?m = "os_map os" and ?k = "os_offset os"
  have ok: "sorted_wrt (<) (map fst ?m)" "\<forall>e \<in> set ?m. fst e \<le> ?k"
    using assms(1) unfolding stream_ok_def map_ok_def by blast+
  show same: "os_text (map_here b os) = os_text os" and off: "os_offset (map_here b os) = ?k"
    by (simp_all add: map_here_def)
  have onward: "map_offset m (?k + j) = map_offset m ?k + j" if "\<forall>e \<in> set m. fst e \<le> ?k" for m j
    using that last_in_set [of m] by (subst (1 2) map_offset_last) (auto simp: trans_le_add1)
  have "os_map (map_here b os) = ?m \<or>
      os_map (map_here b os) = ?m @ [(?k, i_offset b)] \<and> (\<forall>e \<in> set ?m. fst e < ?k)"
  proof (cases "?k \<in> fst ` set ?m")
    case True
    then show ?thesis by (simp add: map_here_def offset_insert_def)
  next
    case False
    then have "\<forall>e \<in> set ?m. fst e < ?k" using ok(2) by (force simp: order_less_le)
    then show ?thesis by (simp add: map_here_def offset_insert_new)
  qed
  then have new: "stream_ok (map_here b os) \<and>
      (\<forall>n < ?k. map_offset (os_map (map_here b os)) n = map_offset ?m n) \<and>
      (\<forall>e \<in> set (os_map (map_here b os)). fst e \<le> ?k)"
  proof
    assume "os_map (map_here b os) = ?m"
    then show ?thesis using assms(1) ok same off by (auto simp: stream_ok_def)
  next
    assume "os_map (map_here b os) = ?m @ [(?k, i_offset b)] \<and> (\<forall>e \<in> set ?m. fst e < ?k)"
    then show ?thesis using assms(1) ok same off
      by (auto simp: stream_ok_def map_ok_def sorted_wrt_append map_offset_append_less)
  qed
  then show "stream_ok (map_here b os)"
    "\<forall>n < ?k. map_offset (os_map (map_here b os)) n = map_offset ?m n" by simp_all
  show "\<forall>j. map_offset (os_map (map_here b os)) (?k + j) = i_offset b + j"
    using assms(2) new onward off by (simp add: mappedOffset_def)
qed

lemma writes_copy:
  assumes "copy_source txt b e os = Ret os'"
  shows "writes_segments txt [Source b e] os os'"
proof -
  have here: "mappedOffset (map_here b os) = i_offset b"
    and os': "os' = put_text (slice txt b e) (map_here b os)"
    using assms by (auto simp: copy_source_def Let_def oassert_def split: if_splits)
  show ?thesis unfolding writes_segments_def
  proof (intro impI)
    assume "stream_ok os"
    note ok = map_here_ok [OF this here]
    have "stream_ok os'"
      using writes_put [of "txt" "slice txt b e" "map_here b os"] ok(1)
      by (simp add: writes_segments_def os')
    with ok show "stream_ok os' \<and> os_text os' = os_text os @ segments_text txt [Source b e] \<and>
        (\<forall>n < os_offset os. map_offset (os_map os') n = map_offset (os_map os) n) \<and>
        maps_exactly txt (os_map os') (os_offset os) [Source b e]"
      by (simp add: os' put_text_def)
  qed
qed

end
