(* ===== verification/HcpCoverage.thy ===== *)
theory HcpCoverage
  imports HcpOffsets HcpResults
begin

text \<open>
  What \<^verbatim>\<open>hcp-split\<close> does with a tree that tiles the source.  Every \<open>gen\<close> function writes segments to the
  two streams, and together they keep every part of the source that is not white space: a function's
  head goes to the header and again, with its body, to the implementation, and so on.  The shape that
  the code takes for granted of the items it takes apart is \<open>node_ok\<close>.
\<close>

section \<open>What a pair of outputs covers\<close>

primrec segment_span :: "segment \<Rightarrow> nat set" where
  "segment_span (Source b e) = {i_x b ..< i_x e}"
| "segment_span (Made s) = {}"

definition covered :: "segment list \<Rightarrow> nat set" where
  "covered ss = \<Union> (segment_span ` set ss)"

lemma covered_simps [simp]:
  "covered [] = {}" "covered (s # ss) = segment_span s \<union> covered ss"
  "covered (ss @ ss') = covered ss \<union> covered ss'"
  by (simp_all add: covered_def)

definition emits :: "string \<Rightarrow> segment list \<Rightarrow> segment list \<Rightarrow> streams \<Rightarrow> streams \<Rightarrow> bool" where
  "emits txt hs cs s s' \<longleftrightarrow>
     writes_segments txt hs (fst s) (fst s') \<and> writes_segments txt cs (snd s) (snd s')"

definition produces :: "string \<Rightarrow> 'e gen \<Rightarrow> nat set \<Rightarrow> bool" where
  "produces txt g K \<longleftrightarrow>
     (\<forall>s s'. g s = Ret s' \<longrightarrow> (\<exists>hs cs. emits txt hs cs s s' \<and> K \<subseteq> covered hs \<union> covered cs))"

lemma producesD:
  assumes "produces txt g K" "g s = Ret s'"
  obtains hs cs where "emits txt hs cs s s'" "K \<subseteq> covered hs \<union> covered cs"
  using assms unfolding produces_def by blast

lemma produces_mono: "produces txt g K \<Longrightarrow> K' \<subseteq> K \<Longrightarrow> produces txt g K'"
  unfolding produces_def by (meson subset_trans)

lemma produces_Ret: "produces txt Ret {}"
  by (auto simp: produces_def emits_def intro!: exI [of _ "[]"] writes_refl)

lemma produces_obind:
  assumes "produces txt g K" "produces txt f K'"
  shows "produces txt (\<lambda>s. obind (g s) f) (K \<union> K')"
  unfolding produces_def
proof (intro allI impI)
  fix s s'
  assume "obind (g s) f = Ret s'"
  then obtain s1 where g: "g s = Ret s1" and f: "f s1 = Ret s'" by auto
  from producesD [OF assms(1) g] obtain hs cs where 1: "emits txt hs cs s s1" "K \<subseteq> covered hs \<union> covered cs" .
  from producesD [OF assms(2) f] obtain hs' cs' where
    2: "emits txt hs' cs' s1 s'" "K' \<subseteq> covered hs' \<union> covered cs'" .
  have "emits txt (hs @ hs') (cs @ cs') s s'"
    using 1(1) 2(1) unfolding emits_def by (blast intro: writes_trans)
  moreover have "K \<union> K' \<subseteq> covered (hs @ hs') \<union> covered (cs @ cs')"
    using 1(2) 2(2) by auto
  ultimately show "\<exists>hs cs. emits txt hs cs s s' \<and> K \<union> K' \<subseteq> covered hs \<union> covered cs" by blast
qed

lemma produces_then: "produces txt g K \<Longrightarrow> produces txt f K' \<Longrightarrow> K'' \<subseteq> K \<union> K' \<Longrightarrow>
    produces txt (\<lambda>s. obind (g s) f) K''"
  by (rule produces_mono [OF produces_obind])

lemma produces_pure:
  "(\<And>a. m = Ret a \<Longrightarrow> produces txt (f a) K) \<Longrightarrow> produces txt (\<lambda>s. obind m (\<lambda>a. f a s)) K"
  unfolding produces_def by auto

lemma produces_if:
  "(P \<Longrightarrow> produces txt f K) \<Longrightarrow> (\<not> P \<Longrightarrow> produces txt g K) \<Longrightarrow> produces txt (\<lambda>s. if P then f s else g s) K"
  by (cases P) simp_all

lemma produces_Abort: "produces txt (\<lambda>s. Abort) K"
  by (simp add: produces_def)

lemma produces_all:
  "produces txt (gen_all []) {}"
  "produces txt f K \<Longrightarrow> produces txt (gen_all fs) K' \<Longrightarrow> produces txt (gen_all (f # fs)) (K \<union> K')"
proof -
  show "produces txt (gen_all []) {}" using produces_Ret by (simp add: gen_all.simps [abs_def])
  assume "produces txt f K" "produces txt (gen_all fs) K'"
  then show "produces txt (gen_all (f # fs)) (K \<union> K')"
    using produces_obind by (simp add: gen_all.simps [abs_def])
qed

lemma produces_to:
  assumes "\<And>os os'. f os = Ret os' \<Longrightarrow> \<exists>ss. writes_segments txt ss os os' \<and> K \<subseteq> covered ss"
  shows "produces txt (to_h f) K" "produces txt (to_c f) K"
  using assms unfolding produces_def to_h_def to_c_def emits_def
  by (fastforce intro: writes_refl)+

lemma produces_copy:
  "produces txt (to_h (copy_source txt b e)) {i_x b ..< i_x e}"
  "produces txt (to_c (copy_source txt b e)) {i_x b ..< i_x e}"
  by (rule produces_to; rule exI [of _ "[Source b e]"]; simp add: writes_copy)+

lemma produces_put:
  "produces txt (to_h (put_all ss)) {}" "produces txt (to_c (put_all ss)) {}"
  by (rule produces_to; rule exI [of _ "[Made (concat ss)]"]; simp add: put_all_def writes_put)+

lemma produces_copy_item:
  "produces txt (to_h (copy_item txt x)) {i_x (item_begin x) ..< i_x (item_end x)}"
  "produces txt (to_c (copy_item txt x)) {i_x (item_begin x) ..< i_x (item_end x)}"
  unfolding copy_item_def by (rule produces_copy)+

lemma copy_items_writes:
  "(copy_items txt xs os :: ('e, OStream) outcome) = Ret os' \<Longrightarrow>
     \<exists>ss. writes_segments txt ss os os' \<and> (\<Union>x \<in> set xs. {i_x (item_begin x) ..< i_x (item_end x)}) \<subseteq> covered ss"
proof (induction xs arbitrary: os)
  case (Cons x xs)
  then obtain os1 where 1: "(copy_source txt (item_begin x) (item_end x) os :: ('e, OStream) outcome) = Ret os1"
    and 2: "(copy_items txt xs os1 :: ('e, OStream) outcome) = Ret os'" by auto
  from Cons.IH [OF 2] obtain ss where ss: "writes_segments txt ss os1 os'"
    "(\<Union>x \<in> set xs. {i_x (item_begin x) ..< i_x (item_end x)}) \<subseteq> covered ss" by blast
  from writes_trans [OF writes_copy [OF 1] ss(1)] show ?case
    using ss(2) by (intro exI [of _ "[Source (item_begin x) (item_end x)] @ ss"]) auto
qed (auto intro!: exI [of _ "[]"] writes_refl)

lemma produces_copy_items:
  "produces txt (to_h (copy_items txt xs)) (\<Union>x \<in> set xs. {i_x (item_begin x) ..< i_x (item_end x)})"
  by (rule produces_to(1) [OF copy_items_writes])

lemma copyExcluding_writes:
  "(copyExcluding txt ts xs os :: ('e, OStream) outcome) = Ret os' \<Longrightarrow> \<exists>ss. writes_segments txt ss os os'"
proof (induction "txt" ts xs os arbitrary: os' rule: copyExcluding.induct [where 'a = 'e])
  case (1 "txt" ts os)
  then show ?case using writes_refl by auto
next
  case (2 "txt" ts x xs os)
  from "2.prems" obtain os1 where
    1: "(if item_tag x \<in> set ts then Ret os else if items x \<noteq> [] then copyExcluding txt ts (items x) os
         else copy_source txt (item_begin x) (item_end x) os) = (Ret os1 :: ('e, OStream) outcome)"
    and rest: "copyExcluding txt ts xs os1 = (Ret os' :: ('e, OStream) outcome)" by auto
  have "\<exists>ss. writes_segments txt ss os os1"
    using 1 "2.IH"(1) by (auto split: if_splits intro: writes_copy writes_refl)
  moreover have "\<exists>ss. writes_segments txt ss os1 os'" using "2.IH"(2) [OF 1 rest] .
  ultimately show ?case using writes_trans by blast
qed

lemma produces_copyExcluding: "produces txt (to_c (copyExcluding txt ts xs)) {}"
  using copyExcluding_writes by (intro produces_to(2)) auto

lemmas produces_basic = produces_all produces_copy produces_put produces_copy_item produces_copy_items
  produces_copyExcluding

section \<open>The text that is not white space\<close>

fun keeps :: "item \<Rightarrow> nat set"
and keeps_all :: "item list \<Rightarrow> nat set" where
  "keeps (Item t its b e) =
     (if t = WhiteSpace then {} else if its = [] then {i_x b ..< i_x e} else keeps_all its)"
| "keeps_all [] = {}"
| "keeps_all (x # xs) = keeps x \<union> keeps_all xs"

lemma keeps_all_append: "keeps_all (xs @ ys) = keeps_all xs \<union> keeps_all ys"
  by (induction xs) auto

lemma keeps_items: "items x \<noteq> [] \<Longrightarrow> keeps x \<subseteq> keeps_all (items x)"
  by (cases x) simp

lemma keeps_span: "tree_ok x \<Longrightarrow> keeps x \<subseteq> {i_x (item_begin x) ..< i_x (item_end x)}"
  and keeps_all_span: "tiles xs b e \<Longrightarrow> keeps_all xs \<subseteq> {i_x b ..< i_x e}"
proof (induction x and xs b e rule: tree_ok_tiles.induct)
  case (1 t its b e)
  show ?case
  proof (cases "its = []")
    case False
    then have "tiles its b e" using "1.prems" by simp
    moreover from this have "item_begin (Item t its b e) = b" "item_end (Item t its b e) = e"
      using False tiles_hd [of its b e] tiles_last [of its b e] by (cases its; simp)+
    ultimately show ?thesis using "1.IH" False by auto
  qed simp
next
  case (3 x xs b e)
  then have "keeps x \<subseteq> {i_x b ..< i_x (item_end x)}" "keeps_all xs \<subseteq> {i_x (item_end x) ..< i_x e}"
    "i_x b \<le> i_x (item_end x)" "i_x (item_end x) \<le> i_x e"
    using tree_ok_le [of x] tiles_le [of xs "item_end x" e] by auto
  then show ?case by force
qed simp

text \<open>The white space at the end of an item.\<close>

lemma trailing_whitespace:
  "tree_ok x \<Longrightarrow> keeps x \<subseteq> {i_x (item_begin x) ..< i_x (findStartOfTrailingWhitespace x)} \<and>
     i_x (item_begin x) \<le> i_x (findStartOfTrailingWhitespace x) \<and>
     i_x (findStartOfTrailingWhitespace x) \<le> i_x (item_end x)"
proof (induction x rule: findStartOfTrailingWhitespace.induct)
  case (1 x)
  note le = tree_ok_le [OF "1.prems"]
  show ?case
  proof (cases "isA WhiteSpace x")
    case True
    then have "keeps x = {}" by (cases x) (simp add: isA_def)
    then show ?thesis using True le by (subst (1 2 3) findStartOfTrailingWhitespace.simps) simp
  next
    case False
    show ?thesis
    proof (cases "items x = []")
      case True
      then show ?thesis using False le keeps_span [OF "1.prems"]
        by (subst (1 2 3) findStartOfTrailingWhitespace.simps) simp
    next
      case ne: False
      let ?y = "last (items x)" and ?ys = "butlast (items x)"
      have start: "findStartOfTrailingWhitespace x = findStartOfTrailingWhitespace ?y"
        using False ne by (subst findStartOfTrailingWhitespace.simps) simp
      have split: "items x = ?ys @ [?y]" using ne by simp
      have "tiles (items x) (item_begin x) (item_end x)"
        using "1.prems" ne by (rule tree_ok_children)
      then obtain m where ys: "tiles ?ys (item_begin x) m" and y: "tiles [?y] m (item_end x)"
        by (subst (asm) split) (auto simp: tiles_append)
      then have y': "tree_ok ?y" "item_begin ?y = m" "item_end ?y = item_end x" by auto
      note IH = "1.IH" [OF False ne y'(1)]
      have "keeps x \<subseteq> keeps_all ?ys \<union> keeps ?y"
        using keeps_items [OF ne] by (subst (asm) split) (simp only: keeps_all_append keeps_all.simps Un_empty_right)
      moreover have "keeps_all ?ys \<subseteq> {i_x (item_begin x) ..< i_x m}" by (rule keeps_all_span [OF ys])
      ultimately show ?thesis using IH tiles_le [OF ys] unfolding start y' by fastforce
    qed
  qed
qed

section \<open>Functions\<close>

definition function_ok :: "item \<Rightarrow> bool" where
  "function_ok x \<longleftrightarrow> find_if (isA FunctionName) (items x) \<le> find_if (isA FunctionImpl) (items x)"

lemma find_if_drop:
  "k \<le> find_if P xs \<Longrightarrow> k + find_if P (drop k xs) = find_if P xs"
proof (induction xs arbitrary: k)
  case (Cons x xs)
  show ?case
  proof (cases k)
    case (Suc k')
    then have "\<not> P x" "k' \<le> find_if P xs" using Cons.prems by (auto simp: find_if_def split: if_splits)
    then show ?thesis using Cons.IH [of k'] Suc by (simp add: find_if_def)
  qed simp
qed (simp add: find_if_def)

lemma find_if_nth: "find_if P xs < length xs \<Longrightarrow> P (xs ! find_if P xs)"
  unfolding find_if_def using nth_length_takeWhile [of "\<lambda>x. \<not> P x" xs] by simp

lemma tiles_split:
  assumes "tiles xs b e" "i < length xs"
  shows "tiles (take i xs) b (item_begin (xs ! i))" "tree_ok (xs ! i)" "tiles (drop i xs) (item_begin (xs ! i)) e"
proof -
  obtain m where m: "tiles (take i xs) b m" "tiles (drop i xs) m e"
    using assms(1) by (metis tiles_append append_take_drop_id)
  have "drop i xs = xs ! i # drop (Suc i) xs" using assms(2) by (simp add: Cons_nth_drop_Suc)
  with m show "tiles (take i xs) b (item_begin (xs ! i))" "tree_ok (xs ! i)"
    "tiles (drop i xs) (item_begin (xs ! i)) e" by auto
qed

text \<open>The declaration keeps what comes before the body; the body and what follows it is kept by the
  definition.\<close>

lemma declaration_keeps:
  assumes "tiles its b e" "i < length its" "i \<noteq> 0"
  shows "keeps_all (take i its) \<subseteq> {i_x b ..< i_x (findStartOfTrailingWhitespace (its ! (i - 1)))}"
proof -
  obtain j where i: "i = Suc j" using assms(3) by (cases i) auto
  have j: "j < length its" using assms(2) i by simp
  have "take i its = take j its @ [its ! j]" using j i by (simp add: take_Suc_conv_app_nth)
  then have "keeps_all (take i its) = keeps_all (take j its) \<union> keeps (its ! j)"
    by (simp add: keeps_all_append)
  moreover have "keeps_all (take j its) \<subseteq> {i_x b ..< i_x (item_begin (its ! j))}"
    and "i_x b \<le> i_x (item_begin (its ! j))"
    using tiles_split(1) [OF assms(1) j] by (auto dest: keeps_all_span tiles_le)
  moreover note trailing_whitespace [OF tiles_split(2) [OF assms(1) j]]
  ultimately show ?thesis using i by fastforce
qed

lemma gen_declaration_produces:
  assumes "tree_ok x"
  shows "produces txt (gen_declaration txt x)
     (keeps_all (take (find_if (isA FunctionImpl) (items x)) (items x)))"
proof -
  let ?its = "items x" and ?i = "find_if (isA FunctionImpl) (items x)"
  have "produces txt (\<lambda>s. obind (oassert (?i \<noteq> length ?its)) (\<lambda>_. obind (oassert (?i \<noteq> 0)) (\<lambda>_.
         gen_all
           [to_h (copy_source txt (item_begin x) (findStartOfTrailingWhitespace (?its ! (?i - 1)))),
            to_h (put_all ['';'']),
            to_h (copy_source txt (findStartOfTrailingWhitespace (?its ! ?i)) (item_end x))] s)))
      (keeps_all (take ?i ?its))"
  proof (intro produces_pure)
    fix u v
    assume "oassert (?i \<noteq> length ?its) = Ret u" "oassert (?i \<noteq> 0) = Ret v"
    then have i: "?i < length ?its" "?i \<noteq> 0" by (auto simp: oassert_def find_if_less split: if_splits)
    then have "tiles ?its (item_begin x) (item_end x)" using assms by (intro tree_ok_children) auto
    from declaration_keeps [OF this i]
    show "produces txt (gen_all
           [to_h (copy_source txt (item_begin x) (findStartOfTrailingWhitespace (?its ! (?i - 1)))),
            to_h (put_all ['';'']),
            to_h (copy_source txt (findStartOfTrailingWhitespace (?its ! ?i)) (item_end x))])
        (keeps_all (take ?i ?its))"
      by (intro produces_mono [OF produces_all(2) [OF produces_copy(1) produces_all(2) [OF produces_put(1)
          produces_all(2) [OF produces_copy(1) produces_all(1)]]]]) auto
  qed
  then show ?thesis by (simp add: gen_declaration_def [abs_def] Let_def)
qed

text \<open>The index of the body is the same wherever the search for it begins before it.\<close>

definition impl_index :: "item \<Rightarrow> nat" where
  "impl_index x = find_if (isA FunctionImpl) (items x)"

lemma keeps_parts:
  assumes "tree_ok x" "items x \<noteq> []"
  shows "keeps x \<subseteq> keeps_all (take i (items x)) \<union> keeps_all (drop i (items x))"
  using keeps_items [OF assms(2)] keeps_all_append [of "take i (items x)" "drop i (items x)"] by simp

lemma body_keeps:
  assumes "tree_ok x" "i < length (items x)"
  shows "keeps_all (drop i (items x)) \<subseteq> {i_x (item_begin (items x ! i)) ..< i_x (item_end x)}"
proof -
  have "tiles (items x) (item_begin x) (item_end x)" using assms by (intro tree_ok_children) auto
  from keeps_all_span [OF tiles_split(3) [OF this assms(2)]] show ?thesis .
qed

text \<open>A declaration in the header, then the pieces \<open>gs\<close>, and the body.\<close>

lemma definition_produces:
  assumes "tree_ok x" "find_if (isA FunctionImpl) (items x) < length (items x)"
    and "produces txt g {}"
  shows "produces txt (\<lambda>s. obind (gen_declaration txt x s) (\<lambda>s. obind (g s)
     (gen_all [to_c (copy_source txt (item_begin (items x ! find_if (isA FunctionImpl) (items x))) (item_end x)),
               to_c (put_all ss)]))) (keeps x)"
proof -
  let ?i = "find_if (isA FunctionImpl) (items x)"
  have tail: "produces txt (gen_all [to_c (copy_source txt (item_begin (items x ! ?i)) (item_end x)), to_c (put_all ss)])
      (keeps_all (drop ?i (items x)))"
    by (rule produces_mono [OF produces_all(2) [OF produces_copy(2) produces_all(2) [OF produces_put(2)
        produces_all(1)]]]) (use body_keeps [OF assms(1,2)] in auto)
  have ne: "items x \<noteq> []" using assms(2) by auto
  show ?thesis
    by (rule produces_then [OF gen_declaration_produces [OF assms(1)] produces_obind [OF assms(3) tail]])
      (use keeps_parts [OF assms(1) ne] in auto)
qed

lemma gen_all_fun:
  "gen_all [] = Ret" "gen_all (f # fs) = (\<lambda>s. obind (f s) (gen_all fs))"
  by (simp_all add: fun_eq_iff)

lemma genFunction_produces:
  assumes "tree_ok x" "function_ok x"
  shows "produces txt (genFunction txt x) (keeps x)"
proof -
  let ?its = "items x" and ?j = "find_if (isA FunctionName) (items x)"
  let ?i = "find_if (isA FunctionImpl) (items x)"
  have l: "?j + find_if (isA FunctionImpl) (drop ?j ?its) = ?i"
    using assms(2) by (simp add: function_ok_def find_if_drop)
  have "produces txt (\<lambda>s. obind (gen_declaration txt x s) (\<lambda>s.
      obind (oassert (?j \<noteq> length ?its)) (\<lambda>_. obind (oassert (?i \<noteq> length ?its)) (\<lambda>_.
        gen_all
          [to_c (copy_source txt (item_begin x) (item_begin (?its ! ?j))),
           to_c (copyExcluding txt [VarInitialiser] (take (?i - ?j) (drop ?j ?its))),
           to_c (copy_source txt (item_begin (?its ! ?i)) (item_end x)),
           to_c (put_all [nl])] s)))) (keeps x)"
  proof (cases "?i < length ?its")
    case True
    have pieces: "produces txt (gen_all
        [to_c (copy_source txt (item_begin x) (item_begin (?its ! ?j))),
         to_c (copyExcluding txt [VarInitialiser] (take (?i - ?j) (drop ?j ?its)))]) {}"
      by (rule produces_mono [OF produces_all(2) [OF produces_copy(2) produces_all(2)
          [OF produces_copyExcluding produces_all(1)]]]) simp
    from definition_produces [OF assms(1) True this, of "[nl]"] show ?thesis
      using True assms(2) by (simp add: function_ok_def oassert_def obind_assoc gen_all_fun)
  next
    case False
    then have "?i = length ?its" using find_if_less [of "isA FunctionImpl" ?its] by auto
    then show ?thesis
      by (simp add: oassert_def produces_def obind_eq_Ret)
  qed
  then show ?thesis unfolding genFunction_def [abs_def] Let_def l
    by (intro produces_if produces_mono [OF produces_copy_item(1)] keeps_span assms)
qed

lemma first_is_not_name:
  assumes "isA FunctionQualifiers (xs ! 0)" "xs \<noteq> []"
  shows "1 \<le> find_if (isA FunctionName) xs"
  using assms by (cases xs) (auto simp: find_if_def isA_def)

lemma genClassMemberFunctionDef_produces:
  assumes "tree_ok x" "function_ok x"
  shows "produces txt (\<lambda>s. genClassMemberFunctionDef txt x scope s) (keeps x)"
proof (cases "find_if (isA FunctionImpl) (items x) < length (items x)")
  case True
  let ?its = "items x" and ?j = "find_if (isA FunctionName) (items x)"
  let ?i = "find_if (isA FunctionImpl) (items x)"
  let ?k = "if isA FunctionQualifiers (?its ! 0) then 1 else 0 :: nat"
  have "?its \<noteq> []" using True by auto
  then have "?k \<le> ?j" using first_is_not_name [of ?its] by auto
  then have j: "?k + find_if (isA FunctionName) (drop ?k ?its) = ?j" by (rule find_if_drop)
  have l: "?j + find_if (isA FunctionImpl) (drop ?j ?its) = ?i" and "?j < length ?its"
    using assms(2) True by (simp_all add: function_ok_def find_if_drop)
  have pieces: "produces txt (gen_all
      [to_c (copy_source txt (item_begin (?its ! ?k)) (item_begin (?its ! ?j))),
       to_c (put_all [scope_text txt scope, ''::'']),
       to_c (copyExcluding txt [VarInitialiser, VirtSpecifierSeq] (take (?i - ?j) (drop ?j ?its)))]) {}"
    by (rule produces_mono [OF produces_all(2) [OF produces_copy(2) produces_all(2) [OF produces_put(2)
        produces_all(2) [OF produces_copyExcluding produces_all(1)]]]]) simp
  from definition_produces [OF assms(1) True this, of "[nl]"] show ?thesis
    unfolding genClassMemberFunctionDef_def Let_def j l using True \<open>?j < length ?its\<close>
    by (simp add: oassert_def obind_assoc gen_all_fun)
next
  case False
  then show ?thesis
    unfolding genClassMemberFunctionDef_def gen_declaration_def Let_def
    by (simp add: oassert_def produces_def find_if_less)
qed

section \<open>Variables\<close>

definition static_ok :: "item \<Rightarrow> bool" where
  "static_ok x \<longleftrightarrow>
     (case findAll VarInitialiser x of [] \<Rightarrow> True
      | i # _ \<Rightarrow> i_x (item_end (items x ! 0)) \<le> i_x (item_begin i))"

lemma genClassStaticVarDef_produces:
  assumes "tree_ok x" "static_ok x"
  shows "produces txt (\<lambda>s. genClassStaticVarDef txt x scope s) (keeps x)"
proof -
  let ?K = "{i_x (item_begin x) ..< i_x (item_end (items x ! 0))} \<inter> keeps x"
  have h: "produces txt (\<lambda>s. case findAll VarInitialiser x of
      i # is \<Rightarrow> gen_all [to_h (copy_source txt (item_begin x) (item_begin i)), to_h (put_all ['';'', nl])] s
    | [] \<Rightarrow> gen_all [to_h (copy_item txt x), to_h (put_all [nl])] s) ?K"
  proof (cases "findAll VarInitialiser x")
    case Nil
    then show ?thesis using keeps_span [OF assms(1)]
      by (simp del: gen_all.simps) (rule produces_mono [OF produces_all(2) [OF produces_copy_item(1)
          produces_all(2) [OF produces_put(1) produces_all(1)]]]; auto)
  next
    case (Cons i "is")
    then show ?thesis using assms(2) unfolding static_ok_def
      by (simp del: gen_all.simps) (rule produces_mono [OF produces_all(2) [OF produces_copy(1)
          produces_all(2) [OF produces_put(1) produces_all(1)]]]; auto)
  qed
  have c: "produces txt (gen_all
      [to_c (copy_source txt (item_end (items x ! 0)) (item_begin name)),
       to_c (put_all [scope_text txt scope, ''::'']),
       to_c (copy_source txt (item_begin name) (item_end x)),
       to_c (put_all [nl])]) {i_x (item_end (items x ! 0)) ..< i_x (item_end x)}" for name
    by (rule produces_mono [OF produces_all(2) [OF produces_copy(2) produces_all(2) [OF produces_put(2)
        produces_all(2) [OF produces_copy(2) produces_all(2) [OF produces_put(2) produces_all(1)]]]]]) auto
  have "produces txt (\<lambda>s. obind (findOnlyChildOfType VarName x) (\<lambda>name.
      obind (oassert (items x \<noteq> [] \<and> isA (Keyword KeywordStatic) (items x ! 0))) (\<lambda>_.
        gen_all
          [to_c (copy_source txt (item_end (items x ! 0)) (item_begin name)),
           to_c (put_all [scope_text txt scope, ''::'']),
           to_c (copy_source txt (item_begin name) (item_end x)),
           to_c (put_all [nl])] s))) {i_x (item_end (items x ! 0)) ..< i_x (item_end x)}"
    by (intro produces_pure c)
  from produces_then [OF h this, of "keeps x"] show ?thesis
    unfolding genClassStaticVarDef_def using keeps_span [OF assms(1)] by (simp only: subset_iff) force
qed

lemma genGlobalVar_produces:
  assumes "tree_ok x"
  shows "produces txt (genGlobalVar txt x) (keeps x)"
proof -
  have "produces txt (\<lambda>s. obind (findOnlyChildOfType VarInitialiser x) (\<lambda>y.
      gen_all
        [to_h (put_all [''extern '']), to_h (copy_source txt (item_begin x) (item_begin y)),
         to_h (put_all ['';'', nl]), to_c (copy_item txt x)] s)) (keeps x)"
    by (intro produces_pure, rule produces_mono [OF produces_all(2) [OF produces_put(1) produces_all(2)
        [OF produces_copy(1) produces_all(2) [OF produces_put(1) produces_all(2) [OF produces_copy_item(2)
        produces_all(1)]]]]]) (use keeps_span [OF assms] in auto)
  then show ?thesis by (simp add: genGlobalVar_def [abs_def])
qed

section \<open>Classes\<close>

lemma gen_operators_produces:
  assumes "tree_ok m"
  shows "produces txt (\<lambda>s. gen_operators txt x m scope s) (keeps m)"
  unfolding gen_operators_def Let_def
  by (intro produces_pure, rule produces_mono [OF produces_all(2) [OF produces_copy_item(1)
      produces_all(2) [OF produces_put(1) produces_all(2) [OF produces_put(2) produces_all(2)
      [OF produces_put(2) produces_all(1)]]]]]) (use keeps_span [OF assms] in auto)

lemma copied_whole: "tree_ok x \<Longrightarrow> produces txt (\<lambda>s. to_h (copy_item txt x) s) (keeps x)"
  and copied_whole_c: "tree_ok x \<Longrightarrow> produces txt (\<lambda>s. to_c (copy_item txt x) s) (keeps x)"
  using keeps_span [of x]
  by (auto intro: produces_mono [OF produces_copy_item(1)] produces_mono [OF produces_copy_item(2)])

text \<open>What the code takes for granted of an item: only a plain item has no children, the name of a
  function comes before its body, an initialiser comes after the word \<^verbatim>\<open>static\<close>, and, for the
  statement below, a template class has no comparison operator to be made up.\<close>

definition template_ok :: "string \<Rightarrow> item \<Rightarrow> bool" where
  "template_ok txt x \<longleftrightarrow>
     (\<forall>i \<in> set (items x). isA ClassMembers i \<longrightarrow> (\<forall>m \<in> set (items i). isA FunctionDecl m \<longrightarrow>
        isFriendOperatorLessDecl txt m (className txt x) \<noteq> (Ret True :: (split_error, bool) outcome)))"

definition node_ok :: "string \<Rightarrow> item \<Rightarrow> bool" where
  "node_ok txt x \<longleftrightarrow>
     (items x = [] \<longrightarrow> isA ItemTag x) \<and> (isA FunctionDef x \<longrightarrow> function_ok x) \<and>
     (isA StaticVarDef x \<longrightarrow> static_ok x) \<and> (isA TemplateClassDef x \<longrightarrow> template_ok txt x)"

fun all_nodes :: "(item \<Rightarrow> bool) \<Rightarrow> item \<Rightarrow> bool" where
  "all_nodes P (Item t its b e) = (P (Item t its b e) \<and> list_all (all_nodes P) its)"

lemma all_nodes_items: "all_nodes P x \<Longrightarrow> P x \<and> (\<forall>y \<in> set (items x). all_nodes P y)"
  by (cases x) (simp add: list_all_iff)

definition source_ok :: "string \<Rightarrow> item \<Rightarrow> bool" where
  "source_ok txt x \<longleftrightarrow> tree_ok x \<and> all_nodes (node_ok txt) x"

lemma tiles_tree_ok: "tiles xs b e \<Longrightarrow> y \<in> set xs \<Longrightarrow> tree_ok y"
  by (induction xs arbitrary: b) auto

lemma source_ok_items: "source_ok txt x \<Longrightarrow> y \<in> set (items x) \<Longrightarrow> source_ok txt y"
  using tree_ok_children [of x] all_nodes_items [of "node_ok txt" x]
  by (fastforce simp: source_ok_def dest: tiles_tree_ok)

lemma source_okD:
  "source_ok txt x \<Longrightarrow> tree_ok x"
  "source_ok txt x \<Longrightarrow> items x = [] \<Longrightarrow> isA ItemTag x"
  "source_ok txt x \<Longrightarrow> isA FunctionDef x \<Longrightarrow> function_ok x"
  "source_ok txt x \<Longrightarrow> isA StaticVarDef x \<Longrightarrow> static_ok x"
  "source_ok txt x \<Longrightarrow> isA TemplateClassDef x \<Longrightarrow> template_ok txt x"
  using all_nodes_items [of "node_ok txt" x] by (auto simp: source_ok_def node_ok_def)

lemma size_nth_less: "y \<in> set (items x) \<Longrightarrow> size y < size x"
  using size_list_estimation' [OF _ order_refl, of y "items x" size] size_items [of x] by fastforce

lemma produces_list:
  assumes "\<And>x. x \<in> set xs \<Longrightarrow> produces txt (f x) (keeps x)"
    and "\<And>s. g [] s = Ret s" "\<And>x xs s. g (x # xs) s = obind (f x s) (g xs)"
  shows "produces txt (g xs) (keeps_all xs)"
  using assms(1)
proof (induction xs)
  case Nil
  have "g [] = Ret" using assms(2) by (simp add: fun_eq_iff)
  then show ?case using produces_Ret by simp
next
  case (Cons x xs)
  have "g (x # xs) = (\<lambda>s. obind (f x s) (g xs))" using assms(3) by (simp add: fun_eq_iff)
  then show ?case using Cons by (simp add: produces_obind)
qed

lemma member_produces:
  assumes "source_ok txt m"
    and "isA ClassDef m \<Longrightarrow> produces txt (genClass txt m (outer @ [x]) :: 'e gen) (keeps m)"
  shows "produces txt
      (\<lambda>s. (if isA FunctionDef m then
          if isInlineFunction txt m then to_h (copy_item txt m) s
          else if isFriendFunction txt m then to_h (copy_item txt m) s
          else genClassMemberFunctionDef txt m (outer @ [x]) s
        else if isA StaticVarDef m then genClassStaticVarDef txt m (outer @ [x]) s
        else if isA ClassDef m then genClass txt m (outer @ [x]) s
        else if isA FunctionDecl m then
          obind (isFriendOperatorLessDecl txt m (className txt x)) (\<lambda>b.
            if b then gen_operators txt x m (outer @ [x]) s else to_h (copy_item txt m) s)
        else to_h (copy_item txt m) s) :: ('e, streams) outcome) (keeps m)"
  using source_okD [OF assms(1)] assms(2)
  by (intro produces_if produces_pure copied_whole genClassMemberFunctionDef_produces
      genClassStaticVarDef_produces gen_operators_produces) (simp_all del: genClass.simps)

lemma genClass_produces:
  "source_ok txt x \<Longrightarrow> isA ClassDef x \<Longrightarrow> produces txt (genClass txt x outer :: 'e gen) (keeps x)"
proof (induction "size x" arbitrary: x outer rule: less_induct)
  case less
  have members: "produces txt (class_member_items txt x outer (items i) :: 'e gen) (keeps_all (items i))"
    if i: "i \<in> set (items x)" for i
  proof (rule produces_list)
    fix m
    assume m: "m \<in> set (items i)"
    have ok: "source_ok txt m" using less.prems(1) i m by (blast intro: source_ok_items)
    have "size m < size x" using size_nth_less i m by (meson less_trans)
    then have "produces txt (genClass txt m (outer @ [x]) :: 'e gen) (keeps m)" if "isA ClassDef m"
      using less.hyps ok that by blast
    with ok show "produces txt
      (\<lambda>s. (if isA FunctionDef m then
          if isInlineFunction txt m then to_h (copy_item txt m) s
          else if isFriendFunction txt m then to_h (copy_item txt m) s
          else genClassMemberFunctionDef txt m (outer @ [x]) s
        else if isA StaticVarDef m then genClassStaticVarDef txt m (outer @ [x]) s
        else if isA ClassDef m then genClass txt m (outer @ [x]) s
        else if isA FunctionDecl m then
          obind (isFriendOperatorLessDecl txt m (className txt x)) (\<lambda>b.
            if b then gen_operators txt x m (outer @ [x]) s else to_h (copy_item txt m) s)
        else to_h (copy_item txt m) s) :: ('e, streams) outcome) (keeps m)"
      by (rule member_produces)
  qed simp_all
  have "produces txt (class_items txt x outer (items x) :: 'e gen) (keeps_all (items x))"
  proof (rule produces_list)
    fix i
    assume i: "i \<in> set (items x)"
    then have ok: "source_ok txt i" using less.prems(1) by (rule source_ok_items [rotated])
    show "produces txt (\<lambda>s. (if isA ClassMembers i then class_member_items txt x outer (items i) s
        else to_h (copy_item txt i) s) :: ('e, streams) outcome) (keeps i)"
    proof (rule produces_if)
      assume "isA ClassMembers i"
      then have "items i \<noteq> []" using source_okD(2) [OF ok] by (auto simp: isA_def)
      then show "produces txt (class_member_items txt x outer (items i) :: 'e gen) (keeps i)"
        using produces_mono [OF members [OF i]] keeps_items by blast
    qed (rule copied_whole [OF source_okD(1) [OF ok]])
  qed simp_all
  moreover have "items x \<noteq> []" using source_okD(2) [OF less.prems(1)] less.prems(2) by (auto simp: isA_def)
  moreover have "genClass txt x outer = (class_items txt x outer (items x) :: 'e gen)"
    by (simp add: fun_eq_iff)
  ultimately show ?case by (simp add: produces_mono [OF _ keeps_items] del: genClass.simps)
qed

lemma genTemplateClass_produces:
  assumes "source_ok txt x" "isA TemplateClassDef x"
  shows "produces txt (genTemplateClass txt x :: split_error gen) (keeps x)"
proof -
  have members: "produces txt (template_member_items txt x (items i) :: split_error gen) (keeps_all (items i))"
    if i: "i \<in> set (items x)" "isA ClassMembers i" for i
  proof (rule produces_list)
    fix m
    assume m: "m \<in> set (items i)"
    then have ok: "source_ok txt m" using assms(1) i by (blast intro: source_ok_items)
    have "isFriendOperatorLessDecl txt m (className txt x) \<noteq> (Ret True :: (split_error, bool) outcome)"
      if "isA FunctionDecl m"
      using source_okD(5) [OF assms] i m that by (auto simp: template_ok_def)
    then show "produces txt (\<lambda>s. if isA FunctionDecl m then
          obind (isFriendOperatorLessDecl txt m (className txt x) :: (split_error, bool) outcome) (\<lambda>b.
            if b then gen_template_operators txt x s else to_h (copy_item txt m) s)
        else to_h (copy_item txt m) s) (keeps m)"
      by (intro produces_if produces_pure copied_whole source_okD(1) [OF ok]) auto
  qed simp_all
  have "produces txt (template_items txt x (items x) :: split_error gen) (keeps_all (items x))"
  proof (rule produces_list)
    fix i
    assume i: "i \<in> set (items x)"
    then have ok: "source_ok txt i" using assms(1) by (rule source_ok_items [rotated])
    show "produces txt (\<lambda>s. if isA ClassMembers i then template_member_items txt x (items i) s
        else to_h (copy_item txt i) s :: (split_error, streams) outcome) (keeps i)"
    proof (rule produces_if)
      assume c: "isA ClassMembers i"
      then have "items i \<noteq> []" using source_okD(2) [OF ok] by (auto simp: isA_def)
      then show "produces txt (template_member_items txt x (items i) :: split_error gen) (keeps i)"
        using produces_mono [OF members [OF i c]] keeps_items by blast
    qed (rule copied_whole [OF source_okD(1) [OF ok]])
  qed simp_all
  moreover have "items x \<noteq> []" using source_okD(2) [OF assms(1)] assms(2) by (auto simp: isA_def)
  ultimately show ?thesis
    by (simp add: genTemplateClass_def [abs_def] produces_mono [OF _ keeps_items])
qed

section \<open>Namespaces\<close>

lemma keeps_all_spans:
  "tiles xs b e \<Longrightarrow> keeps_all xs \<subseteq> (\<Union>x \<in> set xs. {i_x (item_begin x) ..< i_x (item_end x)})"
proof (induction xs arbitrary: b)
  case (Cons x xs)
  then show ?case using keeps_span [of x] by fastforce
qed simp

lemma genNamespace_produces:
  assumes "source_ok txt x"
    and "\<And>i. i \<in> set (items x) \<Longrightarrow> isA NamespaceMembers i \<Longrightarrow>
      produces txt (genNamespaceContent txt (items i) :: split_error gen) (keeps_all (items i))"
  shows "produces txt (genNamespace txt x :: split_error gen) (keeps x)"
proof (cases "find_if (isA NamespaceMembers) (items x) = length (items x)")
  case True
  then have "genNamespace txt x = (\<lambda>s. Abort :: (split_error, streams) outcome)"
    by (simp add: fun_eq_iff Let_def)
  then show ?thesis by (simp add: produces_Abort del: genNamespace.simps)
next
  case False
  let ?its = "items x" and ?i = "find_if (isA NamespaceMembers) (items x)"
  have i: "?i < length ?its" using False find_if_less by blast
  have x: "tiles ?its (item_begin x) (item_end x)"
    using source_okD(1) [OF assms(1)] i by (intro tree_ok_children) auto
  have m: "?its ! ?i \<in> set ?its" "isA NamespaceMembers (?its ! ?i)" using i find_if_nth by auto
  have "items (?its ! ?i) \<noteq> []"
    using source_okD(2) [OF source_ok_items [OF assms(1) m(1)]] m(2) by (auto simp: isA_def)
  note members = produces_mono [OF assms(2) [OF m] keeps_items [OF this]]
  have parts: "keeps x \<subseteq> keeps_all (take ?i ?its) \<union> keeps (?its ! ?i) \<union> keeps_all (drop (?i + 1) ?its)"
  proof -
    have "?its = take ?i ?its @ ?its ! ?i # drop (?i + 1) ?its" using i by (simp add: id_take_nth_drop)
    then have "keeps_all ?its = keeps_all (take ?i ?its) \<union> keeps (?its ! ?i) \<union> keeps_all (drop (?i + 1) ?its)"
      by (metis keeps_all_append keeps_all.simps(2) Un_assoc)
    then show ?thesis using keeps_items [of x] i by fastforce
  qed
  obtain b where b: "tiles (drop (?i + 1) ?its) b (item_end x)"
    using x by (metis tiles_append append_take_drop_id)
  have eq: "genNamespace txt x = (\<lambda>s. obind (gen_all
       [to_c (put_all [''namespace '', namespaceName txt x, nl, ''{'', nl]), to_h (copy_items txt (take ?i ?its))] s)
     (\<lambda>s. obind (genNamespaceContent txt (items (?its ! ?i)) s)
       (gen_all [to_h (copy_items txt (drop (?i + 1) ?its)), to_c (put_all [''}'', nl])] :: split_error gen)))"
    using False by (simp add: fun_eq_iff Let_def del: gen_all.simps)
  show ?thesis unfolding eq
    by (rule produces_then [OF produces_all(2) [OF produces_put(2) produces_all(2) [OF produces_copy_items
        produces_all(1)]] produces_obind [OF members produces_all(2) [OF produces_copy_items produces_all(2)
        [OF produces_put(2) produces_all(1)]]]])
      (use parts keeps_all_spans [OF tiles_split(1) [OF x i]] keeps_all_spans [OF b] in blast)
qed

lemma content_produces:
  "\<forall>x \<in> set xs. source_ok txt x \<Longrightarrow>
     produces txt (genNamespaceContent txt xs :: split_error gen) (keeps_all xs)"
proof (induction "size_list size xs" arbitrary: xs rule: less_induct)
  case less
  show ?case
  proof (rule produces_list)
    fix x
    assume x: "x \<in> set xs"
    then have ok: "source_ok txt x" using less.prems by blast
    note d = source_okD [OF ok]
    have "produces txt (genNamespaceContent txt (items i) :: split_error gen) (keeps_all (items i))"
      if i: "i \<in> set (items x)" for i
    proof (rule less.hyps)
      show "\<forall>y \<in> set (items i). source_ok txt y" using ok i by (blast intro: source_ok_items)
      have "size x \<le> size_list size xs" using x by (rule size_list_estimation' [OF _ order_refl])
      then show "size_list size (items i) < size_list size xs"
        using size_nth_less [OF i] size_items [of i] by simp
    qed
    then have ns: "produces txt (genNamespace txt x :: split_error gen) (keeps x)"
      by (intro genNamespace_produces ok) blast
    show "produces txt
      (\<lambda>s. (if isA AnonymousNamespace x then genAnonymousNamespace txt x s
        else if isA NamespaceDef x then genNamespace txt x s
        else if isA TemplateClassDef x then genTemplateClass txt x s
        else if isA ClassDef x then genClass txt x [] s
        else if isA HashIncludeImpl x then to_c (copy_item txt x) s
        else if isA FunctionDef x then genFunction txt x s
        else if isA GlobalVarDef x then genGlobalVar txt x s
        else to_h (copy_item txt x) s) :: (split_error, streams) outcome) (keeps x)"
      unfolding genAnonymousNamespace_def
      by (intro produces_if copied_whole copied_whole_c d(1) ns genTemplateClass_produces ok
          genClass_produces genFunction_produces d(3) genGlobalVar_produces)
  qed simp_all
qed

section \<open>The outputs of the program\<close>

lemma split_source_Ret:
  assumes "split_source n txt guard inc hg cg = Ret (h, c)"
  shows "\<exists>root. parseString n txt file = Ret root \<and> items root \<noteq> [] \<and> isA File (items root ! 0) \<and>
    gen_all (split_parts txt guard inc hg cg (items (items root ! 0))) (OStream_new, OStream_new) = Ret (h, c)"
  using assms unfolding split_source_def
  by (cases "parseString n txt file") (auto simp: oassert_def simp del: gen_all.simps split: if_splits)

lemma emitted_new:
  assumes "emits txt hs cs (OStream_new, OStream_new) (h, c)"
  shows "os_text h = segments_text txt hs \<and> maps_exactly txt (os_map h) 0 hs \<and>
    os_text c = segments_text txt cs \<and> maps_exactly txt (os_map c) 0 cs"
  using assms stream_ok_new by (simp add: emits_def writes_segments_def OStream_new_def)

lemma split_parts_keeps:
  assumes "\<forall>x \<in> set its. source_ok txt x"
  shows "produces txt (gen_all (split_parts txt guard inc hg cg its)) (keeps_all its)"
  unfolding split_parts_def
  by (rule produces_mono [OF produces_all(2) [OF produces_put(1) produces_all(2) [OF produces_put(1)
      produces_all(2) [OF produces_put(2) produces_all(2) [OF produces_put(2) produces_all(2)
      [OF content_produces [OF assms] produces_all(2) [OF produces_put(1) produces_all(1)]]]]]]]) auto

lemma split_keeps:
  assumes "split_source n txt guard inc hg cg = Ret (h, c)" "parseString n txt file = Ret root"
    and ok: "source_ok txt root"
  shows "\<exists>hs cs. os_text h = segments_text txt hs \<and> maps_exactly txt (os_map h) 0 hs \<and>
    os_text c = segments_text txt cs \<and> maps_exactly txt (os_map c) 0 cs \<and>
    keeps (items root ! 0) \<subseteq> covered hs \<union> covered cs"
proof -
  let ?f = "items root ! 0"
  from split_source_Ret [OF assms(1)] assms(2) have root: "items root \<noteq> []" "isA File ?f"
    and g: "gen_all (split_parts txt guard inc hg cg (items ?f)) (OStream_new, OStream_new) = Ret (h, c)"
    by auto
  have f: "source_ok txt ?f" using root(1) by (intro source_ok_items [OF ok]) simp
  then have "items ?f \<noteq> []" using source_okD(2) [OF f] root(2) by (auto simp: isA_def)
  from producesD [OF split_parts_keeps g] source_ok_items [OF f] obtain hs cs where
    e: "emits txt hs cs (OStream_new, OStream_new) (h, c)" and k: "keeps_all (items ?f) \<subseteq> covered hs \<union> covered cs"
    by blast
  from keeps_items [OF \<open>items ?f \<noteq> []\<close>] k emitted_new [OF e] show ?thesis by blast
qed

end
