(* ===== verification/HcpExact.thy ===== *)
theory HcpExact
  imports HcpCoverage
begin

text \<open>
  Whatever tree \<^verbatim>\<open>hcp-split\<close> is given, what it writes is segments with an exact map.  The last part is
  when copying fails: a stream that has an entry for its present offset, because nothing was written
  since, cannot take text from another place.
\<close>

section \<open>Exactness without assumptions on the tree\<close>

lemma produces_seq:
  "produces txt g {} \<Longrightarrow> produces txt f {} \<Longrightarrow> produces txt (\<lambda>s. obind (g s) f) {}"
  by (rule produces_then) simp_all

lemma produces_empty:
  assumes "produces txt g K"
  shows "produces txt g {}"
  by (rule produces_mono [OF assms]) simp

lemma writes_all:
  "produces txt (gen_all []) {}"
  "produces txt f {} \<Longrightarrow> produces txt (gen_all fs) {} \<Longrightarrow> produces txt (gen_all (f # fs)) {}"
  using produces_all(1) produces_all(2) [of "txt" f "{}" fs "{}"] by simp_all

lemmas writes_basic = writes_all produces_put produces_copyExcluding produces_copy [THEN produces_empty]
  produces_copy_item [THEN produces_empty] produces_copy_items [THEN produces_empty] produces_Abort

lemma gen_declaration_writes: "produces txt (gen_declaration txt x) {}"
  unfolding gen_declaration_def [abs_def] Let_def
  by (intro produces_pure writes_basic)

lemma function_writes:
  "produces txt (genFunction txt x) {}" "produces txt (\<lambda>s. genClassMemberFunctionDef txt x scope s) {}"
  unfolding genFunction_def [abs_def] genClassMemberFunctionDef_def [abs_def] Let_def
  by (intro produces_if produces_pure produces_seq writes_basic gen_declaration_writes)+

lemma variable_writes:
  "produces txt (\<lambda>s. genClassStaticVarDef txt x scope s) {}" "produces txt (genGlobalVar txt x) {}"
  unfolding genGlobalVar_def [abs_def] genClassStaticVarDef_def [abs_def]
  by (cases "findAll VarInitialiser x"; simp only: list.case)
    (intro produces_pure produces_seq writes_basic)+

lemma operator_writes:
  "produces txt (gen_operators txt x m scope) {}" "produces txt (gen_template_operators txt x) {}"
  unfolding gen_operators_def [abs_def] gen_template_operators_def [abs_def] Let_def
  by (intro produces_pure writes_basic)+

lemma writes_list:
  assumes "\<And>x. x \<in> set xs \<Longrightarrow> produces txt (f x) {}"
    and "\<And>s. g [] s = Ret s" "\<And>x xs s. g (x # xs) s = obind (f x s) (g xs)"
  shows "produces txt (g xs) {}"
  using assms(1)
proof (induction xs)
  case Nil
  have "g [] = Ret" using assms(2) by (simp add: fun_eq_iff)
  then show ?case using produces_Ret by simp
next
  case (Cons x xs)
  have "g (x # xs) = (\<lambda>s. obind (f x s) (g xs))" using assms(3) by (simp add: fun_eq_iff)
  then show ?case using Cons by (simp add: produces_seq)
qed

lemma genClass_writes: "produces txt (genClass txt x outer :: 'e gen) {}"
proof (induction "size x" arbitrary: x outer rule: less_induct)
  case less
  have members: "produces txt (class_member_items txt x outer (items i) :: 'e gen) {}"
    if i: "i \<in> set (items x)" for i
  proof (rule writes_list)
    fix m
    assume "m \<in> set (items i)"
    then have "size m < size x" using size_nth_less i by (meson less_trans)
    then show "produces txt
      (\<lambda>s. (if isA FunctionDef m then
          if isInlineFunction txt m then to_h (copy_item txt m) s
          else if isFriendFunction txt m then to_h (copy_item txt m) s
          else genClassMemberFunctionDef txt m (outer @ [x]) s
        else if isA StaticVarDef m then genClassStaticVarDef txt m (outer @ [x]) s
        else if isA ClassDef m then genClass txt m (outer @ [x]) s
        else if isA FunctionDecl m then
          obind (isFriendOperatorLessDecl txt m (className txt x)) (\<lambda>b.
            if b then gen_operators txt x m (outer @ [x]) s else to_h (copy_item txt m) s)
        else to_h (copy_item txt m) s) :: ('e, streams) outcome) {}"
      by (intro produces_if produces_pure writes_basic function_writes variable_writes operator_writes
          less.hyps)
  qed simp_all
  have "produces txt (class_items txt x outer (items x) :: 'e gen) {}"
    by (rule writes_list [where f = "\<lambda>i s. if isA ClassMembers i
          then class_member_items txt x outer (items i) s else to_h (copy_item txt i) s"])
      (intro produces_if writes_basic members, simp_all)
  moreover have "genClass txt x outer = (class_items txt x outer (items x) :: 'e gen)"
    by (simp add: fun_eq_iff)
  ultimately show ?case by simp
qed

lemma genTemplateClass_writes: "produces txt (genTemplateClass txt x :: 'e gen) {}"
proof -
  have members: "produces txt (template_member_items txt x ms :: 'e gen) {}" for ms
    by (rule writes_list [where f = "\<lambda>m s. if isA FunctionDecl m then
          obind (isFriendOperatorLessDecl txt m (className txt x)) (\<lambda>b.
            if b then gen_template_operators txt x s else to_h (copy_item txt m) s)
        else to_h (copy_item txt m) s"])
      (intro produces_if produces_pure writes_basic operator_writes, simp_all)
  have "produces txt (template_items txt x its :: 'e gen) {}" for its
    by (rule writes_list [where f = "\<lambda>i s. if isA ClassMembers i
          then template_member_items txt x (items i) s else to_h (copy_item txt i) s"])
      (intro produces_if writes_basic members, simp_all)
  then show ?thesis by (simp add: genTemplateClass_def [abs_def])
qed

lemma genNamespace_writes:
  assumes "\<And>i. i \<in> set (items x) \<Longrightarrow> produces txt (genNamespaceContent txt (items i) :: 'e gen) {}"
  shows "produces txt (genNamespace txt x :: 'e gen) {}"
proof (cases "find_if (isA NamespaceMembers) (items x) = length (items x)")
  case True
  then have "genNamespace txt x = (\<lambda>s. Abort :: ('e, streams) outcome)"
    by (simp add: fun_eq_iff Let_def)
  then show ?thesis by (simp add: produces_Abort del: genNamespace.simps)
next
  case False
  let ?its = "items x" and ?i = "find_if (isA NamespaceMembers) (items x)"
  have "?its ! ?i \<in> set ?its" using False find_if_less by (intro nth_mem) blast
  note members = assms [OF this]
  have "genNamespace txt x = (\<lambda>s. obind (gen_all
       [to_c (put_all [''namespace '', namespaceName txt x, nl, ''{'', nl]), to_h (copy_items txt (take ?i ?its))] s)
     (\<lambda>s. obind (genNamespaceContent txt (items (?its ! ?i)) s)
       (gen_all [to_h (copy_items txt (drop (?i + 1) ?its)), to_c (put_all [''}'', nl])] :: 'e gen)))"
    using False by (simp add: fun_eq_iff Let_def del: gen_all.simps)
  then show ?thesis by (simp only:) (intro produces_seq writes_basic members)
qed

lemma content_writes: "produces txt (genNamespaceContent txt xs :: 'e gen) {}"
proof (induction "size_list size xs" arbitrary: xs rule: less_induct)
  case less
  show ?case
  proof (rule writes_list)
    fix x
    assume x: "x \<in> set xs"
    have "produces txt (genNamespaceContent txt (items i) :: 'e gen) {}" if i: "i \<in> set (items x)" for i
    proof (rule less.hyps)
      have "size x \<le> size_list size xs" using x by (rule size_list_estimation' [OF _ order_refl])
      then show "size_list size (items i) < size_list size xs"
        using size_nth_less [OF i] size_items [of i] by simp
    qed
    then show "produces txt
      (\<lambda>s. (if isA AnonymousNamespace x then genAnonymousNamespace txt x s
        else if isA NamespaceDef x then genNamespace txt x s
        else if isA TemplateClassDef x then genTemplateClass txt x s
        else if isA ClassDef x then genClass txt x [] s
        else if isA HashIncludeImpl x then to_c (copy_item txt x) s
        else if isA FunctionDef x then genFunction txt x s
        else if isA GlobalVarDef x then genGlobalVar txt x s
        else to_h (copy_item txt x) s) :: ('e, streams) outcome) {}"
      unfolding genAnonymousNamespace_def
      by (intro produces_if writes_basic genNamespace_writes genTemplateClass_writes genClass_writes
          function_writes variable_writes)
  qed simp_all
qed

lemma split_emits:
  assumes "split_source n txt guard inc hg cg = Ret (h, c)"
  shows "\<exists>hs cs. emits txt hs cs (OStream_new, OStream_new) (h, c)"
proof -
  from split_source_Ret [OF assms] obtain its where
    g: "gen_all (split_parts txt guard inc hg cg its) (OStream_new, OStream_new) = Ret (h, c)"
    by blast
  have "produces txt (gen_all (split_parts txt guard inc hg cg its)) {}"
    unfolding split_parts_def by (intro writes_basic content_writes)
  from producesD [OF this g] show ?thesis by blast
qed

lemma split_exact:
  assumes "split_source n txt guard inc hg cg = Ret (h, c)"
  shows "\<exists>hs cs. os_text h = segments_text txt hs \<and> maps_exactly txt (os_map h) 0 hs \<and>
    os_text c = segments_text txt cs \<and> maps_exactly txt (os_map c) 0 cs"
  using split_emits [OF assms] emitted_new by blast

lemma split_streams_ok:
  assumes "split_source n txt guard inc hg cg = Ret (h, c)"
  shows "stream_ok h \<and> stream_ok c"
  using split_emits [OF assms] stream_ok_new by (auto simp: emits_def writes_segments_def)

section \<open>When copying fails\<close>

lemma copy_source_aborts:
  assumes "os_map os \<noteq> []" "\<forall>e \<in> set (os_map os). fst e \<le> os_offset os"
    "fst (last (os_map os)) = os_offset os" "snd (last (os_map os)) \<noteq> i_offset b"
  shows "copy_source txt b e os = Abort"
proof -
  have k: "os_offset os \<in> fst ` set (os_map os)"
    using imageI [OF last_in_set [OF assms(1)], of fst] unfolding assms(3) .
  have "mappedOffset os = snd (last (os_map os))"
    using map_offset_last [OF assms(2)] assms(1,3) by (simp add: mappedOffset_def)
  then show ?thesis using assms(4) k
    by (simp add: copy_source_def map_here_def offset_insert_def oassert_def Let_def)
qed

text \<open>An empty copy right after made up text leaves such an entry.\<close>

lemma empty_copy_entry:
  assumes "stream_ok os" "s \<noteq> []" "mappedOffset (put_text s os) \<noteq> i_offset b"
    and "copy_source txt b b (put_text s os) = Ret os'" "i_offset b' \<noteq> i_offset b"
  shows "copy_source txt b' e' os' = Abort"
proof -
  let ?os = "put_text s os"
  have keys: "\<forall>e \<in> set (os_map ?os). fst e < os_offset ?os"
    using assms(1,2) by (auto simp: stream_ok_def map_ok_def put_text_def intro: le_less_trans)
  then have "os_map os' = os_map ?os @ [(os_offset ?os, i_offset b)]" "os_offset os' = os_offset ?os"
    using assms(3,4) unfolding copy_source_def map_here_def Let_def
    by (auto simp: offset_insert_new put_text_def oassert_def split: if_splits)
  then show ?thesis using keys assms(5) by (intro copy_source_aborts) (auto intro: less_imp_le)
qed

lemma i_offset_position [simp]: "i_offset (position txt k) = k"
  by (induction k) (simp_all add: I_begin_def I_step_def Let_def)

lemma at_pos_offset: "at_pos txt i \<Longrightarrow> i_offset i = i_x i"
  by (metis at_pos_def i_offset_position)

lemma declaration_ends_empty:
  assumes "gen_declaration txt x (h, c) = (Ret (h', c') :: (split_error, streams) outcome)" "stream_ok h"
    and i: "i = find_if (isA FunctionImpl) (items x)"
    and e: "findStartOfTrailingWhitespace (items x ! i) = item_end x"
    and "i_offset (findStartOfTrailingWhitespace (items x ! (i - 1))) + 1 \<noteq> i_offset (item_end x)"
    and "b = item_begin x" "p = findStartOfTrailingWhitespace (items x ! (i - 1))"
    and "at_pos txt b" "at_pos txt p" "i_offset y \<noteq> i_offset (item_end x)"
  shows "copy_source txt y z h' = Abort"
proof -
  from assms(1) i e assms(6,7) obtain h1 where
    1: "copy_source txt b p h = (Ret h1 :: (split_error, OStream) outcome)"
    and 2: "copy_source txt (item_end x) (item_end x) (put_text '';'' h1) =
      (Ret h' :: (split_error, OStream) outcome)"
    by (auto simp: gen_declaration_def Let_def to_h_def put_all_def oassert_def split: if_splits)
  have h1: "stream_ok h1" using writes_copy [OF 1] assms(2) by (simp add: writes_segments_def)
  show ?thesis
  proof (rule empty_copy_entry [OF h1 _ _ 2 assms(10)])
    from 1 have here: "mappedOffset (map_here b h) = i_offset b"
      and eq: "h1 = put_text (slice txt b p) (map_here b h)" and le: "i_x b \<le> i_x p"
      by (auto simp: copy_source_def Let_def oassert_def split: if_splits)
    have "mappedOffset (put_text '';'' h1) = map_offset (os_map (map_here b h)) (os_offset h + (i_x p - i_x b + 1))"
      using map_here_ok(3) [OF assms(2) here] le at_pos_le [OF assms(9)]
      by (simp add: eq put_text_def mappedOffset_def length_slice)
    also have "\<dots> = i_offset b + (i_x p - i_x b + 1)" using map_here_ok(5) [OF assms(2) here] by blast
    also have "\<dots> = i_offset p + 1" using at_pos_offset [OF assms(8)] at_pos_offset [OF assms(9)] le by simp
    finally show "mappedOffset (put_text '';'' h1) \<noteq> i_offset (item_end x)" using assms(5,7) by simp
  qed simp
qed

text \<open>Nothing but the implementation is written until the next item of the header.\<close>

lemma content_append:
  "genNamespaceContent txt (xs @ ys) s =
     (obind (genNamespaceContent txt xs s) (genNamespaceContent txt ys) :: ('e, streams) outcome)"
proof (induction xs arbitrary: s)
  case (Cons x xs)
  then have "genNamespaceContent txt (xs @ ys) =
      (\<lambda>s. obind (genNamespaceContent txt xs s) (genNamespaceContent txt ys) :: ('e, streams) outcome)"
    by (rule ext)
  then show ?case by (simp only: append_Cons genNamespaceContent.simps obind_assoc)
qed simp

lemma to_c_header: "to_c f s = Ret s' \<Longrightarrow> fst s' = fst s"
  by (auto simp: to_c_def)

lemma genFunction_header:
  assumes "genFunction txt x s = (Ret s' :: (split_error, streams) outcome)" "\<not> isInlineFunction txt x"
  shows "\<exists>c. gen_declaration txt x s = (Ret (fst s', c) :: (split_error, streams) outcome)"
proof -
  from assms obtain s1 where 1: "gen_declaration txt x s = (Ret s1 :: (split_error, streams) outcome)"
    and 2: "\<exists>fs. gen_all fs s1 = (Ret s' :: (split_error, streams) outcome) \<and> (\<forall>f \<in> set fs. \<exists>g. f = to_c g)"
    by (auto simp: genFunction_def Let_def oassert_def simp del: gen_all.simps split: if_splits)
      (metis (no_types, lifting) empty_iff insert_iff list.set(1,2))
  have "fst s'' = fst s" if "gen_all fs s = (Ret s'' :: (split_error, streams) outcome)"
    "\<forall>f \<in> set fs. \<exists>g. f = to_c g" for fs s s''
    using that
  proof (induction fs arbitrary: s)
    case (Cons f fs)
    then show ?case by (auto dest!: to_c_header)
  qed simp
  with 1 2 show ?thesis by (metis prod.collapse)
qed

lemma only_implementation:
  "\<forall>a \<in> set as. isA AnonymousNamespace a \<or> isA HashIncludeImpl a \<Longrightarrow>
     genNamespaceContent txt as s = (Ret s' :: ('e, streams) outcome) \<Longrightarrow> fst s' = fst s"
proof (induction as arbitrary: s)
  case (Cons a as)
  from Cons.prems(1) have "genNamespaceContent txt (a # as) s =
      (obind (to_c (copy_item txt a) s) (genNamespaceContent txt as) :: ('e, streams) outcome)"
    by (auto simp: isA_def genAnonymousNamespace_def simp del: genNamespace.simps)
  with Cons show ?case by (auto dest: to_c_header simp del: genNamespaceContent.simps)
qed simp

lemma function_then_copy:
  assumes s: "stream_ok (fst s)" and x: "isA FunctionDef x" "\<not> isInlineFunction txt x"
    and i: "i = find_if (isA FunctionImpl) (items x)"
    and "findStartOfTrailingWhitespace (items x ! i) = item_end x"
    and p: "p = findStartOfTrailingWhitespace (items x ! (i - 1))" "at_pos txt p"
      "i_offset p + 1 \<noteq> i_offset (item_end x)"
    and "at_pos txt (item_begin x)"
    and as: "\<forall>a \<in> set as. isA AnonymousNamespace a \<or> isA HashIncludeImpl a"
    and y: "isA FunctionDecl y" "i_offset (item_begin y) \<noteq> i_offset (item_end x)"
    and run: "genNamespaceContent txt (x # as) s = (Ret s2 :: (split_error, streams) outcome)"
  shows "genNamespaceContent txt (x # as @ [y]) s = (Abort :: (split_error, streams) outcome)"
proof -
  have split: "genNamespaceContent txt (x # zs) s =
      (obind (genFunction txt x s) (genNamespaceContent txt zs) :: (split_error, streams) outcome)" for zs
    using x(1) by (simp add: isA_def del: genNamespace.simps)
  then obtain s1 where 1: "genFunction txt x s = (Ret s1 :: (split_error, streams) outcome)"
    and 2: "genNamespaceContent txt as s1 = (Ret s2 :: (split_error, streams) outcome)"
    using run by auto
  from genFunction_header [OF 1 x(2)] obtain c where
    "gen_declaration txt x s = (Ret (fst s1, c) :: (split_error, streams) outcome)" by blast
  then have "gen_declaration txt x (fst s, snd s) = (Ret (fst s1, c) :: (split_error, streams) outcome)"
    by simp
  from declaration_ends_empty [OF this s i assms(5) _ refl p(1) assms(9) p(2) y(2)] p
  have "copy_source txt (item_begin y) (item_end y) (fst s1) = (Abort :: (split_error, OStream) outcome)"
    by simp
  moreover have "fst s2 = fst s1" using only_implementation [OF as 2] .
  ultimately have "genNamespaceContent txt [y] s2 = (Abort :: (split_error, streams) outcome)"
    using y(1) by (simp add: isA_def to_h_def copy_item_def)
  then show ?thesis using split [of as] split [of "as @ [y]"] run
    by (simp add: 1 2 content_append del: genNamespaceContent.simps)
qed

end
