(* ===== verification/HcpStructure.thy ===== *)
theory HcpStructure
  imports HcpPeg HcpExact
begin

text \<open>
  What the grammar promises of the items it builds, whatever the text: a composite item has children,
  the name of a function comes before its body, and a static member begins with its keyword.  These are
  properties of derivations, read off the parsers: \<open>lacks\<close> and \<open>has\<close> are about the kinds of items a
  parser returns, \<open>well_made\<close> about every item inside them.  With them \<open>hcp-split\<close> needs to assume
  nothing of the trees it is given but that no template class has its operators generated.
\<close>

section \<open>The kinds of items a parser returns\<close>

fun lacks :: "item_type \<Rightarrow> static set \<Rightarrow> parser \<Rightarrow> bool" where
  "lacks y K (Static k) = (k \<notin> K)"
| "lacks y K (Optional x) = lacks y K x"
| "lacks y K (ParseZeroOrMore x) = lacks y K x"
| "lacks y K (ParseAnd ps) = list_all (lacks y K) ps"
| "lacks y K (ParseOr ps) = list_all (lacks y K) ps"
| "lacks y K (ParseSpecificUntil q x) = lacks y K q"
| "lacks y K (AnonParser name x) = lacks y K x"
| "lacks y K (NamedParser z name x) = (z \<noteq> y)"
| "lacks y K (NonEmptyListOf x q) = (lacks y K x \<and> lacks y K q)"
| "lacks y K (NToM n m x) = lacks y K x"
| "lacks y K VarFpBackref = (S_var_fp \<notin> K)"
| "lacks y K (SelfParser k) = (k \<notin> K)"
| "lacks y K (ParseClass tp q) = (lacks y K tp \<and> lacks y K q)"
| "lacks y K p = True"

lemma lacks_terms [simp]:
  "list_all (lacks y K) (and_terms p) = lacks y K p"
  "list_all (lacks y K) (or_terms p) = lacks y K p"
  by (cases p; simp)+

lemma lacks_plus [simp]: "lacks y K (parser_plus a b) \<longleftrightarrow> lacks y K a \<and> lacks y K b"
  and lacks_or [simp]: "lacks y K (parser_or a b) \<longleftrightarrow> lacks y K a \<and> lacks y K b"
  by (simp_all add: parser_plus_def parser_or_def)

lemma lacks_sound:
  assumes "y \<notin> {ItemTag, EndOfFile}" and table: "\<And>k. k \<notin> K \<Longrightarrow> lacks y K (static_object k)"
  shows "peg t p i r \<Longrightarrow> lacks y K p \<Longrightarrow> (\<And>irs e. r = Some (irs, e) \<Longrightarrow> \<forall>x \<in> set irs. \<not> isA y x)"
    "peg_skip t a i v \<Longrightarrow> True"
proof (induction p i r and a i v rule: peg_peg_skip.inducts)
  case (Char p f i)
  then show ?case using assms(1) by (auto simp: isA_def split: option.splits if_splits)
qed (use assms in \<open>auto simp: isA_def Let_def split: option.splits if_splits\<close>)

fun has :: "item_type \<Rightarrow> static set \<Rightarrow> parser \<Rightarrow> bool" where
  "has y H (Static k) = (k \<in> H)"
| "has y H (ParseAnd ps) = list_ex (has y H) ps"
| "has y H (ParseOr ps) = list_all (has y H) ps"
| "has y H (AnonParser name x) = has y H x"
| "has y H (NamedParser z name x) = (z = y)"
| "has y H p = False"

lemma has_terms [simp]:
  "list_ex (has y H) (and_terms p) = has y H p" "list_all (has y H) (or_terms p) = has y H p"
  by (cases p; simp)+

lemma has_plus [simp]: "has y H (parser_plus a b) \<longleftrightarrow> has y H a \<or> has y H b"
  and has_or [simp]: "has y H (parser_or a b) \<longleftrightarrow> has y H a \<and> has y H b"
  by (simp_all add: parser_plus_def parser_or_def)

lemma has_sound:
  assumes table: "\<And>k. k \<in> H \<Longrightarrow> has y H (static_object k)"
  shows "peg t p i r \<Longrightarrow> has y H p \<Longrightarrow> (\<And>irs e. r = Some (irs, e) \<Longrightarrow> \<exists>x \<in> set irs. isA y x)"
    "peg_skip t a i v \<Longrightarrow> True"
proof (induction p i r and a i v rule: peg_peg_skip.inducts)
  case (Char p f i)
  then show ?case by (cases p) auto
qed (use table in \<open>auto simp: isA_def\<close>)

section \<open>The parts of functions and static members\<close>

definition lacks_body :: "parser \<Rightarrow> bool" where
  "lacks_body = lacks FunctionImpl {S_function_impl}"

definition has_name :: "parser \<Rightarrow> bool" where
  "has_name = has FunctionName {S_function_proto}"

lemma lacks_body_object: "k \<noteq> S_function_impl \<Longrightarrow> lacks_body (static_object k)"
  unfolding lacks_body_def
  by (cases k) (simp_all add: static_object_defs grammar_defs builder_defs)

lemma has_name_object: "has_name (static_object S_function_proto)"
  unfolding has_name_def by (simp add: static_object_defs grammar_defs builder_defs)

lemma lacks_body_sound:
  assumes "peg t p i (Some (irs, e))" "lacks_body p"
  shows "\<forall>x \<in> set irs. \<not> isA FunctionImpl x"
  using lacks_sound(1) [of FunctionImpl "{S_function_impl}"] lacks_body_object assms
  unfolding lacks_body_def by blast

lemma has_name_sound:
  assumes "peg t p i (Some (irs, e))" "has_name p"
  shows "\<exists>x \<in> set irs. isA FunctionName x"
  using has_sound(1) [of "{S_function_proto}" FunctionName] has_name_object assms
  unfolding has_name_def by blast

fun precedes :: "parser list \<Rightarrow> bool" where
  "precedes [] = True"
| "precedes (p # ps) = (lacks_body p \<and> (has_name p \<or> precedes ps))"

fun names_first :: "parser \<Rightarrow> bool" where
  "names_first (ParseAnd ps) = precedes ps"
| "names_first p = False"

lemma find_if_append:
  "find_if P (xs @ ys) = (if \<exists>x \<in> set xs. P x then find_if P xs else length xs + find_if P ys)"
  by (induction xs) (auto simp: find_if_def)

lemma find_if_le: "find_if P xs \<le> length xs"
  by (simp add: find_if_def length_takeWhile_le)

lemma precedes_sound:
  "peg t (ParseAnd ps) i (Some (irs, e)) \<Longrightarrow> precedes ps \<Longrightarrow>
     find_if (isA FunctionName) irs \<le> find_if (isA FunctionImpl) irs"
proof (induction ps arbitrary: i irs)
  case Nil
  then show ?case by (auto elim: peg_elims simp: find_if_def)
next
  case (Cons p ps)
  from Cons.prems(1) obtain xs m ys where p: "peg t p i (Some (xs, m))"
    and ps: "peg t (ParseAnd ps) m (Some (ys, e))" and irs: "irs = xs @ ys"
    by (auto elim: peg_elims split: option.splits)
  have no_body: "\<not> (\<exists>x \<in> set xs. isA FunctionImpl x)"
    using lacks_body_sound [OF p] Cons.prems(2) by simp
  show ?case
  proof (cases "\<exists>x \<in> set xs. isA FunctionName x")
    case True
    then show ?thesis using no_body find_if_le [of "isA FunctionName" xs]
      by (simp add: irs find_if_append trans_le_add1)
  next
    case False
    then have "precedes ps" using Cons.prems(2) has_name_sound [OF p] by auto
    then show ?thesis using Cons.IH [OF ps] False no_body by (simp add: irs find_if_append)
  qed
qed

section \<open>Every item of a tree\<close>

text \<open>A static member begins with an item that has no initialiser in it.\<close>

definition static_made :: "item \<Rightarrow> bool" where
  "static_made x \<longleftrightarrow>
     items x \<noteq> [] \<and> \<not> isA VarInitialiser (hd (items x)) \<and> found_all VarInitialiser (hd (items x)) = []"

definition node_made :: "item \<Rightarrow> bool" where
  "node_made x \<longleftrightarrow> (items x = [] \<longrightarrow> isA ItemTag x) \<and> (isA FunctionDef x \<longrightarrow> function_ok x) \<and>
     (isA StaticVarDef x \<longrightarrow> static_made x)"

fun starts_plain :: "parser \<Rightarrow> bool" where
  "starts_plain (ParseAnd (NamedParser z name (ParseLiteral w) # ps)) = (z \<noteq> VarInitialiser)"
| "starts_plain p = False"

text \<open>A condition on every named parser inside a parser.\<close>

fun named_all :: "(item_type \<Rightarrow> parser \<Rightarrow> bool) \<Rightarrow> parser \<Rightarrow> bool" where
  "named_all C (Optional x) = named_all C x"
| "named_all C (ParseZeroOrMore x) = named_all C x"
| "named_all C (ParseAnd ps) = list_all (named_all C) ps"
| "named_all C (ParseOr ps) = list_all (named_all C) ps"
| "named_all C (ParseSpecificUntil q x) = named_all C q"
| "named_all C (AnonParser name x) = named_all C x"
| "named_all C (NamedParser z name x) = (C z x \<and> named_all C x)"
| "named_all C (NonEmptyListOf x q) = (named_all C x \<and> named_all C q)"
| "named_all C (NToM n m x) = named_all C x"
| "named_all C (ParseClass tp q) = (named_all C tp \<and> named_all C q)"
| "named_all C p = True"

lemma named_all_terms [simp]:
  "list_all (named_all C) (and_terms p) = named_all C p"
  "list_all (named_all C) (or_terms p) = named_all C p"
  by (cases p; simp)+

lemma named_all_plus [simp]: "named_all C (parser_plus a b) \<longleftrightarrow> named_all C a \<and> named_all C b"
  and named_all_or [simp]: "named_all C (parser_or a b) \<longleftrightarrow> named_all C a \<and> named_all C b"
  by (simp_all add: parser_plus_def parser_or_def)

text \<open>The contract between a condition on named parsers and one on the items that they make: then every
  item of every derivation meets it.\<close>

locale node_contract =
  fixes t :: string and C :: "item_type \<Rightarrow> parser \<Rightarrow> bool" and N :: "item \<Rightarrow> bool"
  assumes leaf_meets: "N (leaf b e)"
    and end_meets: "N (composite EndOfFile [leaf b e])"
    and named_meets: "C z x \<Longrightarrow> peg t x i (Some (irs, e)) \<Longrightarrow>
      N (composite z (if irs = [] then [leaf i i] else irs))"
    and objects_meet: "named_all C (static_object k)"
begin

lemma all_leaf: "all_nodes N (leaf b e)"
  using leaf_meets [of b e] by (simp add: leaf_def)

lemma all_composite: "N (composite z xs) \<Longrightarrow> \<forall>x \<in> set xs. all_nodes N x \<Longrightarrow> all_nodes N (composite z xs)"
  by (simp add: composite_def list_all_iff)

lemma derivation_meets:
  "peg t p i r \<Longrightarrow> named_all C p \<Longrightarrow> (\<And>irs e. r = Some (irs, e) \<Longrightarrow> \<forall>x \<in> set irs. all_nodes N x)"
  "peg_skip t a i v \<Longrightarrow> True"
proof (induction p i r and a i v rule: peg_peg_skip.inducts)
  case (Named x i r y name)
  then obtain irs0 e0 where r: "r = Some (irs0, e0)" and irs: "irs = [composite y (if irs0 = [] then [leaf i i] else irs0)]"
    by (cases r) auto
  have "\<forall>x \<in> set (if irs0 = [] then [leaf i i] else irs0). all_nodes N x"
    using Named r all_leaf by simp
  moreover have "N (composite y (if irs0 = [] then [leaf i i] else irs0))"
    using named_meets [OF _ Named.IH(1) [unfolded r]] Named.prems(1) by simp
  ultimately show ?case unfolding irs by (simp only: list.set ball_simps simp_thms) (rule all_composite)
next
  case (EndOfFile i)
  then show ?case using all_composite [OF end_meets [of i i]] all_leaf by (auto split: if_splits)
qed (auto simp: objects_meet all_leaf Let_def split: option.splits if_splits)

lemma tree_meets:
  assumes "parseString n t (Static k) = Ret root"
  shows "items root \<noteq> [] \<Longrightarrow> list_all (all_nodes N) (items root)" "items root = [] \<Longrightarrow> all_nodes N root"
proof -
  from assms obtain irs e c where
    p: "parser_parse False t n (Static k) I_begin Map.empty = Ret (Parsed irs e, c)"
    and root: "root = (if irs = []
        then leaf I_begin \<lparr>i_line = 1, i_column = 1, i_offset = 0, i_x = length t\<rparr>
        else composite ItemTag irs)"
    by (rule parseString_Ret)
  have "peg t (Static k) I_begin (Some (irs, e))" using parser_derives [OF p] by simp
  then have "\<forall>x \<in> set irs. all_nodes N x" using derivation_meets(1) by fastforce
  then show "items root \<noteq> [] \<Longrightarrow> list_all (all_nodes N) (items root)" "items root = [] \<Longrightarrow> all_nodes N root"
    using all_leaf by (auto simp: root list_all_iff split: if_splits)
qed

end

section \<open>Functions and static members are well made\<close>

definition well_made :: "item_type \<Rightarrow> parser \<Rightarrow> bool" where
  "well_made z x \<longleftrightarrow> (z = FunctionDef \<longrightarrow> names_first x) \<and> (z = StaticVarDef \<longrightarrow> starts_plain x)"

lemma has_name_static [simp]: "has_name (Static k) \<longleftrightarrow> k = S_function_proto"
  and lacks_body_static [simp]: "lacks_body (Static k) \<longleftrightarrow> k \<noteq> S_function_impl"
  by (simp_all add: has_name_def lacks_body_def)

lemma function_def_names_first:
  "names_first (seq [Optional template_empty_preamble, optional_attributes, function_def_unnamed])"
  by (simp add: seq_def parser_plus_def function_def_unnamed_def optional_attributes_def parser_or_def
      lacks_body_def has_name_def)

lemma static_var_def_starts_plain:
  "starts_plain (seq [keyword_static, eatWhite, optional_attributes, var_def, parseLiteral '';'', eatWhite])"
  by (simp add: seq_def parser_plus_def keyword_static_def keyword_item_def)

lemma well_made_object: "named_all well_made (static_object k)"
proof (cases "k = S_function_def \<or> k = S_static_var_def")
  case True
  then show ?thesis
    using function_def_names_first static_var_def_starts_plain
    by (auto simp: function_def_object_def static_var_def_object_def well_made_def)
      (simp_all add: grammar_defs builder_defs well_made_def)
next
  case False
  then show ?thesis
    by (cases k) (simp_all add: static_object_defs grammar_defs builder_defs well_made_def)
qed

lemma starts_plain_sound:
  assumes "peg t p i (Some (irs, e))" "starts_plain p"
  shows "irs \<noteq> [] \<and> \<not> isA VarInitialiser (hd irs) \<and> found_all VarInitialiser (hd irs) = []"
proof -
  from assms(2) obtain z name w ps where p: "p = ParseAnd (NamedParser z name (ParseLiteral w) # ps)"
    and z: "z \<noteq> VarInitialiser"
    by (cases p rule: starts_plain.cases) auto
  from assms(1) [unfolded p] obtain xs m ys where x: "peg t (NamedParser z name (ParseLiteral w)) i (Some (xs, m))"
    and irs: "irs = xs @ ys"
    by (auto elim: peg_elims split: option.splits)
  from x have "xs = [composite z [leaf i m]]"
    by (auto elim!: peg_elims split: if_splits)
  then show ?thesis using z by (simp add: irs isA_def composite_def leaf_def)
qed

lemma names_first_sound:
  assumes "peg t p i (Some (irs, e))" "names_first p"
  shows "find_if (isA FunctionName) irs \<le> find_if (isA FunctionImpl) irs"
  using assms precedes_sound by (cases p rule: names_first.cases) auto

lemma named_made:
  assumes "well_made y x" "peg t x i (Some (irs, e))"
  shows "node_made (composite y (if irs = [] then [leaf i i] else irs))"
proof -
  let ?its = "if irs = [] then [leaf i i] else irs"
  have "find_if (isA FunctionName) ?its \<le> find_if (isA FunctionImpl) ?its" if "y = FunctionDef"
    using names_first_sound [OF assms(2)] assms(1) that by (simp add: find_if_def isA_def well_made_def)
  moreover have "static_made (composite y ?its)" if "y = StaticVarDef"
    using starts_plain_sound [OF assms(2)] assms(1) that by (simp add: static_made_def well_made_def)
  ultimately show ?thesis by (simp add: node_made_def isA_def function_ok_def)
qed

interpretation made: node_contract t well_made node_made for t
proof unfold_locales
  show "node_made (leaf b e)" "node_made (composite EndOfFile [leaf b e])" for b e
    by (simp_all add: node_made_def isA_def)
qed (rule named_made well_made_object; assumption)+

section \<open>Operator names\<close>

text \<open>Of several literals the first that the text starts with is taken, even when a longer one follows.\<close>

lemma literal_choice:
  "peg t (ParseOr (map ParseLiteral ws)) i (Some (irs, e)) \<Longrightarrow>
     \<exists>w. find (lookingAt t i) ws = Some w \<and> irs = [leaf i e] \<and> e = advance t (length w) i"
proof (induction ws)
  case Nil
  then show ?case by (auto elim: peg_elims)
next
  case (Cons w ws)
  from Cons.prems show ?case
  proof (cases "lookingAt t i w")
    case True
    then have "peg t (ParseLiteral w) i (Some ([leaf i (advance t (length w) i)], advance t (length w) i))"
      using Literal [of t w i] by simp
    from peg_unique(1) [OF Or_here [OF this] Cons.prems [simplified]] show ?thesis using True by simp
  next
    case False
    then have "peg t (ParseLiteral w) i None" using Literal [of t w i] by simp
    then have "peg t (ParseOr (map ParseLiteral ws)) i (Some (irs, e))"
      using Cons.prems by (auto elim!: peg_elims split: if_splits dest: peg_unique(1))
    then show ?thesis using Cons.IH False by simp
  qed
qed

lemma i_x_advance [simp]: "i_x (advance t k i) = i_x i + k"
  by (induction k) (simp_all add: advance_def)

lemma lookingAt_slice:
  "lookingAt t i w \<Longrightarrow> i_x i \<le> length t \<Longrightarrow> take (length w) (drop (i_x i) t) = w"
proof (induction w arbitrary: i)
  case (Cons c w)
  then have less: "i_x i < length t" by (auto simp: I_atEnd_def)
  then have "drop (i_x i) t = t ! i_x i # drop (Suc (i_x i)) t" by (simp add: Cons_nth_drop_Suc)
  then show ?case using Cons.IH [of "I_step t i"] Cons.prems less by simp
qed simp

lemma lookingAt_prefix: "lookingAt t i (v @ w) \<Longrightarrow> lookingAt t i v"
  by (induction v arbitrary: i) auto

lemma find_earlier: "find P ws = Some w \<Longrightarrow> v \<in> set (takeWhile (\<lambda>u. u \<noteq> w) ws) \<Longrightarrow> \<not> P v"
  by (induction ws) (auto split: if_splits)

definition operator_choice :: "item_type \<Rightarrow> parser \<Rightarrow> bool" where
  "operator_choice z x \<longleftrightarrow> (z = OperatorName \<longrightarrow> x = ParseOr (map ParseLiteral operator_symbols))"

text \<open>The symbols that come after one of their own prefixes.\<close>

definition shadowed_symbols :: "string list" where
  "shadowed_symbols = [''>>='', ''^='', ''*='', ''~='', ''/='']"

definition operator_made :: "string \<Rightarrow> item \<Rightarrow> bool" where
  "operator_made t x \<longleftrightarrow> (isA OperatorName x \<longrightarrow>
     (\<exists>w b. w \<in> set operator_symbols \<and> w \<notin> set shadowed_symbols \<and> lookingAt t b w \<and>
        items x = [leaf b (advance t (length w) b)]))"

lemma shadowed:
  "w \<in> set shadowed_symbols \<Longrightarrow> \<exists>v c. w = v @ [c] \<and> v \<in> set (takeWhile (\<lambda>u. u \<noteq> w) operator_symbols)"
  unfolding shadowed_symbols_def operator_symbols_def by auto

lemma operator_choice_made:
  assumes "operator_choice z x" "peg t x i (Some (irs, e))"
  shows "operator_made t (composite z (if irs = [] then [leaf i i] else irs))"
proof (cases "z = OperatorName")
  case True
  then obtain w where w: "find (lookingAt t i) operator_symbols = Some w" "irs = [leaf i (advance t (length w) i)]"
    using assms literal_choice [of t operator_symbols i irs e] by (auto simp: operator_choice_def)
  then have here: "w \<in> set operator_symbols" "lookingAt t i w" by (auto simp: find_Some_iff)
  have "w \<notin> set shadowed_symbols"
  proof
    assume "w \<in> set shadowed_symbols"
    then obtain v c where "w = v @ [c]" "v \<in> set (takeWhile (\<lambda>u. u \<noteq> w) operator_symbols)"
      using shadowed by blast
    then show False using find_earlier [OF w(1)] here(2) lookingAt_prefix by blast
  qed
  with here w(2) show ?thesis by (auto simp: operator_made_def)
qed (simp add: operator_made_def isA_def)

lemma operator_choice_object: "named_all operator_choice (static_object k)"
proof (cases "k = S_operator_name")
  case True
  then show ?thesis
    by (simp add: operator_name_object_def operator_choice_def seq_def parser_plus_def alt_def parser_or_def
        operator_symbols_def grammar_defs)
next
  case False
  then show ?thesis
    by (cases k) (simp_all add: static_object_defs grammar_defs builder_defs operator_choice_def)
qed

interpretation operators: node_contract t operator_choice "operator_made t" for t
proof unfold_locales
  show "operator_made t (leaf b e)" "operator_made t (composite EndOfFile [leaf b e])" for t b e
    by (simp_all add: operator_made_def isA_def)
qed (rule operator_choice_made operator_choice_object; assumption)+

section \<open>Trees for hcp-split\<close>

text \<open>The one thing that is left to be assumed of a file.\<close>

definition no_generated_operators :: "string \<Rightarrow> item \<Rightarrow> bool" where
  "no_generated_operators txt = all_nodes (\<lambda>x. isA TemplateClassDef x \<longrightarrow> template_ok txt x)"

lemma all_nodes_mono: "all_nodes P x \<Longrightarrow> (\<And>y. P y \<Longrightarrow> Q y) \<Longrightarrow> all_nodes Q x"
  by (induction P x rule: all_nodes.induct) (auto simp: list_all_iff)

lemma all_nodes_conj: "all_nodes P x \<Longrightarrow> all_nodes Q x \<Longrightarrow> all_nodes (\<lambda>y. P y \<and> Q y) x"
  by (induction P x rule: all_nodes.induct) (auto simp: list_all_iff)

lemma found_after:
  "tree_ok x \<Longrightarrow> y \<in> set (found_all t x) \<Longrightarrow> i_x (item_begin x) \<le> i_x (item_begin y)"
  "tiles xs b e \<Longrightarrow> y \<in> set (found_in t xs) \<Longrightarrow> i_x b \<le> i_x (item_begin y)"
proof (induction t x and t xs arbitrary: and b e rule: found_all_found_in.induct)
  case (1 t tag irs b e)
  then have "irs \<noteq> []" by auto
  then have "tiles irs (item_begin (Item tag irs b e)) (item_end (Item tag irs b e))"
    using tree_ok_children [OF "1.prems"(1)] by simp
  from "1.IH" [OF this] "1.prems"(2) show ?case by simp
next
  case (3 t x xs)
  then show ?case using tree_ok_le [of x] by (fastforce split: if_splits)
qed simp

lemma static_made_ok:
  assumes "tree_ok x" "static_made x"
  shows "static_ok x"
proof -
  obtain k ks where its: "items x = k # ks" using assms(2) by (cases "items x") (auto simp: static_made_def)
  have found: "found_all VarInitialiser x = found_in VarInitialiser ks"
    using assms(2) its by (cases x) (simp add: static_made_def)
  have "tiles (items x) (item_begin x) (item_end x)" using assms(1) its by (intro tree_ok_children) simp_all
  then have "tiles ks (item_end k) (item_end x)" by (simp add: its)
  from found_after(2) [OF this] have "i_x (item_end k) \<le> i_x (item_begin y)"
    if "y \<in> set (found_all VarInitialiser x)" for y using that by (simp add: found)
  moreover have "set (findAll VarInitialiser x) \<subseteq> set (found_all VarInitialiser x)"
    by (simp add: find_take SIZE_MAX_def set_take_subset)
  ultimately show ?thesis using its by (auto simp: static_ok_def split: list.split)
qed

lemma all_nodes_tree:
  "all_nodes P x \<Longrightarrow> tree_ok x \<Longrightarrow> (\<And>y. P y \<Longrightarrow> tree_ok y \<Longrightarrow> Q y) \<Longrightarrow> all_nodes Q x"
proof (induction P x rule: all_nodes.induct)
  case (1 P tag its b e)
  then have "tree_ok y" if "y \<in> set its" for y
    using that tree_ok_children [of "Item tag its b e"] tiles_tree_ok by fastforce
  with 1 show ?case by (auto simp: list_all_iff)
qed

lemma source_made:
  assumes "tree_ok x" "all_nodes node_made x" "no_generated_operators txt x"
  shows "source_ok txt x"
  unfolding source_ok_def
proof (intro conjI assms(1))
  have "all_nodes (\<lambda>y. node_made y \<and> (isA TemplateClassDef y \<longrightarrow> template_ok txt y)) x"
    using assms(2,3) unfolding no_generated_operators_def by (rule all_nodes_conj)
  then show "all_nodes (node_ok txt) x"
    by (rule all_nodes_tree [OF _ assms(1)]) (auto simp: node_made_def node_ok_def static_made_ok)
qed

lemma all_nodes_root:
  assumes "items x \<noteq> []" "P x" "list_all (all_nodes P) (items x)"
  shows "all_nodes P x"
  using assms by (cases x) simp

lemma parse_made:
  assumes "parseString n txt (Static k) = Ret root"
  shows "tree_ok root" "all_nodes node_made root"
proof -
  show "tree_ok root" using parseString_covers [OF assms] by simp
  show "all_nodes node_made root"
  proof (cases "items root = []")
    case True
    then show ?thesis by (rule made.tree_meets(2) [OF assms])
  next
    case False
    have "item_tag root = ItemTag" by (rule parseString_Ret [OF assms]) (simp split: if_splits)
    then have "node_made root" using False by (simp add: node_made_def isA_def)
    then show ?thesis using made.tree_meets(1) [OF assms False] by (rule all_nodes_root [OF False])
  qed
qed

lemma split_keeps_file:
  assumes "split_source n txt guard inc hg cg = Ret (h, c)" "parseString n txt file = Ret root"
    and "no_generated_operators txt root"
  shows "\<exists>hs cs. os_text h = segments_text txt hs \<and> os_text c = segments_text txt cs \<and>
    keeps (items root ! 0) \<subseteq> covered hs \<union> covered cs"
  using split_keeps [OF assms(1,2) source_made] parse_made [OF assms(2)] assms(3) by blast

section \<open>The text of operator names\<close>

lemma all_nodes_within:
  "tree_ok x \<Longrightarrow> i_x (item_end x) \<le> n \<Longrightarrow> all_nodes (\<lambda>y. i_x (item_end y) \<le> n) x"
  "tiles xs b e \<Longrightarrow> i_x e \<le> n \<Longrightarrow> list_all (all_nodes (\<lambda>y. i_x (item_end y) \<le> n)) xs"
proof (induction x and xs b e rule: tree_ok_tiles.induct)
  case (1 t its b e)
  show ?case
  proof (cases "its = []")
    case True
    then show ?thesis using "1.prems" by simp
  next
    case False
    then have "tiles its b e" using "1.prems" by simp
    moreover have "item_end (Item t its b e) = e"
      using False calculation tiles_last [of its b e] by (cases its) simp_all
    ultimately show ?thesis using "1.IH" [OF False] "1.prems"(2) by simp
  qed
next
  case (3 x xs b e)
  then show ?case using tiles_le [of xs "item_end x" e] by auto
qed simp

lemma operator_text:
  assumes "operator_made t x" "isA OperatorName x" "i_x (item_end x) \<le> length t"
  shows "reconstruct t x \<in> set operator_symbols - set shadowed_symbols"
proof -
  from assms(1,2) obtain w b where w: "w \<in> set operator_symbols - set shadowed_symbols" "lookingAt t b w"
    and its: "items x = [leaf b (advance t (length w) b)]" by (auto simp: operator_made_def)
  then have ends: "item_begin x = b" "item_end x = advance t (length w) b" by (cases x; simp)+
  then have "reconstruct t x = w"
    using lookingAt_slice [OF w(2)] assms(3) by (simp add: reconstruct_def slice_def)
  with w(1) show ?thesis by simp
qed

lemma operators_in_tree:
  assumes "parseString n t (Static k) = Ret root"
  shows "all_nodes (\<lambda>x. isA OperatorName x \<longrightarrow> reconstruct t x \<in> set operator_symbols - set shadowed_symbols) root"
proof -
  have "all_nodes (operator_made t) root"
  proof (cases "items root = []")
    case True
    then show ?thesis by (rule operators.tree_meets(2) [OF assms])
  next
    case False
    have "item_tag root = ItemTag" by (rule parseString_Ret [OF assms]) (simp split: if_splits)
    then have "operator_made t root" by (simp add: operator_made_def isA_def)
    then show ?thesis using operators.tree_meets(1) [OF assms False] by (rule all_nodes_root [OF False])
  qed
  moreover have "all_nodes (\<lambda>y. i_x (item_end y) \<le> length t) root"
    using parseString_covers [OF assms] by (intro all_nodes_within(1)) auto
  ultimately have "all_nodes (\<lambda>y. operator_made t y \<and> i_x (item_end y) \<le> length t) root"
    by (rule all_nodes_conj)
  then show ?thesis by (rule all_nodes_mono) (use operator_text in blast)
qed

end
