(* ===== verification/HcpMapRound.thy ===== *)
theory HcpMapRound
  imports HcpMapFile HcpStructure
begin

text \<open>
  \<^verbatim>\<open>hcp-map-to-source\<close> reads what \<^verbatim>\<open>hcp-split\<close> writes.  The map parser is ranked, so it returns, and what
  it returns is the one derivation there is: the one built here along the text of a map file.
\<close>

section \<open>Ranked parsers\<close>

lemma ranked_returns:
  assumes "ranked k p" "at_pos t i"
  shows "\<exists>n r. \<forall>m \<ge> n. plain_parse ae t m p i () = Ret (r, ()) \<and>
    (\<exists>c. parser_parse ae t m p i Map.empty = Ret (r, c))"
proof -
  from runs_P [OF ranked_halts [OF assms] assms(2)] obtain r n
    where "\<forall>m. n \<le> m \<longrightarrow> plain_parse ae t m p i () = Ret (r, ())"
    unfolding runs_def by blast
  then show ?thesis using assms by (blast elim: cache_transparent)
qed

lemma ranked_parses:
  assumes "ranked k p" "at_pos t i" "peg t p i (Some (irs, e))"
  shows "\<exists>n. \<forall>m \<ge> n. \<exists>c. parser_parse ae t m p i Map.empty = Ret (Parsed irs e, c)"
proof -
  from ranked_returns [OF assms(1,2)] obtain n r where n: "\<forall>m \<ge> n. plain_parse ae t m p i () = Ret (r, ()) \<and>
      (\<exists>c. parser_parse ae t m p i Map.empty = Ret (r, c))" by blast
  then have "gives (derives t p i) (Ret (r, ()) :: unit run)"
    using calls_giveD [OF parse_derives [of t ae n] assms(2), of p "()"] by simp
  then have "peg t p i (peg_of r)" by (simp add: derives_def)
  then have "peg_of r = Some (irs, e)" using peg_unique(1) [OF assms(3)] by simp
  then have "r = Parsed irs e" by (cases r) simp_all
  with n show ?thesis by blast
qed

lemma ranked_parses_all:
  assumes "ranked k p" "peg t p I_begin (Some (irs, e))" "I_atEnd t e" "irs \<noteq> []"
  shows "\<exists>n. \<forall>m \<ge> n. parseString m t p = Ret (composite ItemTag irs)"
proof -
  from ranked_parses [OF assms(1) at_pos_begin assms(2), of False] obtain n
    where n: "\<forall>m \<ge> n. \<exists>c. parser_parse False t m p I_begin Map.empty = Ret (Parsed irs e, c)" by blast
  have "parseString m t p = Ret (composite ItemTag irs)" if m: "n \<le> m" for m
  proof -
    obtain c where "parser_parse False t m p I_begin Map.empty = Ret (Parsed irs e, c)"
      using n [rule_format, OF m] by blast
    then have "hcp_parse m t I_begin p False = Ret (irs, e)" by (simp add: hcp_parse_def)
    then show ?thesis using assms(3,4) by (simp add: parseString_def)
  qed
  then show ?thesis by blast
qed

section \<open>Derivations along a text\<close>

text \<open>The rest of the text from a position.\<close>

definition rest_is :: "string \<Rightarrow> I \<Rightarrow> string \<Rightarrow> bool" where
  "rest_is t i s \<longleftrightarrow> i_x i \<le> length t \<and> drop (i_x i) t = s"

lemma rest_Cons:
  assumes "rest_is t i (c # s)"
  shows "\<not> I_atEnd t i" "t ! i_x i = c" "rest_is t (I_step t i) s" "next_char t i = Some c"
proof -
  have less: "i_x i < length t" using assms by (cases "i_x i = length t") (auto simp: rest_is_def)
  then have "drop (i_x i) t = t ! i_x i # drop (Suc (i_x i)) t" by (simp add: Cons_nth_drop_Suc)
  with assms less show "\<not> I_atEnd t i" "t ! i_x i = c" "rest_is t (I_step t i) s" "next_char t i = Some c"
    by (auto simp: rest_is_def I_atEnd_def next_char_def)
qed

lemma rest_Nil: "rest_is t i [] \<Longrightarrow> I_atEnd t i" "rest_is t i [] \<Longrightarrow> next_char t i = None"
  by (auto simp: rest_is_def I_atEnd_def next_char_def)

lemma advance_0 [simp]: "advance t 0 i = i"
  and advance_Suc: "advance t (Suc k) i = advance t k (I_step t i)"
  by (simp_all add: advance_def funpow_swap1)

lemma advance_add: "advance t (k + l) i = advance t l (advance t k i)"
  by (induction k arbitrary: i) (simp_all add: advance_Suc)

lemma advance_1: "advance t 1 i = I_step t i"
  by (simp add: advance_def)

lemma rest_append: "rest_is t i (w @ s) \<Longrightarrow> rest_is t (advance t (length w) i) s"
  by (induction w arbitrary: i) (auto simp: advance_Suc dest: rest_Cons(3))

lemma rest_lookingAt: "rest_is t i (w @ s) \<Longrightarrow> lookingAt t i w"
  by (induction w arbitrary: i) (auto dest: rest_Cons)

lemma rest_slice: "rest_is t i (w @ s) \<Longrightarrow> slice t i (advance t (length w) i) = w"
  by (simp add: slice_def rest_is_def)

lemma peg_literal:
  "rest_is t i (w @ s) \<Longrightarrow>
     peg t (ParseLiteral w) i (Some ([leaf i (advance t (length w) i)], advance t (length w) i))"
  using Literal [of t w i] rest_lookingAt by simp

lemma peg_char:
  "rest_is t i (c # s) \<Longrightarrow> char_test p = Some f \<Longrightarrow> f c \<Longrightarrow>
     peg t p i (Some ([leaf i (I_step t i)], I_step t i))"
  using Char [of p f t i] rest_Cons(4) by simp

lemma peg_char_fails:
  "rest_is t i s \<Longrightarrow> char_test p = Some f \<Longrightarrow> (\<And>c u. s = c # u \<Longrightarrow> \<not> f c) \<Longrightarrow> peg t p i None"
  using Char [of p f t i] rest_Cons(4) rest_Nil(2) by (cases s) fastforce+

text \<open>The items of a run of characters.\<close>

definition char_leaves :: "string \<Rightarrow> I \<Rightarrow> nat \<Rightarrow> item list" where
  "char_leaves t i k = map (\<lambda>j. leaf (advance t j i) (advance t (Suc j) i)) [0 ..< k]"

lemma char_leaves_simps [simp]:
  "char_leaves t i 0 = []"
  "char_leaves t i (Suc k) = leaf i (I_step t i) # char_leaves t (I_step t i) k"
  by (simp_all add: char_leaves_def upt_rec [of 0 "Suc k"] map_Suc_upt [symmetric] advance_Suc o_def
      del: upt_Suc)

lemma found_in_leaves [simp]: "t' \<noteq> ItemTag \<Longrightarrow> found_in t' (char_leaves t i k) = []"
  by (induction k arbitrary: i) (simp_all add: isA_def, simp_all add: leaf_def)

lemma char_leaves_end: "k > 0 \<Longrightarrow> item_end (last (char_leaves t i k)) = advance t k i"
  by (simp add: char_leaves_def last_map)

lemma peg_star_chars:
  assumes "char_test p = Some f"
  shows "rest_is t i (w @ s) \<Longrightarrow> \<forall>c \<in> set w. f c \<Longrightarrow> (\<And>c u. s = c # u \<Longrightarrow> \<not> f c) \<Longrightarrow>
     peg t (ParseZeroOrMore p) i (Some (char_leaves t i (length w), advance t (length w) i))"
proof (induction w arbitrary: i)
  case Nil
  then show ?case using peg_char_fails [OF _ assms] by (auto intro: Star_end)
next
  case (Cons c w)
  then have "rest_is t i (c # w @ s)" by simp
  from peg_char [OF this assms] rest_Cons(3) [OF this] Cons show ?case
    using Star_more [of t p i "[leaf i (I_step t i)]" "I_step t i"] by (auto simp: advance_Suc)
qed

lemma peg_some_chars:
  assumes "char_test p = Some f" "and_terms p = [p]"
    and "rest_is t i (c # w @ s)" "\<forall>d \<in> set (c # w). f d" "\<And>d u. s = d # u \<Longrightarrow> \<not> f d"
  shows "peg t (atLeastOne p) i
    (Some (char_leaves t i (length (c # w)), advance t (length (c # w)) i))"
proof -
  note step = rest_Cons(3) [OF assms(3)]
  have "peg t p i (Some ([leaf i (I_step t i)], I_step t i))"
    using peg_char [OF assms(3,1)] assms(4) by simp
  moreover have "peg t (ParseZeroOrMore p) (I_step t i)
      (Some (char_leaves t (I_step t i) (length w), advance t (length w) (I_step t i)))"
    using peg_star_chars [OF assms(1) step] assms(4,5) by auto
  ultimately have "peg t (ParseAnd [p, ParseZeroOrMore p]) i
      (Some ([leaf i (I_step t i)] @ char_leaves t (I_step t i) (length w) @ [],
         advance t (length w) (I_step t i)))"
    by (rule And_Cons [OF _ And_Cons [OF _ And_Nil]])
  then show ?thesis unfolding atLeastOne_def parser_plus_def assms(2)
    by (intro Anon) (simp add: advance_Suc)
qed

section \<open>Offset pairs\<close>

text \<open>An item that holds the pair \<open>kv\<close>.\<close>

definition holds_text :: "string \<Rightarrow> item_type \<Rightarrow> item \<Rightarrow> string \<Rightarrow> bool" where
  "holds_text t tag x s \<longleftrightarrow> (\<exists>f. found_all tag x = [f] \<and> reconstruct t f = s)"

definition pair_item :: "string \<Rightarrow> item \<Rightarrow> nat \<times> nat \<Rightarrow> bool" where
  "pair_item t x kv \<longleftrightarrow> isA MapOffsetPair x \<and> found_all MapHcp x = [] \<and>
     holds_text t MapFromOffset x (decimal (fst kv)) \<and> holds_text t MapToOffset x (decimal (snd kv))"

definition pair_line :: "nat \<times> nat \<Rightarrow> string" where
  "pair_line kv = decimal (fst kv) @ '' '' @ decimal (snd kv) @ nl"

lemma digit_test:
  "char_test (ParseCharInRange CHR ''0'' CHR ''9'') =
     Some (\<lambda>c. signed_char CHR ''0'' \<le> signed_char c \<and> signed_char c \<le> signed_char CHR ''9'')"
  by simp

lemma isdigit_in_range:
  assumes "isdigit c"
  shows "signed_char CHR ''0'' \<le> signed_char c \<and> signed_char c \<le> signed_char CHR ''9''"
proof -
  have "(of_char c :: int) = int (of_char c)" by (simp add: of_char_def)
  then show ?thesis using assms by (simp only: isdigit_def signed_char_def Let_def) simp
qed

lemma peg_offset:
  assumes "rest_is t i (decimal k @ d # s)" "\<not> (signed_char CHR ''0'' \<le> signed_char d \<and> signed_char d \<le> signed_char CHR ''9'')"
  shows "peg t (NamedParser tag name parseOffset) i (Some
    ([composite tag (char_leaves t i (length (decimal k)))], advance t (length (decimal k)) i))"
    "reconstruct t (composite tag (char_leaves t i (length (decimal k)))) = decimal k"
proof -
  obtain c w where w: "decimal k = c # w" by (cases "decimal k") auto
  let ?f = "\<lambda>c. signed_char CHR ''0'' \<le> signed_char c \<and> signed_char c \<le> signed_char CHR ''9''"
  have "\<forall>d \<in> set (c # w). ?f d" using isdigit_in_range decimal_digits [of _ k] w by simp
  then have p: "peg t parseOffset i (Some (char_leaves t i (length (decimal k)), advance t (length (decimal k)) i))"
    unfolding parseOffset_def w
    by (intro peg_some_chars [OF digit_test]) (use assms w in auto)
  have ne: "char_leaves t i (length (decimal k)) \<noteq> []" by (simp add: w)
  then show "peg t (NamedParser tag name parseOffset) i (Some
    ([composite tag (char_leaves t i (length (decimal k)))], advance t (length (decimal k)) i))"
    using Named [OF p, of tag name] by simp
  have "item_begin (composite tag (char_leaves t i (length (decimal k)))) = i"
    "item_end (composite tag (char_leaves t i (length (decimal k)))) = advance t (length (decimal k)) i"
    using ne char_leaves_end [of "length (decimal k)" t i] by (simp_all add: w)
  then show "reconstruct t (composite tag (char_leaves t i (length (decimal k)))) = decimal k"
    using rest_slice [OF assms(1)] by (simp add: reconstruct_def)
qed

lemma and_terms_atLeastOne [simp]: "and_terms (atLeastOne p) = [atLeastOne p]"
  by (simp add: atLeastOne_def)

lemma peg_pair:
  assumes "rest_is t i (pair_line kv @ s)"
  shows "\<exists>x. peg t offset_pair i (Some ([x], advance t (length (pair_line kv)) i)) \<and> pair_item t x kv"
proof -
  obtain k v where kv: "kv = (k, v)" by (cases kv)
  let ?d = "decimal k" and ?e = "decimal v"
  let ?i1 = "advance t (length ?d) i"
  have r0: "rest_is t i (?d @ CHR '' '' # ?e @ CHR 0x0A # s)" using assms by (simp add: pair_line_def kv nl_def)
  have r1: "rest_is t ?i1 (CHR '' '' # ?e @ CHR 0x0A # s)" using rest_append [OF r0] .
  let ?i2 = "I_step t ?i1"
  have r2: "rest_is t ?i2 (?e @ CHR 0x0A # s)" using rest_Cons(3) [OF r1] .
  let ?i3 = "advance t (length ?e) ?i2"
  have r3: "rest_is t ?i3 ([CHR 0x0A] @ s)" using rest_append [OF r2] by simp
  let ?i4 = "advance t 1 ?i3"
  have no_digit: "\<not> (signed_char CHR ''0'' \<le> signed_char d \<and> signed_char d \<le> signed_char CHR ''9'')"
    if "d \<in> {CHR '' '', CHR 0x0A}" for d
    using that by (auto simp: signed_char_def)
  note from_offset = peg_offset [OF r0 no_digit] and to_offset = peg_offset [OF r2 no_digit]
  let ?f = "composite MapFromOffset (char_leaves t i (length ?d))"
  let ?g = "composite MapToOffset (char_leaves t ?i2 (length ?e))"
  obtain c w where e: "?e = c # w" by (cases ?e) auto
  then have "isdigit c" using decimal_digits [of c v] by simp
  then have "c \<notin> {CHR '' '', CHR 0x09, CHR 0x0A, CHR 0x0D}" by (auto simp: isdigit_def)
  then have ws: "peg t (atLeastOne whitespaceChar) ?i1 (Some ([leaf ?i1 ?i2], ?i2))"
    using peg_some_chars [of whitespaceChar "\<lambda>c. c \<in> set ('' '' @ [CHR 0x09, CHR 0x0A, CHR 0x0D])" t ?i1
        "CHR '' ''" "[]" "?e @ CHR 0x0A # s"] r1
    by (auto simp: whitespaceChar_def advance_Suc e)
  have "peg t (ParseAnd [NamedParser MapFromOffset ''from offset'' parseOffset, atLeastOne whitespaceChar,
      NamedParser MapToOffset ''to offset'' parseOffset, ParseLiteral nl]) i
      (Some ([?f] @ [leaf ?i1 ?i2] @ [?g] @ [leaf ?i3 ?i4] @ [], ?i4))"
    using And_Cons [OF from_offset(1) And_Cons [OF ws And_Cons [OF to_offset(1)
        And_Cons [OF peg_literal [OF r3] And_Nil]]]]
    by (simp add: nl_def)
  from Named [OF this, of MapOffsetPair "''offset pair''"]
  have "peg t offset_pair i (Some ([composite MapOffsetPair [?f, leaf ?i1 ?i2, ?g, leaf ?i3 ?i4]], ?i4))"
    by (simp add: offset_pair_def seq_def parser_plus_def)
  moreover have "?i4 = advance t (length (pair_line kv)) i"
  proof -
    have "length (pair_line kv) = length ?d + (1 + (length ?e + 1))" by (simp add: kv pair_line_def nl_def)
    then show ?thesis by (simp only: advance_add advance_1)
  qed
  moreover have "pair_item t (composite MapOffsetPair [?f, leaf ?i1 ?i2, ?g, leaf ?i3 ?i4]) kv"
    using from_offset(2) [of MapFromOffset] to_offset(2) [of MapToOffset]
    by (simp add: pair_item_def holds_text_def kv) (simp add: composite_def leaf_def isA_def)
  ultimately show ?thesis by metis
qed

section \<open>Map files\<close>

definition pair_lines :: "(nat \<times> nat) list \<Rightarrow> string" where
  "pair_lines m = concat (map pair_line m)"

lemma peg_pair_fails: "I_atEnd t i \<Longrightarrow> peg t offset_pair i None"
proof -
  assume "I_atEnd t i"
  then have "peg t (ParseCharInRange CHR ''0'' CHR ''9'') i None"
    using Char [OF digit_test, of t i] by (simp add: next_char_def)
  then have "peg t parseOffset i None"
    unfolding parseOffset_def atLeastOne_def parser_plus_def by (auto intro: Anon And_fail)
  from Named [OF this] have "peg t (NamedParser MapFromOffset ''from offset'' parseOffset) i None" by simp
  from Named [OF And_fail [OF this]] show ?thesis
    unfolding offset_pair_def seq_def by (simp add: parser_plus_def)
qed

lemma peg_pairs:
  "rest_is t i (pair_lines m) \<Longrightarrow>
     \<exists>xs e. peg t (ParseZeroOrMore offset_pair) i (Some (xs, e)) \<and> I_atEnd t e \<and> list_all2 (pair_item t) xs m"
proof (induction m arbitrary: i)
  case Nil
  then have "I_atEnd t i" by (simp add: pair_lines_def rest_Nil)
  then show ?case using Star_end [OF peg_pair_fails] by blast
next
  case (Cons kv m)
  then have r: "rest_is t i (pair_line kv @ pair_lines m)" by (simp add: pair_lines_def)
  from peg_pair [OF this] obtain x where
    x: "peg t offset_pair i (Some ([x], advance t (length (pair_line kv)) i))" "pair_item t x kv" by blast
  from Cons.IH [OF rest_append [OF r]] obtain xs e where
    xs: "peg t (ParseZeroOrMore offset_pair) (advance t (length (pair_line kv)) i) (Some (xs, e))"
      "I_atEnd t e" "list_all2 (pair_item t) xs m" by blast
  from Star_more [OF x(1) xs(1)] show ?case using x(2) xs(2,3)
    by (intro exI [of _ "x # xs"] exI [of _ e]) simp
qed

lemma peg_until_newline:
  "rest_is t i (w @ CHR 0x0A # s) \<Longrightarrow> CHR 0x0A \<notin> set w \<Longrightarrow>
     peg t (ParseUntil (ParseLiteral nl)) i (Some ([leaf i (advance t (length w) i)], advance t (length w) i))"
proof (induction w arbitrary: i)
  case Nil
  then have "rest_is t i (nl @ s)" by (simp add: nl_def)
  from Until_here [OF peg_literal [OF this]] show ?case by simp
next
  case (Cons c w)
  then have r: "rest_is t i (c # w @ CHR 0x0A # s)" by simp
  note step = rest_Cons [OF r]
  have "\<not> lookingAt t i nl" using step(2) Cons.prems(2) by (auto simp: nl_def)
  then have "peg t (ParseLiteral nl) i None" using Literal [of t nl i] by simp
  from Until_next [OF this step(1) Cons.IH [OF step(3)]] Cons.prems(2) show ?case by (simp add: advance_Suc)
qed

lemma writeOffsetMap_lines: "writeOffsetMap name m = name @ CHR 0x0A # pair_lines m"
  by (simp add: writeOffsetMap_def nl_def pair_lines_def pair_line_def [abs_def] case_prod_unfold)

lemma mapParser_ranked: "ranked any_rank mapParser"
  by code_simp

lemma map_file_parses:
  assumes "CHR 0x0A \<notin> set name" "t = writeOffsetMap name m"
  shows "\<exists>h l e xs. list_all2 (pair_item t) xs m \<and> reconstruct t h = name \<and> isA MapHcp h \<and>
    found_all MapOffsetPair h = [] \<and>
    (\<exists>n. \<forall>k \<ge> n. parseString k t mapParser = Ret (composite ItemTag (h # leaf l e # xs)))"
proof -
  let ?j = "advance t (length name) I_begin"
  let ?h = "composite MapHcp [leaf I_begin ?j]"
  have r0: "rest_is t I_begin (name @ CHR 0x0A # pair_lines m)"
    by (simp add: rest_is_def assms(2) writeOffsetMap_lines I_begin_def)
  have r1: "rest_is t ?j (nl @ pair_lines m)" using rest_append [OF r0] by (simp add: nl_def)
  from Named [OF peg_until_newline [OF r0 assms(1)], of MapHcp "''hcp file name''"]
  have h: "peg t (NamedParser MapHcp ''hcp file name'' (ParseUntil (ParseLiteral nl))) I_begin (Some ([?h], ?j))"
    by simp
  from peg_pairs [OF rest_append [OF r1]] obtain xs e where
    xs: "peg t (ParseZeroOrMore offset_pair) (advance t (length nl) ?j) (Some (xs, e))"
    and e: "I_atEnd t e" and pairs: "list_all2 (pair_item t) xs m" by blast
  have "peg t mapParser I_begin (Some (?h # leaf ?j (advance t (length nl) ?j) # xs, e))"
    using And_Cons [OF h And_Cons [OF peg_literal [OF r1] And_Cons [OF xs And_Nil]]]
    by (simp add: mapParser_def seq_def parser_plus_def)
  from ranked_parses_all [OF mapParser_ranked this e]
  have "\<exists>n. \<forall>k \<ge> n. parseString k t mapParser =
      Ret (composite ItemTag (?h # leaf ?j (advance t (length nl) ?j) # xs))"
    by simp
  moreover have "reconstruct t ?h = name" using rest_slice [OF r0] by (simp add: reconstruct_def)
  moreover have "found_all MapOffsetPair ?h = []" by (simp add: composite_def leaf_def isA_def)
  moreover have "isA MapHcp ?h" by (simp add: isA_def)
  ultimately show ?thesis using pairs by blast
qed

section \<open>Reading the pairs back\<close>

lemma findOnly_found: "found_all tag x = [f] \<Longrightarrow> findOnlyChildOfType tag x = Ret f"
  by (simp add: findOnlyChildOfType_def find_take oassert_def)

lemma to_offset_decimal:
  assumes "k < 2 ^ 32"
  shows "to_offset (decimal k) = Ret (of_nat k)" "uint (of_nat k :: 32 word) = int k"
proof -
  have "unat (of_nat k :: 32 word) = k" using assms by (simp add: unat_of_nat)
  then show "to_offset (decimal k) = Ret (of_nat k)" "uint (of_nat k :: 32 word) = int k"
    using stringToUInt_decimal [of "of_nat k"] by (simp_all add: to_offset_def uint_nat)
qed

definition off_entry :: "nat \<times> nat \<Rightarrow> int \<times> int" where
  "off_entry kv = (int (fst kv), int (snd kv))"

lemma source_insert_last: "\<forall>e \<in> set m. fst e < k \<Longrightarrow> source_insert k v m = m @ [(k, v)]"
proof -
  assume less: "\<forall>e \<in> set m. fst e < k"
  then have "insort_key fst (k, v) m = m @ [(k, v)]" by (induction m) auto
  with less show ?thesis by (auto simp: source_insert_def)
qed

lemma read_pairs_all:
  "list_all2 (pair_item t) xs m \<Longrightarrow> \<forall>kv \<in> set m. fst kv < 2 ^ 32 \<and> snd kv < 2 ^ 32 \<Longrightarrow>
     sorted_wrt (<) (map fst m) \<Longrightarrow> \<forall>e \<in> set acc. \<forall>kv \<in> set m. fst e < int (fst kv) \<Longrightarrow>
     read_pairs t xs acc = Ret (acc @ map off_entry m)"
proof (induction xs m arbitrary: acc rule: list_all2_induct)
  case (Cons x xs kv m)
  obtain f g where "found_all MapFromOffset x = [f]" "reconstruct t f = decimal (fst kv)"
    and "found_all MapToOffset x = [g]" "reconstruct t g = decimal (snd kv)"
    using Cons.hyps(1) by (auto simp: pair_item_def holds_text_def)
  moreover have "fst kv < 2 ^ 32" "snd kv < 2 ^ 32" using Cons.prems(1) by simp_all
  moreover have "source_insert (int (fst kv)) (int (snd kv)) acc = acc @ [off_entry kv]"
    using Cons.prems(3) by (simp add: source_insert_last off_entry_def)
  moreover have "read_pairs t xs (acc @ [off_entry kv]) = Ret ((acc @ [off_entry kv]) @ map off_entry m)"
    using Cons.prems by (intro Cons.IH) (auto simp: off_entry_def)
  ultimately show ?case by (simp add: findOnly_found to_offset_decimal)
qed simp

lemma source_offset_map:
  "source_offset ((-1, -1) # map off_entry m) c = Ret (int (map_offset m (unat c)))"
proof -
  obtain k where u: "uint c = int k" "unat c = k" by (simp add: uint_nat)
  let ?tw = "takeWhile (\<lambda>e. fst e \<le> k) m"
  have tw: "takeWhile (\<lambda>e. fst e \<le> int k) ((-1, -1) # map off_entry m) = (-1, -1) # map off_entry ?tw"
    by (simp add: takeWhile_map o_def off_entry_def)
  show ?thesis
  proof (cases "?tw = []")
    case True
    then show ?thesis unfolding source_offset_def Let_def u tw by (simp add: map_offset_def oassert_def)
  next
    case False
    then have le: "fst (last ?tw) \<le> k" using last_in_set [OF False] set_takeWhileD by fastforce
    have "last ((-1, -1) # map off_entry ?tw) = off_entry (last ?tw)" using False by (simp add: last_map)
    moreover have "map_offset m k = k - fst (last ?tw) + snd (last ?tw)"
      using False by (simp add: map_offset_def Let_def)
    ultimately show ?thesis unfolding source_offset_def Let_def u tw
      by (simp add: oassert_def off_entry_def of_nat_diff [OF le] del: last.simps)
  qed
qed

section \<open>The two programs together\<close>

lemma found_in_pairs:
  "list_all2 (pair_item t) xs m \<Longrightarrow> found_in MapHcp xs = [] \<and> found_in MapOffsetPair xs = xs"
  by (induction xs m rule: list_all2_induct) (auto simp: pair_item_def isA_def)

lemma map_small:
  assumes "sorted_wrt (<) (map fst m)" "\<forall>kv \<in> set m. fst kv < (2 :: nat) ^ 32"
  shows "length m \<le> 2 ^ 32"
proof -
  have "distinct (map fst m)" using assms(1) strict_sorted_iff by blast
  then have "length m = card (set (map fst m))" using distinct_card by fastforce
  also have "\<dots> \<le> card {..< (2 :: nat) ^ 32}" using assms(2) by (intro card_mono) auto
  finally show ?thesis by simp
qed

lemma map_round_trip:
  assumes "CHR 0x0A \<notin> set name" "sorted_wrt (<) (map fst m)"
    and "\<forall>kv \<in> set m. fst kv < 2 ^ 32 \<and> snd kv < 2 ^ 32"
  shows "\<exists>n. \<forall>k \<ge> n. \<forall>c. map_to_source k (writeOffsetMap name m) c = Ret (name, int (map_offset m (unat c)))"
proof -
  let ?t = "writeOffsetMap name m"
  from map_file_parses [OF assms(1) refl, of m] obtain h l e xs n where
    pairs: "list_all2 (pair_item ?t) xs m" and h: "reconstruct ?t h = name" "isA MapHcp h"
      "found_all MapOffsetPair h = []"
    and n: "\<forall>k \<ge> n. parseString k ?t mapParser = Ret (composite ItemTag (h # leaf l e # xs))" by blast
  let ?root = "composite ItemTag (h # leaf l e # xs)"
  note found = found_in_pairs [OF pairs]
  have leaf: "found_all tag (leaf l e) = []" "\<not> isA (OtherTag u) (leaf l e)" for tag u
    by (simp_all add: leaf_def isA_def)
  have "found_all MapHcp ?root = [h]" using h(2) found leaf by (simp add: composite_def)
  then have hcp: "findOnlyChildOfType MapHcp ?root = (Ret h :: (map_error, item) outcome)" by (rule findOnly_found)
  have "found_all MapOffsetPair ?root = xs"
    using h(2,3) found leaf by (simp add: composite_def isA_def)
  moreover have "length xs \<le> unat SIZE_MAX"
    using map_small [OF assms(2)] assms(3) list_all2_lengthD [OF pairs]
    by (simp add: SIZE_MAX_def unsigned_minus_1_eq_mask mask_eq_exp_minus_1)
  ultimately have "findAll MapOffsetPair ?root = xs" by (simp add: find_take SIZE_MAX_def)
  moreover have "read_pairs ?t xs [(-1, -1)] = Ret ([(-1, -1)] @ map off_entry m)"
    using assms(2,3) by (intro read_pairs_all [OF pairs]) auto
  ultimately have "map_to_source k ?t c = Ret (name, int (map_offset m (unat c)))" if "n \<le> k" for k c
    using n that hcp h(1) by (simp add: map_to_source_def source_offset_map)
  then show ?thesis by blast
qed

text \<open>The map file of a stream of \<^verbatim>\<open>hcp-split\<close>, read by \<^verbatim>\<open>hcp-map-to-source\<close>.\<close>

lemma split_map_file:
  assumes "split_source n txt guard inc hg cg = Ret (h, c)" "os = h \<or> os = c"
    and "CHR 0x0A \<notin> set name" "\<forall>kv \<in> set (os_map os). fst kv < 2 ^ 32 \<and> snd kv < 2 ^ 32"
  shows "\<exists>ss. os_text os = segments_text txt ss \<and> maps_exactly txt (os_map os) 0 ss"
    "\<exists>n. \<forall>k \<ge> n. \<forall>o'. map_to_source k (writeOffsetMap name (os_map os)) o' =
      Ret (name, int (map_offset (os_map os) (unat o')))"
proof -
  show "\<exists>ss. os_text os = segments_text txt ss \<and> maps_exactly txt (os_map os) 0 ss"
    using split_exact [OF assms(1)] assms(2) by blast
  have "sorted_wrt (<) (map fst (os_map os))"
    using split_streams_ok [OF assms(1)] assms(2) by (auto simp: stream_ok_def map_ok_def)
  then show "\<exists>n. \<forall>k \<ge> n. \<forall>o'. map_to_source k (writeOffsetMap name (os_map os)) o' =
      Ret (name, int (map_offset (os_map os) (unat o')))"
    by (rule map_round_trip [OF assms(3) _ assms(4)])
qed

end
