(* ===== verification/Spec2Isabelle.thy ===== *)
theory Spec2Isabelle
  imports Dialogue Progress Walk Dispatch Usm HcpMapRound
begin

text \<open>
  Two parts of this repository: the SNMP library, and the C++ parser on which the tools of \<^verbatim>\<open>src/hcp\<close>
  are built.

  \<^bold>\<open>The SNMP library\<close> (\<^verbatim>\<open>src/xju/snmp\<close>, with \<^verbatim>\<open>src/xju/countSignificantBits.cc\<close>,
  \<^verbatim>\<open>stringToUInt.cc\<close> and \<^verbatim>\<open>assert.hh\<close>): clients and servers of SNMPv1 and SNMPv2c, and the messages
  and user-based security model of SNMPv3.  \<^bold>\<open>The C++ parser\<close> (\<^verbatim>\<open>src/hcp/parser.cc\<close>, \<^verbatim>\<open>parser.hh\<close>, \<^verbatim>\<open>ast.hh\<close>,
  \<^verbatim>\<open>Chars.cc\<close>, with \<^verbatim>\<open>src/xju/parse.hh\<close> and \<^verbatim>\<open>format.cc\<close>): parser objects with a cache of their results, the
  grammar built from them, the tree of items a parse returns, the program \<^verbatim>\<open>hcp-split.cc\<close>, which writes a
  header and an implementation file from one source, and \<^verbatim>\<open>hcp-map-to-source.cc\<close>, which finds the source of an
  offset in one of them.

  \<^bold>\<open>How the parts interact.\<close>  A client fills a request struct, \<^verbatim>\<open>encode\<close> turns it into bytes; the server's
  decoder (\<^verbatim>\<open>decodeSnmpV1GetRequest\<close> and its like) rebuilds the struct, \<^verbatim>\<open>encodeResponse\<close> answers with
  results or with an error about one variable; the client's decoder reads the response and
  \<^verbatim>\<open>validateResponse\<close> checks that it answers the request.  The tables collect get-next rows.

  \<^bold>\<open>The theories.\<close>
  \<^item> \<open>Prelude\<close>: outcomes of calls (return, exception, abort, undefined behaviour, divergence), loops, words.
  \<^item> \<open>CountBits\<close>: \<^verbatim>\<open>countSignificantBits.cc\<close>.  \<open>Oid\<close>: \<^verbatim>\<open>Oid.hh\<close>, \<^verbatim>\<open>Oid.cc\<close>, \<^verbatim>\<open>stringToUInt.cc\<close>.
  \<^item> \<open>Buffer\<close>: writing through \<^verbatim>\<open>std::vector<uint8_t>::iterator\<close> and the interface \<open>encodable\<close> of
    \<^verbatim>\<open>Value::encodeTo\<close>; \<open>DecodeIterator\<close>: \<^verbatim>\<open>DecodeIterator.hh\<close> and the interface \<open>wire_format\<close> of a decoder.
  \<^item> \<open>BerLength\<close>, \<open>BerInt\<close>, \<open>BerOctets\<close>, \<open>BerOid\<close>: encoding and decoding of lengths, integers, octet strings
    and identifiers (one C++ file per function, named in each theory).
  \<^item> \<open>Value\<close>: \<^verbatim>\<open>Value.hh\<close>, its subclasses, \<^verbatim>\<open>SnmpVar.cc\<close>, \<^verbatim>\<open>decodeValue.cc\<close>; \<open>Accessors\<close>: \<^verbatim>\<open>Value.cc\<close> and the
    conversions; \<open>VarList\<close>: the loop over variables that every message decoder contains.
  \<^item> \<open>Messages\<close>: the message structs and \<^verbatim>\<open>encode.cc\<close>; \<open>DecodeMessages\<close>: \<^verbatim>\<open>decodeSnmpV*.cc\<close>, \<^verbatim>\<open>decodePDU.hcp\<close>;
    \<open>RoundTrip\<close>: encoding followed by decoding.
  \<^item> \<open>Validate\<close>: \<^verbatim>\<open>validateResponse.cc\<close>; \<open>Respond\<close>: \<^verbatim>\<open>encodeResponse.cc\<close>; \<open>Dialogue\<close>: both sides together;
    \<open>Tables\<close>: \<^verbatim>\<open>SnmpV1Table.cc\<close>, \<^verbatim>\<open>SnmpV2cTable.cc\<close>; \<open>Walk\<close>: the get-next client that fills them;
    \<open>Dispatch\<close>: how a server finds the decoder of a packet; \<open>Progress\<close>: the decoders end.
  \<^item> \<open>V3Messages\<close>: the structs, encoders and decoders of SNMPv3; \<open>Usm\<close>: authentication, privacy and the
    localisation of passwords.

  \<^item> \<open>HcpAst\<close>: positions in a text and items (\<^verbatim>\<open>parse.hh\<close>, \<^verbatim>\<open>ast.hh\<close>); \<open>HcpParser\<close>: the parser objects as
    data, with what they say they parse, and the operators that build them; \<open>HcpGrammar\<close>: the C++
    grammar, one definition per function of \<^verbatim>\<open>parser.cc\<close>; \<open>HcpEngine\<close>: \<^verbatim>\<open>parse_\<close> of every class, the cache of
    \<^verbatim>\<open>Parser::parse\<close>, and \<^verbatim>\<open>parse\<close>, \<^verbatim>\<open>parseString\<close>, \<^verbatim>\<open>getIrsAtEnd\<close>.
  \<^item> \<open>HcpCache\<close>: the cache and the fuel do not change results; \<open>HcpSpans\<close>: the items of a parse tile the text;
    \<open>HcpProgress\<close>: which parsers consume something; \<open>HcpTermination\<close>: the parsers of the grammar return;
    \<open>HcpResults\<close>: these for the static parsers as they are called.
  \<^item> \<open>HcpQuery\<close>: searching the tree (\<^verbatim>\<open>ast.hh\<close>, \<^verbatim>\<open>ast.cc\<close>, \<^verbatim>\<open>scopeAt.hcp\<close>); \<open>HcpSplit\<close>: \<^verbatim>\<open>hcp-split.cc\<close>;
    \<open>HcpOffsets\<close>: its offset maps are exact; \<open>HcpCoverage\<close>: what is kept of the source; \<open>HcpExact\<close>: exactness
    for every tree, and when copying fails.
  \<^item> \<open>HcpPeg\<close>: the parser objects as parsing expressions, an inductive specification that the engine implements;
    \<open>HcpStructure\<close>: what the grammar promises of the items of every tree, by induction over derivations;
    \<open>HcpMapFile\<close>: \<^verbatim>\<open>hcp-map-to-source.cc\<close>; \<open>HcpMapRound\<close>: it reads what \<^verbatim>\<open>hcp-split\<close> writes.

  \<^bold>\<open>Interfaces.\<close>  \<open>encodable\<close> is interpreted by values and variables, \<open>wire_format\<close> by lengths, headers,
  integers, strings, addresses, components, identifiers, values, variable bindings and variables; the
  round trips and the freedom from ambiguity of lists of items are proved once, in the locales.
  \<open>privacy\<close> is the contract of an encrypter and its decrypter, met by the classes without privacy and, for
  inverse ciphers, with AES and DES; \<open>table_walk\<close> is the contract of a table's cells and an agent's
  answers, met by both versions.  \<open>memo_table\<close> is the contract of a cache, met by the
  map of the code and by no cache at all.  \<open>node_contract\<close> is the contract between the named parsers of a
  grammar and the items they make, met by the shape of functions and static members and by the names of
  operators.

  \<^bold>\<open>Bounds.\<close>  The loops of the SNMP library are \<open>owhile\<close>, whose value is \<open>Diverge\<close> when they do not end; no fuel
  is used.  The parser spends fuel for each nested call and each turn of a loop; running out is \<open>Diverge\<close>,
  and \<open>cpp_parser_always_returns\<close> shows that for every text there is enough.  Round trips are
  stated for packets below \<open>2 ^ 31\<close> bytes, because offsets pass through an \<^verbatim>\<open>int\<close>; a datagram is shorter than
  \<open>2 ^ 16\<close> bytes.  \<^verbatim>\<open>size_t\<close> is 64 bits wide, \<^verbatim>\<open>int\<close> 32.

  \<^bold>\<open>Not modelled.\<close>  the ciphers and digests of libgcrypt, which are parameters; the texts of
  exceptions and \<^verbatim>\<open>operator<<\<close>; the ordering of values; \<^verbatim>\<open>encodeResponse.gen.hh\<close>, which the build generates;
  the tracing of the parser and the origin (file and line) of its exceptions; the other programs
  on top of the parser; sockets, files and the other libraries of the repository.
\<close>

section \<open>Concrete messages\<close>

text \<open>One variable, .1.3.6.1, and messages about it, for the witnesses.\<close>

definition sample_oid :: oid where
  "sample_oid = Oid [1, 3, 6, 1]"

definition get_bytes :: bytes where
  "get_bytes = [48, 28, 2, 1, 0, 4, 1, 112, 160, 20, 2, 1, 5, 2, 1, 0, 2, 1, 0, 48, 9, 48, 7, 6, 3, 43, 6, 1, 5, 0]"

definition get_answer_bytes :: bytes where
  "get_answer_bytes =
     [48, 29, 2, 1, 0, 4, 1, 112, 162, 21, 2, 1, 5, 2, 1, 0, 2, 1, 0, 48, 10, 48, 8, 6, 3, 43, 6, 1, 2, 1, 7]"

definition sample_message :: "u64 \<Rightarrow> byte \<Rightarrow> u64 \<Rightarrow> u64 \<Rightarrow> (oid \<times> snmp_value) list \<Rightarrow> bytes" where
  "sample_message version t a b vars =
     ber_message version [0x70] t (ber_pdu_content 5 a b (concat (map ber_varbind vars)))"

definition sample_values :: "(oid, snmp_value) fmap" where
  "sample_values = fmap_of_list [(sample_oid, IntValue 7)]"

lemma sorted_single [simp]: "sorted_list_of_fset {|x|} = [x]"
  by (simp add: sorted_list_of_fset.rep_eq)

lemma sorted_list_of_fset_id [simp]: "fset_of_list (sorted_list_of_fset xs) = xs"
  by (simp add: fset_eq_iff fset_of_list_elem sorted_list_of_fset.rep_eq)

lemma sample_oid_encodable [simp]: "encodable_oid sample_oid"
  by (simp add: sample_oid_def encodable_oid_def)

lemma sample_values_simps [simp]:
  "fmlookup sample_values sample_oid = Some (IntValue 7)" "fmdom sample_values = {|sample_oid|}"
  "sorted_list_of_fmap sample_values = [(sample_oid, IntValue 7)]"
  "fmpred (\<lambda>x v. decodable_varbind (x, v)) sample_values"
  by (auto simp: sample_values_def sorted_list_of_fmap_def fmpred_iff fmlookup_of_list decodable_varbind_def
      split: if_splits)

lemma sample_bytes:
  "sample_message 0 0xA0 0 0 [(sample_oid, NullValue)] = get_bytes"
  "sample_message 0 0xA2 0 0 [(sample_oid, IntValue 7)] = get_answer_bytes"
  unfolding get_bytes_def get_answer_bytes_def by code_simp+

lemma encodedLengthOfLength_le: "encodedLengthOfLength v \<le> 9"
  using octets_le_8 [of v] by (simp add: encodedLengthOfLength_def octets_def)

lemma length_ber_octets_le: "length (ber_octets t xs) \<le> 10 + length xs"
  using encodedLengthOfLength_le [of "of_nat (length xs)"]
  by (simp add: length_ber_octets encodedLengthOfOctets_def)

lemma length_ber_int_le: "length (ber_int t v) \<le> 20"
  using intDataLength_8 [of v] encodedLengthOfLength_le [of "of_nat (intDataLength v)"]
  by (simp add: length_ber_int encodedLengthOfInt_def Let_def)

lemma sample_message_small:
  "length (concat (map ber_varbind vars)) < 100 \<Longrightarrow> length (sample_message version t a b vars) < 2 ^ 31"
  using length_ber_octets_le [of "0x30" "concat (map ber_varbind vars)"]
    length_ber_octets_le [of t "ber_pdu_content 5 a b (concat (map ber_varbind vars))"]
    length_ber_octets_le [of 4 "[0x70]"] length_ber_int_le [of 2 version] length_ber_int_le [of 2 5]
    length_ber_int_le [of 2 a] length_ber_int_le [of 2 b]
    length_ber_octets_le [of "0x30" "ber_int 2 version @ ber_octets 4 [0x70] @
      ber_octets t (ber_pdu_content 5 a b (concat (map ber_varbind vars)))"]
  unfolding sample_message_def ber_message_def ber_pdu_content_def by simp

lemma sample_varbinds:
  "ber_varbind (sample_oid, NullValue) = [48, 7, 6, 3, 43, 6, 1, 5, 0]"
  "ber_varbind (sample_oid, IntValue 7) = [48, 8, 6, 3, 43, 6, 1, 2, 1, 7]"
  by code_simp+

lemma sample_small:
  "length (sample_message version t a b [(sample_oid, NullValue)]) < 2 ^ 31"
  "length (sample_message version t a b [(sample_oid, IntValue 7)]) < 2 ^ 31"
  by (rule sample_message_small; simp add: sample_varbinds)+

lemma get_bytes_small: "length get_bytes < 2 ^ 31" "length get_answer_bytes < 2 ^ 31"
  by (simp_all add: get_bytes_def get_answer_bytes_def)

lemma sample_oids_encoded:
  "encode_value (request_sequence version [0x70] 5 a b (map oid_param [sample_oid]) t) =
    Ret (sample_message version t a b [(sample_oid, NullValue)])"
  unfolding encode_oids by (simp add: sample_message_def null_vars_def)

lemma sample_values_encoded:
  "encode_value (request_sequence version [0x70] 5 a b (map value_param [(sample_oid, IntValue 7)]) t) =
    Ret (sample_message version t a b [(sample_oid, IntValue 7)])"
  unfolding encode_values by (simp add: sample_message_def)

lemma sample_answer_encoded:
  "list_all (\<lambda>(x, v). encodable_oid x \<and> well_formed v) vars \<Longrightarrow>
    encodeSnmpV1Message [0x70] 5 error ei vars 0xA2 = Ret (sample_message 0 0xA2 error ei vars)"
  unfolding encodeSnmpV1Message_eq by (simp add: sample_message_def)

lemma sample_pdu_encoded:
  "list_all (\<lambda>(x, v). encodable_oid x \<and> well_formed v) vars \<Longrightarrow>
    encodePDU [0x70] 5 error ei (map (\<lambda>v. SnmpVar (fst v) (snd v)) vars) 0xA2
      = Ret (sample_message 1 0xA2 error ei vars)"
  unfolding encodePDU_eq
  by (simp add: sample_message_def ber_varbind_SnmpVar comp_def list_all_iff case_prod_unfold del: ber_var.simps)

section \<open>Properties\<close>

text \<open>C1: A whole SNMPv1 get: the server decodes from the client's request exactly that request with its
  identifiers in order; and when the server answers with its results, the client's decoder and
  validateResponse return the results for the identifiers it asked for.\<close>

theorem v1_get_exchange:
  assumes "encode_SnmpV1GetRequest (SnmpV1GetRequest community rid oids) = Ret request" and "length request < 2 ^ 31"
    and "encodeResponse_V1Get (SnmpV1GetRequest community rid oids) (sorted_list_of_fset oids) results = Ret response"
    and "length response < 2 ^ 31" and "fmpred (\<lambda>x v. decodable_varbind (x, v)) results"
  shows "decodeSnmpV1GetRequest request = Ret (SnmpV1GetRequest community rid oids, sorted_list_of_fset oids) \<and>
    receives (decodeSnmpV1Response response) (validate_SnmpV1GetRequest (SnmpV1GetRequest community rid oids))
      (Ret (fmrestrict_fset oids results))"
  using SnmpV1GetRequest_decodes [OF assms(1,2)] V1Get_answered [OF assms(3,4) _ assms(5)] by simp

theorem v1_get_exchange_witness:
  "decodeSnmpV1GetRequest get_bytes = Ret (SnmpV1GetRequest [0x70] 5 {|sample_oid|}, [sample_oid]) \<and>
   receives (decodeSnmpV1Response get_answer_bytes)
      (validate_SnmpV1GetRequest (SnmpV1GetRequest [0x70] 5 {|sample_oid|}))
      (Ret (fmrestrict_fset {|sample_oid|} sample_values))"
proof -
  have request: "encode_SnmpV1GetRequest (SnmpV1GetRequest [0x70] 5 {|sample_oid|}) = Ret get_bytes"
    using sample_oids_encoded [of 0 0 0 "0xA0"] by (simp add: sample_bytes)
  have "encodeResponse_V1Get (SnmpV1GetRequest [0x70] 5 {|sample_oid|}) [sample_oid] sample_values
      = Ret get_answer_bytes"
    using sample_answer_encoded [of "[(sample_oid, IntValue 7)]" 0 0] by (simp add: sample_bytes find_second_def)
  then show ?thesis
    using v1_get_exchange [OF request get_bytes_small(1) _ get_bytes_small(2) sample_values_simps(4)] by simp
qed

definition v1_set_errors ::
    "((SnmpV1SetRequest \<Rightarrow> oid list \<Rightarrow> oid \<Rightarrow> (snmp_error, bytes) outcome) \<times> (oid \<Rightarrow> validate_error)) list" where
  "v1_set_errors =
     [(encodeResponse_V1Set_NoSuchName, NoSuchName), (encodeResponse_V1Set_BadValue, BadValue),
      (encodeResponse_V1Set_ReadOnly, ReadOnly), (encodeResponse_V1Set_GenErr, GenErr)]"

text \<open>C2: A failed SNMPv1 set: the server decodes the client's request, and each of the four errors about a
  variable that the server can answer with (NoSuchName, BadValue, ReadOnly, GenErr) is thrown by the client's
  validateResponse about the very same variable.\<close>

theorem v1_set_error_exchange:
  assumes "encode_SnmpV1SetRequest (SnmpV1SetRequest community rid values) = Ret request" and "length request < 2 ^ 31"
    and "fmpred (\<lambda>x v. decodable_varbind (x, v)) values"
    and "(encodeError, error) \<in> set v1_set_errors"
    and "encodeError (SnmpV1SetRequest community rid values) (sorted_list_of_fset (fmdom values)) subject = Ret response"
    and "length response < 2 ^ 31"
  shows "decodeSnmpV1SetRequest request = Ret (SnmpV1SetRequest community rid values, sorted_list_of_fset (fmdom values)) \<and>
    receives (decodeSnmpV1Response response) (validate_SnmpV1SetRequest (SnmpV1SetRequest community rid values))
      (Throw (error subject))"
proof -
  have "list_all decodable_varbind (sorted_list_of_fmap values)"
    using assms(3) by (auto simp: list_all_iff sorted_list_of_fmap_def fmpred_iff fmlookup_dom_iff)
  from SnmpV1SetRequest_decodes [OF assms(1,2) this]
    V1Set_errors_answered [OF assms(6) sorted_list_of_fset_id assms(3) refl, where 'e = snmp_error] assms(4,5)
  show ?thesis by (auto simp: v1_set_errors_def)
qed

theorem v1_set_error_exchange_witness:
  "receives (decodeSnmpV1Response (sample_message 0 0xA2 3 1 [(sample_oid, IntValue 7)]))
      (validate_SnmpV1SetRequest (SnmpV1SetRequest [0x70] 5 sample_values)) (Throw (BadValue sample_oid))"
proof -
  have request: "encode_SnmpV1SetRequest (SnmpV1SetRequest [0x70] 5 sample_values)
      = Ret (sample_message 0 0xA3 0 0 [(sample_oid, IntValue 7)])"
    using sample_values_encoded [of 0 0 0 "0xA3"] by simp
  have response: "encodeResponse_V1Set_BadValue (SnmpV1SetRequest [0x70] 5 sample_values)
      (sorted_list_of_fset (fmdom sample_values)) sample_oid
      = Ret (sample_message 0 0xA2 3 1 [(sample_oid, IntValue 7)])"
    using sample_answer_encoded [of "[(sample_oid, IntValue 7)]" 3 1]
    by (simp add: request_vars_eq entries_def errorIndexOf_eq)
  have "(encodeResponse_V1Set_BadValue, BadValue) \<in> set v1_set_errors" by (simp add: v1_set_errors_def)
  from v1_set_error_exchange [OF request sample_small(2) sample_values_simps(4) this response sample_small(2)]
  show ?thesis by simp
qed

text \<open>C3: A whole SNMPv2c get, where the server's results may be the exceptions noSuchObject and noSuchInstance as
  well as values: the client gets exactly the results for the identifiers it asked for.\<close>

theorem v2c_get_exchange:
  assumes "encode_SnmpV2cGetRequest (SnmpV2cGetRequest community rid oids) = Ret request" and "length request < 2 ^ 31"
    and "encodeResponse_V2cGet (SnmpV2cGetRequest community rid oids) (sorted_list_of_fset oids) results = Ret response"
    and "length response < 2 ^ 31"
    and "fmpred (\<lambda>x v. decodable_var v \<and> var_oid v = x \<and> (\<forall>y. v \<noteq> SnmpVarEndOfMibView y)) results"
  shows "decodeSnmpV2cGetRequest request = Ret (SnmpV2cGetRequest community rid oids, sorted_list_of_fset oids) \<and>
    receives (decodeSnmpV2cResponse response) (validate_SnmpV2cGetRequest (SnmpV2cGetRequest community rid oids))
      (Ret (fmrestrict_fset oids results))"
  using SnmpV2cGetRequest_decodes [OF assms(1,2)] V2cGet_answered [OF assms(3,4) _ _ assms(5)] by simp

theorem v2c_get_exchange_witness:
  "receives (decodeSnmpV2cResponse (sample_message 1 0xA2 0 0 [(sample_oid, IntValue 7)]))
      (validate_SnmpV2cGetRequest (SnmpV2cGetRequest [0x70] 5 {|sample_oid|}))
      (Ret (fmrestrict_fset {|sample_oid|} (fmap_of_list [(sample_oid, SnmpVar sample_oid (IntValue 7))])))"
proof -
  have request: "encode_SnmpV2cGetRequest (SnmpV2cGetRequest [0x70] 5 {|sample_oid|})
      = Ret (sample_message 1 0xA0 0 0 [(sample_oid, NullValue)])"
    using sample_oids_encoded [of 1 0 0 "0xA0"] by simp
  let ?results = "fmap_of_list [(sample_oid, SnmpVar sample_oid (IntValue 7))]"
  have response: "encodeResponse_V2cGet (SnmpV2cGetRequest [0x70] 5 {|sample_oid|})
      (sorted_list_of_fset {|sample_oid|}) ?results = Ret (sample_message 1 0xA2 0 0 [(sample_oid, IntValue 7)])"
    using sample_pdu_encoded [of "[(sample_oid, IntValue 7)]" 0 0] by (simp add: find_second_def)
  have "fmpred (\<lambda>x v. decodable_var v \<and> var_oid v = x \<and> (\<forall>y. v \<noteq> SnmpVarEndOfMibView y)) ?results"
    by (auto simp: fmpred_iff fmlookup_of_list split: if_splits)
  from v2c_get_exchange [OF request sample_small(1) response sample_small(2) this] show ?thesis by simp
qed


text \<open>C4: A whole SNMPv2c set: the server decodes the request's map of values with its identifiers in order, and
  its answer without an error passes the client's validateResponse.\<close>

theorem v2c_set_exchange:
  assumes "encode_SnmpV2cSetRequest (SnmpV2cSetRequest community rid values) = Ret request" and "length request < 2 ^ 31"
    and "fmpred (\<lambda>x v. decodable_varbind (x, v)) values"
    and "encodeResponse_V2cSet (SnmpV2cSetRequest community rid values) (sorted_list_of_fset (fmdom values)) = Ret response"
    and "length response < 2 ^ 31"
  shows "decodeSnmpV2cSetRequest request = Ret (SnmpV2cSetRequest community rid values, sorted_list_of_fset (fmdom values)) \<and>
    receives (decodeSnmpV2cResponse response) (validate_SnmpV2cSetRequest (SnmpV2cSetRequest community rid values))
      (Ret ())"
proof -
  have "list_all decodable_varbind (sorted_list_of_fmap values)"
    using assms(3) by (auto simp: list_all_iff sorted_list_of_fmap_def fmpred_iff fmlookup_dom_iff)
  from SnmpV2cSetRequest_decodes [OF assms(1,2) this] V2cSet_answered [OF assms(4,5) _ assms(3)]
  show ?thesis by simp
qed

theorem v2c_set_exchange_witness:
  "decodeSnmpV2cSetRequest (sample_message 1 0xA3 0 0 [(sample_oid, IntValue 7)])
      = Ret (SnmpV2cSetRequest [0x70] 5 sample_values, [sample_oid]) \<and>
   receives (decodeSnmpV2cResponse (sample_message 1 0xA2 0 0 [(sample_oid, IntValue 7)]))
      (validate_SnmpV2cSetRequest (SnmpV2cSetRequest [0x70] 5 sample_values)) (Ret ())"
proof -
  have request: "encode_SnmpV2cSetRequest (SnmpV2cSetRequest [0x70] 5 sample_values)
      = Ret (sample_message 1 0xA3 0 0 [(sample_oid, IntValue 7)])"
    using sample_values_encoded [of 1 0 0 "0xA3"] by simp
  have response: "encodeResponse_V2cSet (SnmpV2cSetRequest [0x70] 5 sample_values)
      (sorted_list_of_fset (fmdom sample_values)) = Ret (sample_message 1 0xA2 0 0 [(sample_oid, IntValue 7)])"
    using sample_pdu_encoded [of "[(sample_oid, IntValue 7)]" 0 0] by (simp add: find_second_def)
  from v2c_set_exchange [OF request sample_small(2) sample_values_simps(4) response sample_small(2)]
  show ?thesis by simp
qed

text \<open>C5: A whole SNMPv2c get-next: the request arrives with its identifiers in order, and as many results as
  identifiers reach the client unchanged, endOfMibView markers included.\<close>

theorem v2c_get_next_exchange:
  assumes "encode_SnmpV2cGetNextRequest (SnmpV2cGetNextRequest community rid oids) = Ret request"
    and "length request < 2 ^ 31"
    and "encodeResponse_V2cGetNext (SnmpV2cGetNextRequest community rid oids) results = Ret response"
    and "length response < 2 ^ 31" and "list_all decodable_var results" and "length results = length oids"
  shows "decodeSnmpV2cGetNextRequest request = Ret (SnmpV2cGetNextRequest community rid oids) \<and>
    receives (decodeSnmpV2cResponse response) (validate_SnmpV2cGetNextRequest (SnmpV2cGetNextRequest community rid oids))
      (Ret results)"
  using SnmpV2cGetNextRequest_decodes [OF assms(1,2)] V2cGetNext_answered [OF assms(3-6)] by simp

theorem v2c_get_next_exchange_witness:
  "receives (decodeSnmpV2cResponse (sample_message 1 0xA2 0 0 [(sample_oid, IntValue 7)]))
      (validate_SnmpV2cGetNextRequest (SnmpV2cGetNextRequest [0x70] 5 [sample_oid]))
      (Ret [SnmpVar sample_oid (IntValue 7)])"
proof -
  have request: "encode_SnmpV2cGetNextRequest (SnmpV2cGetNextRequest [0x70] 5 [sample_oid])
      = Ret (sample_message 1 0xA1 0 0 [(sample_oid, NullValue)])"
    using sample_oids_encoded [of 1 0 0 "0xA1"] by simp
  have response: "encodeResponse_V2cGetNext (SnmpV2cGetNextRequest [0x70] 5 [sample_oid])
      [SnmpVar sample_oid (IntValue 7)] = Ret (sample_message 1 0xA2 0 0 [(sample_oid, IntValue 7)])"
    using sample_pdu_encoded [of "[(sample_oid, IntValue 7)]" 0 0] by simp
  from v2c_get_next_exchange [OF request sample_small(1) response sample_small(2)] show ?thesis by simp
qed

text \<open>A failed SNMPv1 get-next: the identifier the server reports a general error for is the one validateResponse
  throws GenErr about, for requests that repeat an identifier too.\<close>

theorem v1_get_next_error_exchange:
  assumes "encode_SnmpV1GetNextRequest (SnmpV1GetNextRequest community rid oids) = Ret request"
    and "length request < 2 ^ 31"
    and "encodeResponse_V1GetNext_GenErr (SnmpV1GetNextRequest community rid oids) subject = Ret response"
    and "length response < 2 ^ 31"
  shows "decodeSnmpV1GetNextRequest request = Ret (SnmpV1GetNextRequest community rid oids) \<and>
    receives (decodeSnmpV1Response response) (validate_SnmpV1GetNextRequest (SnmpV1GetNextRequest community rid oids))
      (Throw (GenErr subject))"
  using SnmpV1GetNextRequest_decodes [OF assms(1,2)] V1GetNext_GenErr_answered [OF assms(3,4)] by simp

theorem v1_get_next_error_exchange_witness:
  "receives (decodeSnmpV1Response (sample_message 0 0xA2 5 1 [(sample_oid, NullValue)]))
      (validate_SnmpV1GetNextRequest (SnmpV1GetNextRequest [0x70] 5 [sample_oid])) (Throw (GenErr sample_oid))"
proof -
  have request: "encode_SnmpV1GetNextRequest (SnmpV1GetNextRequest [0x70] 5 [sample_oid])
      = Ret (sample_message 0 0xA1 0 0 [(sample_oid, NullValue)])"
    using sample_oids_encoded [of 0 0 0 "0xA1"] by simp
  have response: "encodeResponse_V1GetNext_GenErr (SnmpV1GetNextRequest [0x70] 5 [sample_oid]) sample_oid
      = Ret (sample_message 0 0xA2 5 1 [(sample_oid, NullValue)])"
    using sample_answer_encoded [of "[(sample_oid, NullValue)]" 5 1] by (simp add: errorIndexOf_eq)
  from v1_get_next_error_exchange [OF request sample_small(1) response sample_small(1)] show ?thesis by simp
qed

text \<open>C6: Every value that is not a sequence, written by encodeTo into a buffer of encodedLength() bytes, is read
  back by decodeValue, which stops exactly behind it (TimeTicks in whole hundredths of a second, as the wire
  format holds no more).\<close>

theorem value_decodes:
  assumes "to_vector (encodedLength v) (encodeTo v) = Ret d" and "decodable v" and "length d < 2 ^ 31"
  shows "decodeValue (start_of d) = Ret (v, It d (length d))"
proof -
  have "d = ber v"
    using assms(1) by (simp add: value_encoding.to_vector_encodes split: if_splits)
  with value_format.decodes_whole [OF assms(2)] assms(3) show ?thesis by simp
qed

theorem value_decodes_witness:
  "decodeValue (start_of [2, 1, 7]) = Ret (IntValue 7, It [2, 1, 7] 3)"
proof -
  have "ber (IntValue 7) = [2, 1, 7]" by code_simp
  then have "to_vector (encodedLength (IntValue 7)) (encodeTo (IntValue 7)) = Ret [2, 1, 7]"
    using value_encoding.to_vector_encodes [of "IntValue 7"] by simp
  from value_decodes [OF this] show ?thesis by simp
qed



text \<open>encodeTo writes exactly the encodedLength() bytes of the value's encoding into the vector made for it, at
  every nesting of sequences: no write leaves the vector and the assertion on the end iterator holds.
  Encoding aborts only for an identifier outside .1.3.\<close>

theorem encoding_announced:
  "to_vector (encodedLength v) (encodeTo v) = (if well_formed v then Ret (ber v) else Abort)"
  by (rule value_encoding.to_vector_encodes)


text \<open>C8: Every parser of the C++ grammar returns on every text, whatever it contains, with an item list or with a
  failure, and no amount of fuel changes the result: no loop or recursion of the combinators and of the
  grammar runs for ever, no assertion (of Optional, of the item constructors) fails and no exception leaves a
  parse function that is declared throw().\<close>

theorem cpp_parser_always_returns:
  "\<exists>n r c. \<forall>m. parser_parse irsAtEnd txt (n + m) (Static k) I_begin Map.empty = Ret (r, c)"
  by (rule static_returns_at [OF at_pos_begin, of irsAtEnd "txt" k]) blast

text \<open>C9: Parsing loses nothing of the text: the tree that parseString returns begins at the start of the text and
  ends at its end, in every composite item each child begins where its left neighbour ends, and reconstructing
  the root, or the sequence of its children, gives back the text character by character.\<close>

theorem parse_tree_is_lossless:
  assumes "parseString n txt (Static k) = Ret root"
  shows "tree_ok root \<and> reconstruct txt root = txt \<and>
    (items root \<noteq> [] \<longrightarrow> reconstruct_IRs txt (items root) = txt)"
proof -
  have root: "tree_ok root" "item_begin root = I_begin" "i_x (item_end root) = length txt"
    using parseString_covers [OF assms] by auto
  then show ?thesis
    using tree_ok_children [OF root(1)] reconstruct_whole [OF root(2,3)]
    by (auto simp: reconstruct_def dest!: tiles_reconstruct [where t = "txt"])
qed

theorem parse_tree_is_lossless_witness:
  "\<exists>root. parseString 12 (''//a'' @ [CHR 0x0A]) lineComment = Ret root \<and> tree_ok root"
proof -
  have "returned (parseString 12 (''//a'' @ [CHR 0x0A]) lineComment)" by code_simp
  then show ?thesis by (rule returnedE) (auto dest: parse_tree_is_lossless)
qed


text \<open>C11: The parser implements its grammar: peg is a specification of the parser objects as parsing expressions,
  without exceptions, cache, loops or fuel, and for every parser of the C++ grammar and every text the result
  of the code, a failure or the items and the end of the parse, is the one that the specification derives.\<close>

theorem parser_is_its_grammar:
  "(\<exists>n r c. parser_parse irsAtEnd txt n (Static k) I_begin Map.empty = Ret (r, c) \<and> peg_of r = q) \<longleftrightarrow>
   peg txt (Static k) I_begin q"
  using parser_derives [OF _ at_pos_begin] parser_complete [OF _ at_pos_begin] by blast

text \<open>C12: Every tree that a parser of the C++ grammar returns is well made, in all of its items: an item without
  children is a plain item, in a function definition the name comes before the body, and the definition of a
  static member begins with an item that contains no initialiser. The programs that take these items apart
  rely on it.\<close>

theorem trees_are_well_made:
  assumes "parseString n txt (Static k) = Ret root"
  shows "all_nodes node_made root"
  by (rule parse_made(2) [OF assms])

theorem trees_are_well_made_witness:
  "\<exists>root. parseString 12 (''//b'' @ [CHR 0x0A]) lineComment = Ret root \<and> all_nodes node_made root"
proof -
  have "returned (parseString 12 (''//b'' @ [CHR 0x0A]) lineComment)" by code_simp
  then show ?thesis by (rule returnedE) (auto dest: trees_are_well_made)
qed

text \<open>C13: Some operators are never read as such: the alternatives of operator_name are tried in order and the
  first that the text starts with is taken, so that in no tree is the text of an operator's name >>=, ^=, *=,
  ~= or /=, all of which are among the alternatives; the name read is one of the others.\<close>

theorem operators_never_read:
  assumes "parseString n txt (Static k) = Ret root"
  shows "set shadowed_symbols \<subseteq> set operator_symbols \<and>
    all_nodes (\<lambda>x. isA OperatorName x \<longrightarrow>
      reconstruct txt x \<in> set operator_symbols - set shadowed_symbols) root"
  using operators_in_tree [OF assms] by (simp add: shadowed_symbols_def operator_symbols_def)

theorem operators_never_read_witness:
  "\<exists>root. parseString 40 ''operator>>'' operator_name = Ret root \<and>
     all_nodes (\<lambda>x. isA OperatorName x \<longrightarrow>
       reconstruct ''operator>>'' x \<in> set operator_symbols - set shadowed_symbols) root"
proof -
  have "returned (parseString 40 ''operator>>'' operator_name)" by code_simp
  then show ?thesis by (rule returnedE) (auto dest: operators_never_read)
qed

text \<open>C14: A failure is reported at a position of the text that is not before the start of the parse, with the
  line and column that counting from the start of the text gives; it is marked as caused by the end of the
  input only when it is there.\<close>

theorem failure_is_located:
  assumes "parser_parse irsAtEnd txt n (Static k) i Map.empty = Ret (Failed x, c)"
    and "i = position txt j" and "j \<le> length txt"
  shows "ex_at x = position txt (i_x (ex_at x)) \<and> j \<le> i_x (ex_at x) \<and> i_x (ex_at x) \<le> length txt \<and>
    (ex_atEnd x \<longrightarrow> i_x (ex_at x) = length txt)"
  using static_facts(1) [OF assms(1)] assms(2,3)
  by (simp add: spans_Failed at_pos_def I_atEnd_def)

theorem failure_is_located_witness:
  "\<exists>x c. parser_parse False ''/*a'' 12 blockComment I_begin Map.empty = Ret (Failed x, c) \<and>
     i_x (ex_at x) \<le> 3"
proof -
  have "fails (parser_parse False ''/*a'' 12 blockComment I_begin Map.empty)" by code_simp
  then show ?thesis
    by (rule failsE) (use failure_is_located [of False "''/*a''" 12 S_blockComment I_begin _ _ 0] in auto)
qed

section \<open>Splitting a file into a header and an implementation\<close>








text \<open>C17: The map file of hcp-split is understood by hcp-map-to-source: with enough fuel for its parser, what
  writeOffsetMap writes for a map is parsed and read back, and for every offset the reported source file and
  offset are those of the map, also before its first entry.\<close>

theorem map_file_round_trip:
  assumes "CHR 0x0A \<notin> set name" "sorted_wrt (<) (map fst m)"
    and "\<forall>kv \<in> set m. fst kv < 2 ^ 32 \<and> snd kv < 2 ^ 32"
  shows "\<exists>n. \<forall>k \<ge> n. \<forall>c. map_to_source k (writeOffsetMap name m) c = Ret (name, int (map_offset m (unat c)))"
  by (rule map_round_trip [OF assms])

theorem map_file_round_trip_witness:
  "\<exists>n. map_to_source n (writeOffsetMap ''/a.hcp'' [(9, 0), (30, 45)]) 31 = Ret (''/a.hcp'', 46)"
proof -
  have "CHR 0x0A \<notin> set ''/a.hcp''" by simp
  from map_file_round_trip [OF this, of "[(9, 0), (30, 45)]"] obtain n where
    n: "\<forall>k \<ge> n. \<forall>c. map_to_source k (writeOffsetMap ''/a.hcp'' [(9, 0), (30, 45)]) c =
      Ret (''/a.hcp'', int (map_offset [(9, 0), (30, 45)] (unat c)))"
    by auto
  have "map_to_source n (writeOffsetMap ''/a.hcp'' [(9, 0), (30, 45)]) 31 =
      Ret (''/a.hcp'', int (map_offset [(9, 0), (30, 45)] (unat (31 :: 32 word))))"
    using n by blast
  then show ?thesis by (auto simp: map_offset_def)
qed








text \<open>C20: A global variable definition without an initialiser, or with more than one, makes hcp-split abort:
  genGlobalVar takes for granted that there is exactly one.\<close>

theorem global_without_initialiser_aborts:
  assumes "isA GlobalVarDef x" "length (found_all VarInitialiser x) \<noteq> 1"
  shows "genNamespaceContent txt (x # xs) s = (Abort :: (split_error, streams) outcome)"
  using assms by (simp add: isA_def genGlobalVar_def findOnlyChildOfType_def find_take oassert_def
      min_def split: if_splits)

theorem global_without_initialiser_aborts_witness:
  "genNamespaceContent ''int x;'' [Item GlobalVarDef [leaf I_begin (position ''int x;'' 6)] I_begin
     (position ''int x;'' 6)] (OStream_new, OStream_new) = (Abort :: (split_error, streams) outcome)"
  by (rule global_without_initialiser_aborts) (simp_all add: isA_def leaf_def)

text \<open>C21: findChildrenOfType returns, for a limit that is not 0, the first so many of the items of the type asked
  for that are not inside another such item, in the order of the text; with the default limit SIZE_MAX that is
  all of them, up to 2^64 - 1.\<close>

theorem search_is_first_found:
  "lim \<noteq> 0 \<Longrightarrow> findChildrenOfType t lim x = take (unat lim) (found_all t x)"
  by (rule find_take(1))

theorem search_is_first_found_witness:
  "(2 :: 64 word) \<noteq> 0 \<and>
   findChildrenOfType WhiteSpace 2 (composite File [composite WhiteSpace [leaf I_begin I_begin]]) =
     [composite WhiteSpace [leaf I_begin I_begin]]"
  using search_is_first_found [of 2 WhiteSpace] by (simp add: composite_def isA_def)

section \<open>SNMPv3\<close>

definition sample_usm :: SnmpV3UsmMessage where
  "sample_usm = SnmpV3UsmMessage 1 484 3 (SnmpV3UsmSecurityParameters [1, 2] 0 0 [0x75])
     (SnmpV3ScopedPDU [1, 2] [] (PDU 5 0 0 [] 0xA0))"

definition sample_mac :: mac_calculator where
  "sample_mac key = Ret (\<lambda>message. Ret [foldr (+) (key @ message) 0])"

definition sample_cipher :: cipher where
  "sample_cipher key iv data = Ret (map (\<lambda>b. b XOR hd key XOR last iv) data)"

definition sample_usm_bytes :: bytes where
  "sample_usm_bytes =
     [48, 74, 2, 1, 3, 48, 13, 2, 1, 1, 2, 2, 1, 228, 4, 1, 3, 2, 1, 3, 4, 31, 48, 29, 4, 2, 1, 2, 2, 1, 0, 2, 1, 0,
      4, 1, 117, 4, 4, 3, 0, 0, 0, 4, 8, 0, 0, 0, 0, 0, 0, 0, 9, 4, 21, 62, 29, 10, 12, 15, 12, 10, 14, 174, 5, 12,
      15, 11, 12, 15, 14, 12, 15, 14, 62, 14]"

lemma sample_cipher_inverse: "inverse_ciphers sample_cipher sample_cipher"
  by (auto simp: inverse_ciphers_def sample_cipher_def comp_def xor.assoc intro!: map_idI)

lemma sample_usm_encoded:
  "encodeSnmpV3UsmMessage sample_mac 4 sample_usm [1] (AES_encrypt sample_cipher) (replicate 16 7, 9) =
    Ret (sample_usm_bytes, (replicate 16 7, 10))"
  by code_simp

lemma sample_usm_decodable: "decodable_usm sample_usm" "usm_flags sample_usm AND 0x03 = 0x03"
  "length sample_usm_bytes < 2 ^ 31"
  by (simp_all add: sample_usm_def decodable_usm_def decodable_secparams_def decodable_scoped_def
      sample_usm_bytes_def)



text \<open>C23: Whatever bytes arrive, a message that decodeSnmpV3UsmMessage accepts carries the truncated MAC, under
  the receiver's key, of the message with zeros in place of the MAC: nothing that was not authenticated gets
  through, whatever the flags say.\<close>

theorem usm_accepts_authentic:
  assumes "decodeSnmpV3UsmMessage mac n d key decrypt = Ret y"
  shows "\<exists>calculateMac k m. mac key = Ret calculateMac \<and> k + n \<le> length d \<and>
    calculateMac (take k d @ replicate n 0 @ drop (k + n) d) = Ret m \<and> take n (drop k d) = resize n m"
  using assms by (rule accepted_is_authentic)

theorem usm_accepts_authentic_witness:
  "\<exists>calculateMac k m. sample_mac [1] = Ret calculateMac \<and> k + 4 \<le> length sample_usm_bytes \<and>
    calculateMac (take k sample_usm_bytes @ replicate 4 0 @ drop (k + 4) sample_usm_bytes) = Ret m \<and>
    take 4 (drop k sample_usm_bytes) = resize 4 m"
  by (rule usm_accepts_authentic [OF
      usm_AES_decodes [OF sample_cipher_inverse sample_usm_encoded sample_usm_decodable(3,1,2)]])

text \<open>The offset at which decodeSnmpV3UsmMessage looks for the received MAC, computed from the remaining lengths
  of two iterators, is right for every message: the assertion that compares the bytes there with the MAC can
  not abort the process, and neither the comparison nor the zeroing leaves the data.\<close>

theorem mac_located:
  assumes "decodeSnmpV3Message d = Ret (x, k)"
    and "decodeSnmpV3UsmSecurityParameters (v3_securityParameters x) = Ret (secParams, mac, m, priv)"
  shows "copy_range d (k + m) (length mac) = Ret mac \<and>
    fill_zero d (k + m) (length mac) =
      Ret (take (k + m) d @ replicate (length mac) 0 @ drop (k + m + length mac) d)"
  using range_of_slice [OF mac_in_message [OF assms]] by simp

theorem mac_located_witness:
  "copy_range sample_usm_bytes (22 + 17) (length [3, 0, 0, 0 :: byte]) = Ret [3, 0, 0, 0]"
proof -
  let ?x = "SnmpV3Message 1 484 3 3 (take 31 (drop 22 sample_usm_bytes)) (drop 53 sample_usm_bytes)"
  have "decodeSnmpV3Message sample_usm_bytes = Ret (?x, 22)" by code_simp
  moreover have "decodeSnmpV3UsmSecurityParameters (v3_securityParameters ?x) =
      Ret (SnmpV3UsmSecurityParameters [1, 2] 0 0 [0x75], [3, 0, 0, 0], 17, [0, 0, 0, 0, 0, 0, 0, 9])"
    by code_simp
  ultimately show ?thesis by (rule mac_located [THEN conjunct1])
qed


lemma encode_oid_values:
  assumes "encode_value (request_sequence version community rid a b (map value_param vars) t) = Ret d"
  shows "list_all (\<lambda>(x, v). encodable_oid x \<and> well_formed v) vars"
  using assms by (auto simp: encode_values split: if_splits)

text \<open>An SNMPv1 response is decoded to what was encoded, with its identifier, error status, error index and values
  in order; its type arrives as 0xA2 whatever the struct's field said.\<close>

theorem v1_response_decodes:
  assumes "encode_SnmpV1Response (SnmpV1Response responseType community rid error ei values) = Ret d"
    and "length d < 2 ^ 31" and "list_all decodable_varbind values" and "error \<le> 0x7fffffff"
  shows "decodeSnmpV1Response d = Ret (SnmpV1Response 0xA2 community rid error ei values)"
  using assms by (rule SnmpV1Response_decodes)

theorem v1_response_decodes_witness:
  "decodeSnmpV1Response get_answer_bytes = Ret (SnmpV1Response 0xA2 [0x70] 5 0 0 [(sample_oid, IntValue 7)])"
proof -
  have "encode_SnmpV1Response (SnmpV1Response 0 [0x70] 5 0 0 [(sample_oid, IntValue 7)]) = Ret get_answer_bytes"
    using sample_answer_encoded [of "[(sample_oid, IntValue 7)]" 0 0] by (simp add: sample_bytes)
  from v1_response_decodes [OF this get_bytes_small(2)] show ?thesis by (simp add: decodable_varbind_def)
qed

text \<open>C24: An SNMPv2c response is decoded to what was encoded: values and the three exceptions noSuchObject,
  noSuchInstance and endOfMibView, in order.\<close>

theorem v2c_response_decodes:
  assumes "encode_SnmpV2cResponse (SnmpV2cResponse responseType community rid error ei vars) = Ret d"
    and "length d < 2 ^ 31" and "list_all decodable_var vars" and "error \<le> 0x7fffffff"
  shows "decodeSnmpV2cResponse d = Ret (SnmpV2cResponse 0xA2 community rid error ei vars)"
  using assms by (rule SnmpV2cResponse_decodes)

theorem v2c_response_decodes_witness:
  "decodeSnmpV2cResponse (sample_message 1 0xA2 0 0 [(sample_oid, IntValue 7)])
    = Ret (SnmpV2cResponse 0xA2 [0x70] 5 0 0 [SnmpVar sample_oid (IntValue 7)])"
proof -
  have "encode_SnmpV2cResponse (SnmpV2cResponse 0 [0x70] 5 0 0 [SnmpVar sample_oid (IntValue 7)])
      = Ret (sample_message 1 0xA2 0 0 [(sample_oid, IntValue 7)])"
    using sample_pdu_encoded [of "[(sample_oid, IntValue 7)]" 0 0] by simp
  from v2c_response_decodes [OF this sample_small(2)] show ?thesis by simp
qed

text \<open>An SNMPv2c get-bulk request is decoded to what was encoded: the identifiers are split again between the ones
  asked once and the repeated ones, and the number of repetitions is kept.\<close>

theorem bulk_request_decodes:
  assumes "encode_SnmpV2cGetBulkRequest (SnmpV2cGetBulkRequest community rid getNext (n, getNextN)) = Ret d"
    and "length d < 2 ^ 31" and "length getNext < 2 ^ 64"
  shows "decodeSnmpV2cGetBulkRequest d = Ret (SnmpV2cGetBulkRequest community rid getNext (n, getNextN))"
  using assms by (rule SnmpV2cGetBulkRequest_decodes)

theorem bulk_request_decodes_witness:
  "decodeSnmpV2cGetBulkRequest (sample_message 1 0xA5 0 10 [(sample_oid, NullValue)])
    = Ret (SnmpV2cGetBulkRequest [0x70] 5 [] (10, [sample_oid]))"
proof -
  have "encode_SnmpV2cGetBulkRequest (SnmpV2cGetBulkRequest [0x70] 5 [] (10, [sample_oid]))
      = Ret (sample_message 1 0xA5 0 10 [(sample_oid, NullValue)])"
    using sample_oids_encoded [of 1 0 10 "0xA5"] by simp
  from bulk_request_decodes [OF this sample_small(1)] show ?thesis by simp
qed

text \<open>An SNMPv1 trap is decoded to what was encoded: enterprise, agent address, generic type (a signed int) and
  specific type, time stamp and variables.\<close>

theorem v1_trap_decodes:
  assumes "encode_SnmpV1Trap (SnmpV1Trap community trapType origin generic specific timestamp vars) = Ret d"
    and "length d < 2 ^ 31" and "list_all decodable_varbind (sorted_list_of_fmap vars)"
    and "ticks timestamp * 10 = timestamp"
  shows "decodeSnmpV1Trap d = Ret (SnmpV1Trap community trapType origin generic specific timestamp vars)"
  using assms by (rule SnmpV1Trap_decodes)

definition trap_bytes :: bytes where
  "trap_bytes =
     [48, 30, 2, 1, 0, 4, 1, 112, 164, 22, 6, 3, 43, 6, 1, 64, 4, 1, 2, 3, 4, 2, 1, 6, 2, 1, 9, 67, 1, 5, 48, 0]"

theorem v1_trap_decodes_witness:
  "decodeSnmpV1Trap trap_bytes = Ret (SnmpV1Trap [0x70] sample_oid 0x01020304 6 9 50 fmempty)"
proof -
  let ?v = "Sequence [IntValue 0, StringValue [0x70], Sequence [OidValue sample_oid, IPv4AddressValue 0x01020304,
      IntValue 6, IntValue 9, TimeTicksValue 50, Sequence [] 0x30] 0xA4] 0x30"
  have t: "ticks 50 * 10 = 50" by code_simp
  have "ber ?v = trap_bytes" unfolding trap_bytes_def by code_simp
  moreover have "sorted_list_of_fmap (fmempty :: (oid, snmp_value) fmap) = []"
    by (simp add: sorted_list_of_fmap_def sorted_list_of_fset.rep_eq)
  ultimately have "encode_SnmpV1Trap (SnmpV1Trap [0x70] sample_oid 0x01020304 6 9 50 fmempty) = Ret trap_bytes"
    by (simp add: encode_value_eq del: ber.simps)
  from v1_trap_decodes [OF this] t show ?thesis
    by (simp add: trap_bytes_def sorted_list_of_fmap_def sorted_list_of_fset.rep_eq)
qed

text \<open>An SNMPv2c trap is decoded to what was encoded: the first two variables carry the time stamp and the type of
  the trap, the rest arrive in order.\<close>

theorem v2c_trap_decodes:
  assumes "encode_SnmpV2cTrap (SnmpV2cTrap community rid trapType timestamp vars) = Ret d"
    and "length d < 2 ^ 31" and "list_all decodable_varbind vars" and "ticks timestamp * 10 = timestamp"
  shows "decodeSnmpV2cTrap d = Ret (SnmpV2cTrap community rid trapType timestamp vars)"
  using assms by (rule SnmpV2cTrap_decodes)

theorem v2c_trap_decodes_witness:
  "\<exists>d. encode_SnmpV2cTrap (SnmpV2cTrap [0x70] 5 sample_oid 50 []) = (Ret d :: (unit, bytes) outcome) \<and>
    decodeSnmpV2cTrap d = Ret (SnmpV2cTrap [0x70] 5 sample_oid 50 [])"
proof -
  let ?vars = "[(sysUpTime_oid, TimeTicksValue 50), (snmpTrapOID_oid, OidValue sample_oid)]"
  have t: "ticks 50 * 10 = 50" by code_simp
  have "list_all (\<lambda>(x, v). encodable_oid x \<and> well_formed v) ?vars"
    by (simp add: encodable_oid_def sysUpTime_oid_def snmpTrapOID_oid_def sample_oid_def)
  then have e: "encode_SnmpV2cTrap (SnmpV2cTrap [0x70] 5 sample_oid 50 []) = Ret (sample_message 1 0xA7 0 0 ?vars)"
    using encode_values [of 1 "[0x70]" 5 0 0 ?vars "0xA7"] by (simp add: sample_message_def value_param_def)
  have "length (concat (map ber_varbind ?vars)) < 100" by code_simp
  from v2c_trap_decodes [OF e sample_message_small [OF this]] t e show ?thesis by auto
qed

text \<open>C25: A protocol data unit is decoded to what makePDUSequence encodes, from any position in a packet, and
  decodePDU returns the position right behind it.\<close>

theorem pdu_decodes:
  assumes "to_vector (encodedLength (makePDUSequence (PDU rid error ei vars t)))
      (encodeTo (makePDUSequence (PDU rid error ei vars t))) = Ret d"
    and "length (pre @ d @ post) < 2 ^ 31" and "list_all decodable_var vars" and "error \<le> 0x7fffffff"
  shows "decodePDU (It (pre @ d @ post) (length pre)) =
    Ret (PDU rid error ei vars t, It (pre @ d @ post) (length pre + length d))"
proof -
  have "d = ber (makePDUSequence (PDU rid error ei vars t))"
    using assms(1) unfolding value_encoding.to_vector_encodes by (metis outcome.distinct(3) outcome.inject(1))
  with decodePDU_decodes [OF _ assms(2-4)] bytes_at_self [of pre d post] show ?thesis by blast
qed

theorem pdu_decodes_witness:
  "decodePDU (It [0, 162, 11, 2, 1, 5, 2, 1, 0, 2, 1, 0, 48, 0, 9] 1) =
    Ret (PDU 5 0 0 [] 0xA2, It [0, 162, 11, 2, 1, 5, 2, 1, 0, 2, 1, 0, 48, 0, 9] 14)"
proof -
  let ?d = "[162, 11, 2, 1, 5, 2, 1, 0, 2, 1, 0, 48, 0]"
  have "ber (makePDUSequence (PDU 5 0 0 [] 0xA2)) = ?d" by code_simp
  moreover have "well_formed (makePDUSequence (PDU 5 0 0 [] 0xA2))" by simp
  ultimately have "to_vector (encodedLength (makePDUSequence (PDU 5 0 0 [] 0xA2)))
      (encodeTo (makePDUSequence (PDU 5 0 0 [] 0xA2))) = Ret ?d"
    using value_encoding.to_vector_encodes [of "makePDUSequence (PDU 5 0 0 [] 0xA2)"] by (simp del: makePDUSequence.simps)
  from pdu_decodes [OF this, of "[0]" "[9]"] show ?thesis by simp
qed




text \<open>C27: Which responses the SNMPv1 get accepts: same identifier, type 0xA2, no error, every requested oid among
  the values; the result is the map of all values of the response (the first of several for one oid),
  unrequested ones included.\<close>

theorem v1_get_accepts:
  "validate_SnmpV1GetRequest (SnmpV1GetRequest community rid oids)
      (SnmpV1Response responseType community' rid' error ei values) = Ret result \<longleftrightarrow>
    rid = rid' \<and> responseType = 0xA2 \<and> error = 0 \<and> fset oids \<subseteq> fst ` set values \<and>
    result = fmap_of_list values"
  by (auto simp: Let_def less_eq_fset.rep_eq fset_of_list.rep_eq split: if_splits)

text \<open>C28: Which responses the SNMPv2c get accepts: same identifier, type 0xA2, no error, exactly the requested
  oids with none twice (the loop over missing, extra and duplicate oids finds all three kinds), no
  endOfMibView.\<close>

theorem v2c_get_accepts:
  "validate_SnmpV2cGetRequest (SnmpV2cGetRequest community rid oids)
      (SnmpV2cResponse responseType community' rid' error ei vars) = Ret result \<longleftrightarrow>
    rid = rid' \<and> responseType = 0xA2 \<and> error = 0 \<and> distinct (map var_oid vars) \<and>
    fset_of_list (map var_oid vars) = oids \<and> list_all (\<lambda>v. \<forall>x. v \<noteq> SnmpVarEndOfMibView x) vars \<and>
    result = fmap_of_list (map (\<lambda>v. (var_oid v, v)) vars)"
proof -
  obtain M E D where fold: "fold (\<lambda>v. tick_off oids (var_oid v)) vars (oids, {||}, {||}) = (M, E, D)"
    by (metis prod_cases3)
  have "M = {||} \<and> E = {||} \<and> D = {||} \<longleftrightarrow> distinct (map var_oid vars) \<and> fset_of_list (map var_oid vars) = oids"
    using tick_off_fold [OF fold] by simp
  then show ?thesis
    by (auto simp: fold omap_result_entry split: if_splits)
qed

text \<open>Which responses the SNMPv2c set accepts: same identifier, type 0xA2, no error and the oids of the response
  are those of the request.\<close>

theorem v2c_set_accepts:
  "validate_SnmpV2cSetRequest (SnmpV2cSetRequest community rid values)
      (SnmpV2cResponse responseType community' rid' error ei vars) = Ret u \<longleftrightarrow>
    rid = rid' \<and> responseType = 0xA2 \<and> error = 0 \<and> fset_of_list (map var_oid vars) = fmdom values"
  by (auto simp: Let_def split: if_splits)

text \<open>C29: Which responses the get-bulk accepts and what it returns: the first variables are the values of the
  oids asked once, the rest is cut, in order and without remainder, into rows as long as the list of repeated
  oids.\<close>

theorem bulk_accepts:
  "validate_SnmpV2cGetBulkRequest (SnmpV2cGetBulkRequest community rid getNext (n, getNextN))
      (SnmpV2cResponse responseType community' rid' error ei vars) = Ret (values, rows) \<longleftrightarrow>
    rid = rid' \<and> responseType = 0xA2 \<and> error = 0 \<and> length getNext \<le> length vars \<and>
    values = fmap_of_list (zip getNext vars) \<and> concat rows = drop (length getNext) vars \<and>
    list_all (\<lambda>row. length row = length getNextN \<and> row \<noteq> []) rows"
  by (cases rows) (auto simp: Let_def rows_loop_eq_Ret split: if_splits)










text \<open>A response with both a wrong identifier and a wrong type is reported as ResponseIdMismatch, not, as
  validateResponse.hh documents the priority, as ResponseTypeMismatch.\<close>

theorem id_checked_first:
  assumes "rid \<noteq> rid'" and "responseType \<noteq> 0xA2"
  shows "validate_SnmpV1GetRequest (SnmpV1GetRequest community rid oids)
    (SnmpV1Response responseType community' rid' error ei values) = Throw (ResponseIdMismatch rid' rid)"
  using assms by (simp add: checkIdAndType_def)

theorem id_checked_first_witness:
  "validate_SnmpV1GetRequest (SnmpV1GetRequest [] 1 {||}) (SnmpV1Response 0xA0 [] 2 0 0 []) = Throw (ResponseIdMismatch 2 1)"
  by (rule id_checked_first) simp_all

text \<open>The conversions of a value to int, unsigned int, long and unsigned long return the number it holds when the
  target type has it, and throw otherwise (too big, too small, or not a number), for signed integers and for
  counters.\<close>

theorem conversions_exact:
  "exact (- 2147483648) 2147483647 (number v) (intValue v) \<and> exact 0 4294967295 (number v) (uintValue v) \<and>
   exact (- 9223372036854775808) 9223372036854775807 (number v) (longValue v) \<and>
   exact 0 18446744073709551615 (number v) (ulongValue v)"
  by (intro conjI intValue_exact uintValue_exact longValue_exact ulongValue_exact)

text \<open>intDataLength is the smallest number of bytes, at least one, whose two's complement holds the integer;
  encodeInt writes no superfluous byte and loses no bit.\<close>

theorem int_length_minimal:
  "intDataLength v = (LEAST k. 0 < k \<and> - (2 ^ (8 * k - 1)) \<le> sint v \<and> sint v < 2 ^ (8 * k - 1))"
  unfolding intDataLength_eq int_fits_def by simp

text \<open>The bisection of countSignificantBits finds the position of the highest set bit: x is below 2^k exactly for
  the k that are not smaller than the result.\<close>

theorem significant_bits:
  "countSignificantBits x \<le> k \<longleftrightarrow> unat x < 2 ^ k"
  by (rule countSignificantBits_le_iff)

lemma to_vector_writes: "writes f xs \<Longrightarrow> to_vector (Ret (length xs)) f = Ret xs"
  using writesD [of f xs 0 "replicate (length xs) 0"] by (simp add: to_vector_def overwrite_all)

lemma to_vector_length: "to_vector (Ret (encodedLengthOfLength n)) (encodeLength n) = Ret (ber_length n)"
  unfolding length_ber_length [symmetric] by (rule to_vector_writes) (rule writes_encodeLength)

text \<open>A length in the short or the long form, any of the 64-bit ones, is decoded to itself wherever it stands in a
  packet, and the encoder writes the announced number of bytes.\<close>

theorem length_decodes:
  assumes "to_vector (Ret (encodedLengthOfLength n)) (encodeLength n) = Ret d"
  shows "decodeLength (It (pre @ d @ post) (length pre)) = Ret (Some n, It (pre @ d @ post) (length pre + length d))"
proof -
  have "d = ber_length n"
    using assms by (simp add: to_vector_length)
  with decodeLength_ber_length bytes_at_self [of pre d post] show ?thesis by blast
qed

theorem length_decodes_witness:
  "decodeLength (It [0x30, 130, 1, 44, 0] 1) = Ret (Some 300, It [0x30, 130, 1, 44, 0] 4)"
proof -
  have "to_vector (Ret (encodedLengthOfLength 300)) (encodeLength 300) = (Ret [130, 1, 44] :: (unit, bytes) outcome)"
    by code_simp
  from length_decodes [OF this, of "[0x30]" "[0]"] show ?thesis by simp
qed


text \<open>C32: A packet that one request decoder accepts makes every other decoder of its version raise
  RequestTypeMismatch and every decoder of the other version raise SnmpVersionMismatch, so the server of
  xju/snmp.hh, which tries them in turn on exactly these exceptions, finds the one decoder whatever the order.\<close>

theorem request_dispatch:
  "((t, Ret ()) \<in> set (v1_requests d) \<longrightarrow>
      (\<forall>(u, m) \<in> set (v1_requests d). u \<noteq> t \<longrightarrow> m = Throw (RequestTypeMismatch t u)) \<and>
      (\<forall>(u, m) \<in> set (v2c_requests d). m = Throw (SnmpVersionMismatch 0 1))) \<and>
   ((t, Ret ()) \<in> set (v2c_requests d) \<longrightarrow>
      (\<forall>(u, m) \<in> set (v2c_requests d). u \<noteq> t \<longrightarrow> m = Throw (RequestTypeMismatch t u)) \<and>
      (\<forall>(u, m) \<in> set (v1_requests d). m = Throw (SnmpVersionMismatch 1 0)))"
  using v1_request_dispatch v2c_request_dispatch by blast

theorem request_dispatch_witness:
  "accepts (decodeSnmpV1SetRequest (get_bytes[8 := 161])) = Throw (RequestTypeMismatch 0xA1 0xA3) \<and>
   accepts (decodeSnmpV2cGetNextRequest (get_bytes[8 := 161])) = Throw (SnmpVersionMismatch 0 1)"
proof -
  have "accepts (decodeSnmpV1GetNextRequest (get_bytes[8 := 161])) = Ret ()"
    unfolding get_bytes_def by code_simp
  then have "(0xA1, Ret ()) \<in> set (v1_requests (get_bytes[8 := 161]))"
    by (simp add: v1_requests_def)
  with request_dispatch [of "0xA1" "get_bytes[8 := 161]"] show ?thesis
    by (simp add: v1_requests_def v2c_requests_def)
qed

text \<open>C33: Parsing the dotted text of a non-empty object identifier returns its components: every 32-bit component
  is printed in decimal and read back.\<close>

theorem oid_text_round_trip:
  assumes "cs \<noteq> []"
  shows "parseDottedOid (toString (Oid cs)) = Ret cs"
  using assms refl by (rule parseDottedOid_toString)

theorem oid_text_round_trip_witness:
  "parseDottedOid (toString (Oid [1, 3, 4294967295])) = Ret [1, 3, 4294967295]"
  by (rule oid_text_round_trip) simp



text \<open>nextOids of a table that holds given rows: the columns' own identifiers before the first row, then the
  identifiers of the last row, one for each column in the columns' order.\<close>

theorem table_next_oids:
  assumes "represents t rows" and "tbl_cols t \<noteq> {||}"
  shows "SnmpV2cTable_nextOids t =
    Ret (if rows = [] then sorted_list_of_fset (tbl_cols t) else map var_oid (last rows))"
  unfolding SnmpV2cTable_nextOids_def using assms by (rule nextOids_represents)

theorem table_next_oids_witness:
  "SnmpV2cTable_nextOids (new_table {|sample_oid|}) = Ret [sample_oid]"
  using table_next_oids [OF represents_new, of "{|sample_oid|}"] by (simp add: new_table_def)



text \<open>C36: The get-next client loop of xju/snmp.hh ends for both versions against every agent that answers with
  the next entries of an ordered MIB, and the table then holds, for each column, its entries in order up to
  the length of the shortest column (SNMPv1: for columns that do not contain .1.3).\<close>

theorem table_walk_collects:
  assumes "sorted_wrt (<) (map fst mib)" and "cols \<noteq> {||}"
  shows "(\<exists>t. walk SnmpV2cTable_nextOids SnmpV2cTable_add (v2c_agent mib) (new_table cols) = Ret t \<and> tbl_atEnd t \<and>
      (\<forall>c |\<in>| cols. column t c =
        Ret (map (\<lambda>e. SnmpVar (fst e) (snd e)) (take (shortest mib cols) (below mib c))))) \<and>
    ((\<forall>c |\<in>| cols. \<not> oid_contains c end_oid) \<longrightarrow>
     (\<exists>t. walk SnmpV1Table_nextOids SnmpV1Table_add (v1_agent mib) (new_table cols) = Ret t \<and> tbl_atEnd t \<and>
      (\<forall>c |\<in>| cols. column t c = Ret (take (shortest mib cols) (below mib c)))))"
  unfolding SnmpV1Table_nextOids_def SnmpV1Table_add_def SnmpV2cTable_nextOids_def SnmpV2cTable_add_def
  by (intro conjI impI, rule v2c.collects [OF assms], simp, rule v1.collects [OF assms, unfolded list.map_ident])

theorem table_walk_collects_witness:
  "\<exists>t. walk SnmpV1Table_nextOids SnmpV1Table_add
      (v1_agent [(Oid [1, 3, 5, 1], IntValue 7), (Oid [1, 3, 6, 1], IntValue 8)]) (new_table {|Oid [1, 3, 5]|}) = Ret t \<and>
    column t (Oid [1, 3, 5]) = Ret [(Oid [1, 3, 5, 1], IntValue 7)]"
proof -
  let ?mib = "[(Oid [1, 3, 5, 1], IntValue 7), (Oid [1, 3, 6, 1], IntValue 8)]" and ?cols = "{|Oid [1, 3, 5]|}"
  have "sorted_wrt (<) (map fst ?mib)" by (simp add: less_oid)
  moreover have "\<forall>c |\<in>| ?cols. \<not> oid_contains c end_oid" by (simp add: oid_contains_prefix end_oid_def)
  moreover have "below ?mib (Oid [1, 3, 5]) = [(Oid [1, 3, 5, 1], IntValue 7)]"
    by (simp add: below_def oid_contains_prefix less_oid)
  ultimately show ?thesis
    using table_walk_collects [of ?mib ?cols] by (auto simp: shortest_def)
qed

section \<open>What modelling found\<close>

definition hanging_packet :: bytes where
  "hanging_packet = [48, 31, 2, 1, 0, 4, 1, 112, 160, 23, 2, 1, 5, 2, 1, 0, 2, 1, 0,
     48, 12, 48, 10, 6, 1, 43, 5, 132, 255, 255, 255, 245, 0]"

lemma hanging_binding:
  "decodeVarBind (It hanging_packet 21) = Ret ((Oid [1, 3], NullValue), It hanging_packet 21)"
  unfolding hanging_packet_def by code_simp

lemma hanging_header:
  "decodeMessageHeader (\<lambda>v. SnmpVersionMismatch v 0) 0 hanging_packet = Ret (([112], 0xA0), It hanging_packet 10)"
  "decodeThreeInts (It hanging_packet 10) = Ret ((5, 0, 0), It hanging_packet 19)"
  "decodeSequenceTypeAndLength (It hanging_packet 19) = Ret ((48, Some 12), It hanging_packet 21)"
  "list_atEnd (Some 12) (It hanging_packet 21) (It hanging_packet 21) = Ret False"
  unfolding hanging_packet_def by code_simp+


text \<open>C37: A request of 33 bytes that hangs the server: its NULL value announces a length of 0xFFFFFFF5, which
  operator+ takes as the int -11, so the iterator goes back to the start of the variable and
  decodeSnmpV1GetRequest reads the same variable for ever.\<close>

theorem null_length_hangs: "decodeSnmpV1GetRequest hanging_packet = Diverge"
  using items_loop_diverges [of decodeVarBind, OF hanging_binding hanging_header(4), of "[]"]
  by (simp add: decodeSnmpV1GetRequest_def decode_items_def hanging_header)

text \<open>C38: A packet that ends inside a length in the long form does not raise the documented exception: the
  assertion of operator+ aborts the process.\<close>

theorem truncated_length_aborts:
  assumes "k < length d" and "0x80 < d ! k" and "unat (d ! k AND 0x7f) \<le> 8"
    and "length d < k + 1 + unat (d ! k AND 0x7f)"
  shows "decodeLength (It d k) = Abort"
  using assms(2-4) unfolding decodeLength_spec [OF assms(1)] by (auto simp: Let_def)

theorem truncated_length_aborts_witness:
  "decodeLength (It [0x30, 0x82] 1) = Abort"
  by (rule truncated_length_aborts) simp_all

text \<open>C39: An object identifier in the indefinite form is never decoded, however it ends: the end test adds 1 to
  the byte instead of the iterator and can not hold.\<close>

theorem indefinite_oid_never_returned:
  assumes "k + 1 < length d" and "d ! (k + 1) = 0x80"
  shows "decodeOidValue (It d k) \<noteq> Ret x"
  by (rule decodeOidValue_indefinite) (use assms in \<open>simp_all add: decodeLength_spec\<close>)

theorem indefinite_oid_never_returned_witness:
  "decodeOidValue (It [6, 0x80, 43, 6, 0, 0] 0) \<noteq> Ret (Oid [1, 3, 6], It [6, 0x80, 43, 6, 0, 0] 6)"
  by (rule indefinite_oid_never_returned) simp_all



end
